(* ===== verification/Prelude.thy ===== *)
theory Prelude
  imports Main "HOL-Library.Word"
begin

unbundle bit_operations_syntax

text \<open>
  Shared vocabulary of the development: machine integers and pointers, the fault values an
  operation can end in, sequencing of fallible operations, and lemmas on blocks of bytes that
  the buffer and connection theories share. Three collections of facts carry the proofs:
  \<open>bind_simps\<close> (sequencing), \<open>block_simps\<close> (byte blocks) and \<open>frame_simps\<close> (which
  part of a state an operation leaves alone).
\<close>

named_theorems bind_simps "sequencing of fallible operations"
named_theorems block_simps "byte blocks inside a byte vector"
named_theorems frame_simps "fields an operation does not touch"

section \<open>Machine types\<close>

type_synonym byte = "8 word"
type_synonym size_t = "64 word"
type_synonym bits32 = "32 word"
type_synonym fd = int
type_synonym tid = int
type_synonym ptr = nat

text \<open>The largest size a \<open>std::vector<char>\<close> can have on a 64-bit target, \<open>PTRDIFF_MAX\<close>.\<close>

definition vector_max_size :: nat where
  "vector_max_size = 2 ^ 63 - 1"

lemma size_t_bound [simp]: "unat (x :: size_t) < 18446744073709551616"
  using unsigned_less [of x] by simp

lemma unat_of_nat_size_t: "n < 2 ^ 64 \<Longrightarrow> unat (of_nat n :: size_t) = n"
  by (simp add: unat_of_nat take_bit_nat_eq_self)

lemma unat_add_size_t:
  "unat (x :: size_t) + unat y < 2 ^ 64 \<Longrightarrow> unat (x + y) = unat x + unat y"
  by (simp add: unat_word_ariths)

lemma unat_diff_size_t: "(y :: size_t) \<le> x \<Longrightarrow> unat (x - y) = unat x - unat y"
  by (simp add: unat_sub)

lemma unat_uminus_size_t:
  assumes "(x :: size_t) \<noteq> 0"
  shows "unat (- x) = 2 ^ 64 - unat x"
proof -
  have pos: "0 < uint x" using assms by (simp add: word_neq_0_conv word_less_def)
  have lt: "uint x < 2 ^ 64" using unsigned_less [of x] by simp
  have "uint (- x) = - uint x mod 2 ^ 64" using uint_word_ariths(4) [of x] by simp
  also have "\<dots> = (2 ^ 64 - uint x) mod 2 ^ 64" by (rule minus_mod_self1 [symmetric])
  also have "\<dots> = 2 ^ 64 - uint x" using pos lt by (intro mod_pos_pos_trivial) simp_all
  finally have "uint (- x) = 2 ^ 64 - uint x" .
  then show ?thesis using lt by (simp add: unat_eq_nat_uint nat_diff_distrib del: nat_uint_eq)
qed

section \<open>Faults and sequencing\<close>

text \<open>
  The ways an operation of the library can fail to return: \<open>LOG_FATAL\<close> ends the process with
  \<open>exit(-1)\<close>, \<open>std::vector::resize\<close> throws \<open>std::length_error\<close>, a call through an empty
  \<open>std::function\<close> throws \<open>std::bad_function_call\<close>, and an access outside an array or
  through a null pointer and the overflow of an \<open>int\<close> are undefined behaviour.
\<close>

datatype fault = LogFatal | LengthError | BadFunctionCall | OutOfBounds | NullPointer | IntOverflow

type_synonym 'a result = "fault + 'a"

definition andThen :: "'a result \<Rightarrow> ('a \<Rightarrow> 'b result) \<Rightarrow> 'b result" where
  "andThen m f = (case m of Inl e \<Rightarrow> Inl e | Inr a \<Rightarrow> f a)"

lemma andThen_Inl [simp, bind_simps]: "andThen (Inl e) f = Inl e"
  by (simp add: andThen_def)

lemma andThen_Inr [simp, bind_simps]: "andThen (Inr a) f = f a"
  by (simp add: andThen_def)

lemma andThen_assoc: "andThen (andThen m f) g = andThen m (\<lambda>a. andThen (f a) g)"
  by (simp add: andThen_def split: sum.split)

lemma andThen_eq_Inr [bind_simps]: "andThen m f = Inr b \<longleftrightarrow> (\<exists>a. m = Inr a \<and> f a = Inr b)"
  by (simp add: andThen_def split: sum.split)

lemma andThen_eq_Inl [bind_simps]:
  "andThen m f = Inl e \<longleftrightarrow> m = Inl e \<or> (\<exists>a. m = Inr a \<and> f a = Inl e)"
  by (auto simp: andThen_def split: sum.split)

lemma andThen_InrE [elim]:
  assumes "andThen m f = Inr b"
  obtains a where "m = Inr a" and "f a = Inr b"
  using assms by (auto simp: andThen_eq_Inr)

lemma andThen_prod3E:
  assumes "andThen m (\<lambda>(a, b, c). f a b c) = Inr r"
  obtains a b c where "m = Inr (a, b, c)" and "f a b c = Inr r"
  using assms by (auto simp: andThen_eq_Inr)

lemma andThen_prod4E:
  assumes "andThen m (\<lambda>(a, b, c, d). f a b c d) = Inr r"
  obtains a b c d where "m = Inr (a, b, c, d)" and "f a b c d = Inr r"
  using assms by (auto simp: andThen_eq_Inr)

text \<open>A loop over a list whose body may fail.\<close>

primrec foldE :: "('x \<Rightarrow> 's \<Rightarrow> 's result) \<Rightarrow> 'x list \<Rightarrow> 's \<Rightarrow> 's result" where
  "foldE f [] s = Inr s"
| "foldE f (x # xs) s = andThen (f x s) (foldE f xs)"

lemma andThen_foldE_Nil [simp]: "andThen m (foldE f []) = m"
  by (cases m) simp_all

lemma foldE_append: "foldE f (xs @ ys) s = andThen (foldE f xs s) (foldE f ys)"
  by (induction xs arbitrary: s) (simp_all add: andThen_def split: sum.split)

lemma foldE_invariant:
  assumes "foldE f xs s = Inr s'" and "P s"
    and step: "\<And>x s s'. x \<in> set xs \<Longrightarrow> P s \<Longrightarrow> f x s = Inr s' \<Longrightarrow> P s'"
  shows "P s'"
  using assms(1,2) step
proof (induction xs arbitrary: s)
  case (Cons x xs)
  from Cons.prems(1) obtain t where t: "f x s = Inr t" and rest: "foldE f xs t = Inr s'"
    by auto
  have "P t" by (rule Cons.prems(3) [OF _ Cons.prems(2) t]) simp
  with rest show ?case
    by (rule Cons.IH) (rule Cons.prems(3), simp_all)
qed simp

section \<open>Byte blocks\<close>

text \<open>\<open>overwrite i ds xs\<close> overwrites the block of \<open>xs\<close> that starts at \<open>i\<close> by \<open>ds\<close>.\<close>

definition overwrite :: "nat \<Rightarrow> 'a list \<Rightarrow> 'a list \<Rightarrow> 'a list" where
  "overwrite i ds xs = take i xs @ ds @ drop (i + length ds) xs"

definition block :: "nat \<Rightarrow> nat \<Rightarrow> 'a list \<Rightarrow> 'a list" where
  "block i j xs = take (j - i) (drop i xs)"

lemma length_overwrite [simp, block_simps]:
  "i + length ds \<le> length xs \<Longrightarrow> length (overwrite i ds xs) = length xs"
  by (simp add: overwrite_def)

lemma overwrite_Nil [simp, block_simps]: "overwrite i [] xs = xs"
  by (simp add: overwrite_def)

lemma length_block [simp, block_simps]: "j \<le> length xs \<Longrightarrow> length (block i j xs) = j - i"
  by (simp add: block_def)

lemma block_empty [simp, block_simps]: "j \<le> i \<Longrightarrow> block i j xs = []"
  by (simp add: block_def)

lemma block_append_left [block_simps]: "j \<le> length xs \<Longrightarrow> block i j (xs @ ys) = block i j xs"
  by (simp add: block_def)

lemma block_drop [block_simps]: "block (i + k) j xs = drop k (block i j xs)"
proof (cases "i + k \<le> j")
  case True
  then show ?thesis by (simp add: block_def drop_take add.commute)
next
  case False
  then show ?thesis by (simp add: block_def)
qed

lemma block_overwrite_end [block_simps]:
  assumes "i \<le> j" and "j + length ds \<le> length xs"
  shows "block i (j + length ds) (overwrite j ds xs) = block i j xs @ ds"
  using assms by (simp add: block_def overwrite_def drop_take)

lemma block_overwrite_at [block_simps]:
  assumes "i + length ds \<le> length xs"
  shows "block i (i + length ds) (overwrite i ds xs) = ds"
  using assms by (simp add: block_def overwrite_def)

lemma block_overwrite_left [block_simps]:
  assumes "j \<le> k" and "k + length ds \<le> length xs"
  shows "block i j (overwrite k ds xs) = block i j xs"
  using assms by (simp add: block_def overwrite_def drop_take min_absorb2)

lemma block_take [block_simps]: "j \<le> n \<Longrightarrow> block i j (take n xs) = block i j xs"
  by (simp add: block_def drop_take min_def)

lemma block_split:
  assumes "i \<le> m" and "m \<le> j"
  shows "block i j xs = block i m xs @ block m j xs"
proof -
  have "take (j - i) (drop i xs) = take ((m - i) + (j - m)) (drop i xs)" using assms by simp
  also have "\<dots> = take (m - i) (drop i xs) @ take (j - m) (drop (m - i) (drop i xs))"
    by (rule take_add)
  finally show ?thesis using assms by (simp add: block_def)
qed

lemma overwrite_append:
  "i + length ds + length es \<le> length xs \<Longrightarrow>
   overwrite (i + length ds) es (overwrite i ds xs) = overwrite i (ds @ es) xs"
  by (simp add: overwrite_def min_absorb2 ac_simps)

text \<open>
  \<open>std::copy\<close> on a range of an array into the same array: one element at a time, from the
  front. \<open>copy_within n i j xs\<close> copies \<open>n\<close> elements from \<open>i\<close> to \<open>j\<close>.
\<close>

primrec copy_within :: "nat \<Rightarrow> nat \<Rightarrow> nat \<Rightarrow> 'a list \<Rightarrow> 'a list" where
  "copy_within 0 i j xs = xs"
| "copy_within (Suc n) i j xs = copy_within n (Suc i) (Suc j) (xs[j := xs ! i])"

lemma length_copy_within [simp]: "length (copy_within n i j xs) = length xs"
  by (induction n arbitrary: i j xs) simp_all

lemma overwrite_Cons:
  assumes "j < length xs"
  shows "overwrite j (d # ds) xs = overwrite (Suc j) ds (xs[j := d])"
  using assms by (simp add: overwrite_def take_Suc_conv_app_nth)

lemma copy_within_overwrite:
  assumes "i + n \<le> length xs" and "j \<le> i"
  shows "copy_within n i j xs = overwrite j (block i (i + n) xs) xs"
  using assms
proof (induction n arbitrary: i j xs)
  case (Suc n)
  let ?ys = "xs[j := xs ! i]"
  have blk: "block i (i + Suc n) xs = xs ! i # block (Suc i) (Suc i + n) xs"
    using Suc.prems by (simp add: block_def Cons_nth_drop_Suc [symmetric])
  have "copy_within n (Suc i) (Suc j) ?ys = overwrite (Suc j) (block (Suc i) (Suc i + n) ?ys) ?ys"
    using Suc.prems by (intro Suc.IH) simp_all
  also have "block (Suc i) (Suc i + n) ?ys = block (Suc i) (Suc i + n) xs"
    using Suc.prems by (simp add: block_def)
  also have "overwrite (Suc j) (block (Suc i) (Suc i + n) xs) ?ys
      = overwrite j (block i (i + Suc n) xs) xs"
    unfolding blk using Suc.prems by (simp add: overwrite_Cons)
  finally show ?case by simp
qed simp

section \<open>Runs of operations and their refinement\<close>

text \<open>
  A component used as a black box: a sequence of operations, each with an output. \<open>runE\<close> runs
  the code's operations, \<open>runO\<close> the specification's, where \<open>None\<close> marks an operation the
  specification does not allow in the current state.
\<close>

primrec runE :: "('op \<Rightarrow> 'c \<Rightarrow> ('o \<times> 'c) result) \<Rightarrow> 'op list \<Rightarrow> 'c \<Rightarrow> ('o list \<times> 'c) result" where
  "runE f [] c = Inr ([], c)"
| "runE f (x # xs) c =
     andThen (f x c) (\<lambda>(o1, c1). andThen (runE f xs c1) (\<lambda>(os, c2). Inr (o1 # os, c2)))"

primrec runO :: "('op \<Rightarrow> 'a \<Rightarrow> ('o \<times> 'a) option) \<Rightarrow> 'op list \<Rightarrow> 'a \<Rightarrow> ('o list \<times> 'a) option" where
  "runO f [] a = Some ([], a)"
| "runO f (x # xs) a =
     Option.bind (f x a) (\<lambda>(o1, a1). Option.bind (runO f xs a1) (\<lambda>(os, a2). Some (o1 # os, a2)))"

text \<open>
  A data refinement with a resource bound: every operation costs at most \<open>cost op\<close> units of a
  quantity \<open>used\<close> that must stay within \<open>limit\<close> (the size of a vector, say). If the code does
  what the specification says for one operation, it does so for every sequence.
\<close>

locale data_refinement =
  fixes invar :: "'c \<Rightarrow> bool" and abs :: "'c \<Rightarrow> 'a"
    and cstep :: "'op \<Rightarrow> 'c \<Rightarrow> ('o \<times> 'c) result" and astep :: "'op \<Rightarrow> 'a \<Rightarrow> ('o \<times> 'a) option"
    and cost :: "'op \<Rightarrow> nat" and used :: "'c \<Rightarrow> nat" and limit :: nat
  assumes step_refines:
    "invar c \<Longrightarrow> used c + cost x \<le> limit \<Longrightarrow> astep x (abs c) = Some (out, a') \<Longrightarrow>
     \<exists>c'. cstep x c = Inr (out, c') \<and> invar c' \<and> abs c' = a' \<and> used c' \<le> used c + cost x"
begin

lemma run_refines:
  assumes "invar c" and "used c + sum_list (map cost xs) \<le> limit"
    and "runO astep xs (abs c) = Some (outs, a')"
  shows "\<exists>c'. runE cstep xs c = Inr (outs, c') \<and> invar c' \<and> abs c' = a'"
  using assms
proof (induction xs arbitrary: c outs)
  case (Cons x xs)
  from Cons.prems(3) obtain o1 a1 os where a1: "astep x (abs c) = Some (o1, a1)"
    and rest: "runO astep xs a1 = Some (os, a')" and outs: "outs = o1 # os"
    by (auto simp: bind_eq_Some_conv)
  from Cons.prems(2) have "used c + cost x \<le> limit" by simp
  from step_refines [OF Cons.prems(1) this a1] obtain c1
    where c1: "cstep x c = Inr (o1, c1)" "invar c1" "abs c1 = a1" "used c1 \<le> used c + cost x"
    by blast
  have "\<exists>c'. runE cstep xs c1 = Inr (os, c') \<and> invar c' \<and> abs c' = a'"
    using Cons.prems(2) c1 rest by (intro Cons.IH) simp_all
  with c1(1) outs show ?case by auto
qed simp

end

end
