(* ===== verification/Environment.thy ===== *)
theory Environment
  imports Prelude
begin

text \<open>
  Everything the library calls and does not define: the system calls and the application's
  callbacks. They are the fields of the record \<open>env\<close>, an argument of every operation that
  uses them; the state of the outside world (the kernel's sockets and epoll instances, and the
  application's own variables) is the opaque type \<open>'k\<close> they thread. What the manual pages say
  of a call, where a theorem relies on it, is a predicate of this theory, used as a hypothesis.
\<close>

section \<open>Results and constants of the C interface\<close>

text \<open>A system call returns \<open>-1\<close> and sets \<open>errno\<close>, or a value.\<close>

datatype 'a sysres = SysErr int | SysOk 'a

definition EINTR :: int where "EINTR = 4"
definition EWOULDBLOCK :: int where "EWOULDBLOCK = 11"
definition EMFILE :: int where "EMFILE = 24"
definition EPIPE :: int where "EPIPE = 32"
definition ECONNRESET :: int where "ECONNRESET = 104"

lemmas errno_defs = EINTR_def EWOULDBLOCK_def EMFILE_def EPIPE_def ECONNRESET_def

datatype epoll_op = EPOLL_CTL_ADD | EPOLL_CTL_DEL | EPOLL_CTL_MOD

text \<open>\<open>struct epoll_event\<close>; the union \<open>data\<close> holds the \<open>Channel\<close> pointer.\<close>

record epoll_event =
  ev_events :: bits32
  ev_data :: ptr

text \<open>\<open>struct sockaddr_in\<close>, with port and address in network byte order.\<close>

record sockaddr_in =
  sin_family :: int
  sin_port :: "16 word"
  sin_addr :: bits32

datatype sockopt = SO_KEEPALIVE | SO_REUSEADDR | SO_REUSEPORT | TCP_NODELAY

section \<open>The application\<close>

text \<open>
  What an application callback does to the library: the calls it makes, in order. The callback
  itself is a function of the environment that returns these calls; \<open>Retrieve\<close> and
  \<open>RetrieveAll\<close> act on the \<open>Buffer*\<close> handed to the message callback.
\<close>

datatype action =
    DoSend ptr "byte list"
  | DoSendBuffer ptr
  | DoShutdown ptr
  | DoRetrieve size_t
  | DoRetrieveAll
  | DoQueueInLoop ptr nat
  | DoSetContext ptr "nat option"
  | DoQuit ptr

record 'k env =
  sys_readv :: "fd \<Rightarrow> nat list \<Rightarrow> 'k \<Rightarrow> byte list sysres \<times> 'k"
  sys_read :: "fd \<Rightarrow> nat \<Rightarrow> 'k \<Rightarrow> byte list sysres \<times> 'k"
  sys_write :: "fd \<Rightarrow> byte list \<Rightarrow> 'k \<Rightarrow> nat sysres \<times> 'k"
  sys_close :: "fd \<Rightarrow> 'k \<Rightarrow> 'k"
  sys_eventfd :: "'k \<Rightarrow> fd sysres \<times> 'k"
  sys_epoll_create1 :: "'k \<Rightarrow> fd \<times> 'k"
  sys_epoll_ctl :: "fd \<Rightarrow> epoll_op \<Rightarrow> fd \<Rightarrow> epoll_event \<Rightarrow> 'k \<Rightarrow> unit sysres \<times> 'k"
  sys_epoll_wait :: "fd \<Rightarrow> nat \<Rightarrow> int \<Rightarrow> 'k \<Rightarrow> epoll_event list sysres \<times> 'k"
  sys_socket :: "'k \<Rightarrow> fd sysres \<times> 'k"
  sys_bind :: "fd \<Rightarrow> sockaddr_in \<Rightarrow> 'k \<Rightarrow> unit sysres \<times> 'k"
  sys_listen :: "fd \<Rightarrow> int \<Rightarrow> 'k \<Rightarrow> unit sysres \<times> 'k"
  sys_accept4 :: "fd \<Rightarrow> 'k \<Rightarrow> (fd \<times> sockaddr_in) sysres \<times> 'k"
  sys_shutdown :: "fd \<Rightarrow> 'k \<Rightarrow> unit sysres \<times> 'k"
  sys_setsockopt :: "fd \<Rightarrow> sockopt \<Rightarrow> int \<Rightarrow> 'k \<Rightarrow> 'k"
  sys_getsockopt_error :: "fd \<Rightarrow> 'k \<Rightarrow> int sysres \<times> 'k"
  sys_getsockname :: "fd \<Rightarrow> 'k \<Rightarrow> sockaddr_in sysres \<times> 'k"
  sys_time :: "'k \<Rightarrow> int \<times> 'k"
  on_connection :: "ptr \<Rightarrow> bool \<Rightarrow> 'k \<Rightarrow> action list \<times> 'k"
  on_message :: "ptr \<Rightarrow> byte list \<Rightarrow> int \<Rightarrow> 'k \<Rightarrow> action list \<times> 'k"
  on_write_complete :: "ptr \<Rightarrow> 'k \<Rightarrow> action list \<times> 'k"
  on_high_water_mark :: "ptr \<Rightarrow> size_t \<Rightarrow> 'k \<Rightarrow> action list \<times> 'k"
  on_thread_init :: "ptr \<Rightarrow> 'k \<Rightarrow> action list \<times> 'k"
  on_functor :: "nat \<Rightarrow> 'k \<Rightarrow> action list \<times> 'k"

text \<open>
  What the outside sees, kept as a history in the state: bytes the kernel accepted for a
  descriptor, half-closes, closed descriptors, application callbacks and the lines the logger
  printed at the level \<open>ERROR\<close>, each identified by the constant part of its format. Printing a line
  leaves \<open>errno\<close> alone.
\<close>

datatype obs =
    Wrote fd "byte list"
  | ShutdownWr fd
  | Closed fd
  | ConnectionCb ptr bool
  | MessageCb ptr "byte list"
  | WriteCompleteCb ptr
  | HighWaterMarkCb ptr size_t
  | ThreadInitCb ptr
  | FunctorCb nat
  | LogError string

section \<open>What the manual pages promise\<close>

text \<open>\<open>write(2)\<close>: the number of bytes written never exceeds the number requested.\<close>

definition write_ok :: "'k env \<Rightarrow> bool" where
  "write_ok e \<longleftrightarrow> (\<forall>f bs k n k'. sys_write e f bs k = (SysOk n, k') \<longrightarrow> n \<le> length bs)"

text \<open>\<open>readv(2)\<close>: no more bytes arrive than the buffers of the vector hold.\<close>

definition readv_ok :: "'k env \<Rightarrow> bool" where
  "readv_ok e \<longleftrightarrow>
     (\<forall>f ls k bs k'. sys_readv e f ls k = (SysOk bs, k') \<longrightarrow> length bs \<le> sum_list ls)"

text \<open>
  \<open>epoll_ctl(2)\<close>: \<open>ints k ep\<close> is the interest list of the epoll instance \<open>ep\<close> in the kernel
  state \<open>k\<close>. A failing call leaves it alone, a successful one registers the event
  (\<open>ADD\<close>, \<open>MOD\<close>) or deregisters the descriptor (\<open>DEL\<close>).
\<close>

type_synonym 'k interest = "'k \<Rightarrow> fd \<Rightarrow> fd \<Rightarrow> epoll_event option"

definition epoll_ctl_ok :: "'k env \<Rightarrow> 'k interest \<Rightarrow> bool" where
  "epoll_ctl_ok e ints \<longleftrightarrow>
     (\<forall>ep op f ev k r k'. sys_epoll_ctl e ep op f ev k = (r, k') \<longrightarrow>
        ints k' = (case r of SysErr _ \<Rightarrow> ints k
                   | SysOk _ \<Rightarrow> (ints k)(ep := (ints k ep)(f := (if op = EPOLL_CTL_DEL then None else Some ev)))))"

text \<open>
  The errors of \<open>epoll_ctl(2)\<close> that depend on the interest list are \<open>EEXIST\<close> for an \<open>ADD\<close> of a
  registered descriptor and \<open>ENOENT\<close> for a \<open>MOD\<close> or \<open>DEL\<close> of an unregistered one. A kernel
  with no other reason to fail (no exhausted memory or watch limit) accepts the rest.
\<close>

definition epoll_ctl_accepts :: "'k env \<Rightarrow> 'k interest \<Rightarrow> bool" where
  "epoll_ctl_accepts e ints \<longleftrightarrow>
     (\<forall>ep op f ev k. (ints k ep f = None \<longleftrightarrow> op = EPOLL_CTL_ADD) \<longrightarrow>
        fst (sys_epoll_ctl e ep op f ev k) = SysOk ())"

text \<open>
  \<open>epoll_wait(2)\<close>: at most \<open>maxevents\<close> events, for distinct registrations of the instance, each
  with the data of its registration; waiting does not change the interest lists.
\<close>

definition epoll_wait_ok :: "'k env \<Rightarrow> 'k interest \<Rightarrow> bool" where
  "epoll_wait_ok e ints \<longleftrightarrow>
     (\<forall>ep n t k r k'. sys_epoll_wait e ep n t k = (r, k') \<longrightarrow> ints k' = ints k \<and>
        (\<forall>evs. r = SysOk evs \<longrightarrow> length evs \<le> n \<and> distinct (map ev_data evs) \<and>
           (\<forall>ev \<in> set evs. \<exists>f reg. ints k ep f = Some reg \<and> ev_data reg = ev_data ev)))"

definition time_ok :: "'k env \<Rightarrow> 'k interest \<Rightarrow> bool" where
  "time_ok e ints \<longleftrightarrow> (\<forall>k. ints (snd (sys_time e k)) = ints k)"

text \<open>
  \<open>epoll_create1(2)\<close> returns an instance with an empty interest list; \<open>eventfd(2)\<close> and
  \<open>close(2)\<close> of a descriptor that is in no interest list leave the interest lists alone.
\<close>

definition epoll_create_ok :: "'k env \<Rightarrow> 'k interest \<Rightarrow> bool" where
  "epoll_create_ok e ints \<longleftrightarrow>
     (\<forall>k ep k'. sys_epoll_create1 e k = (ep, k') \<longrightarrow> ints k' ep = (\<lambda>_. None))"

definition eventfd_keeps :: "'k env \<Rightarrow> 'k interest \<Rightarrow> bool" where
  "eventfd_keeps e ints \<longleftrightarrow> (\<forall>k. ints (snd (sys_eventfd e k)) = ints k)"

text \<open>
  \<open>eventfd(2)\<close>: \<open>cnt k f\<close> is the counter of the eventfd \<open>f\<close> in the kernel state \<open>k\<close>. Writing the
  value 1 adds it to the counter, or fails with \<open>EAGAIN\<close> because the counter is at its maximum;
  either way the counter is positive afterwards, so the descriptor is readable.
\<close>

definition eventfd_write_ok :: "'k env \<Rightarrow> ('k \<Rightarrow> fd \<Rightarrow> nat) \<Rightarrow> bool" where
  "eventfd_write_ok e cnt \<longleftrightarrow>
     (\<forall>f k r k'. sys_write e f [1, 0, 0, 0, 0, 0, 0, 0] k = (r, k') \<longrightarrow>
        (case r of SysOk n \<Rightarrow> n = 8 \<and> cnt k' f = cnt k f + 1 \<and> cnt k' f \<le> 2 ^ 64 - 2
                 | SysErr errno \<Rightarrow> errno = EWOULDBLOCK \<and> cnt k' f = 2 ^ 64 - 2 \<and> cnt k f = 2 ^ 64 - 2))"

text \<open>
  Reading, writing, half-closing, querying a descriptor and reading the clock do not change any
  interest list, and the application's callbacks leave the epoll instances of the library alone.
\<close>

definition io_keeps :: "'k env \<Rightarrow> 'k interest \<Rightarrow> bool" where
  "io_keeps e ints \<longleftrightarrow>
     (\<forall>f bs k. ints (snd (sys_write e f bs k)) = ints k) \<and>
     (\<forall>f ls k. ints (snd (sys_readv e f ls k)) = ints k) \<and>
     (\<forall>f n k. ints (snd (sys_read e f n k)) = ints k) \<and>
     (\<forall>f k. ints (snd (sys_shutdown e f k)) = ints k) \<and>
     (\<forall>f k. ints (snd (sys_getsockopt_error e f k)) = ints k) \<and>
     (\<forall>c up k. ints (snd (on_connection e c up k)) = ints k) \<and>
     (\<forall>c bs t k. ints (snd (on_message e c bs t k)) = ints k) \<and>
     (\<forall>c k. ints (snd (on_write_complete e c k)) = ints k) \<and>
     (\<forall>c n k. ints (snd (on_high_water_mark e c n k)) = ints k) \<and>
     (\<forall>n k. ints (snd (on_functor e n k)) = ints k)"

lemma io_keepsD:
  assumes "io_keeps e ints"
  shows "sys_write e f bs k = (r1, k') \<Longrightarrow> ints k' = ints k"
    and "sys_readv e f ls k = (r2, k') \<Longrightarrow> ints k' = ints k"
    and "sys_shutdown e f k = (r3, k') \<Longrightarrow> ints k' = ints k"
    and "sys_getsockopt_error e f k = (r4, k') \<Longrightarrow> ints k' = ints k"
    and "on_connection e c up k = (acts, k') \<Longrightarrow> ints k' = ints k"
    and "on_message e c bs t k = (acts, k') \<Longrightarrow> ints k' = ints k"
  using assms unfolding io_keeps_def by (metis snd_conv)+

lemma eventfd_write_okD:
  assumes "eventfd_write_ok e cnt" and "sys_write e f [1, 0, 0, 0, 0, 0, 0, 0] k = (r, k')"
  shows "0 < cnt k' f"
  using assms unfolding eventfd_write_ok_def by (fastforce split: sysres.splits)

lemma epoll_ctl_okD:
  assumes "epoll_ctl_ok e ints" and "sys_epoll_ctl e ep op f ev k = (SysOk u, k')"
  shows "ints k' = (ints k)(ep := (ints k ep)(f := (if op = EPOLL_CTL_DEL then None else Some ev)))"
  using assms unfolding epoll_ctl_ok_def by fastforce

lemma epoll_ctl_ok_errD:
  assumes "epoll_ctl_ok e ints" and "sys_epoll_ctl e ep op f ev k = (SysErr n, k')"
  shows "ints k' = ints k"
  using assms unfolding epoll_ctl_ok_def by fastforce

lemma epoll_ctl_acceptsD:
  assumes "epoll_ctl_accepts e ints" and "ints k ep f = None \<longleftrightarrow> op = EPOLL_CTL_ADD"
  obtains k' where "sys_epoll_ctl e ep op f ev k = (SysOk (), k')"
  using assms unfolding epoll_ctl_accepts_def by (metis prod.collapse)

section \<open>A concrete environment\<close>

text \<open>
  An environment for concrete runs: the kernel delivers the bytes of \<open>tk_stream\<close>, accepts at
  most \<open>tk_accept\<close> bytes per write, keeps the interest lists of its epoll instances and
  reports the events of \<open>tk_ready\<close>; the application's callbacks do nothing.
\<close>

record test_kernel =
  tk_stream :: "byte list"
  tk_accept :: nat
  tk_ints :: "fd \<Rightarrow> fd \<Rightarrow> epoll_event option"
  tk_ready :: "epoll_event list"

definition test_env :: "test_kernel env" where
  "test_env =
    \<lparr>sys_readv = (\<lambda>f ls k. let n = sum_list ls in
        (SysOk (take n (tk_stream k)), k\<lparr>tk_stream := drop n (tk_stream k)\<rparr>)),
     sys_read = (\<lambda>f n k. (SysOk (replicate n 0), k)),
     sys_write = (\<lambda>f bs k. (SysOk (min (tk_accept k) (length bs)), k)),
     sys_close = (\<lambda>f k. k),
     sys_eventfd = (\<lambda>k. (SysOk 5, k)),
     sys_epoll_create1 = (\<lambda>k. (4, k)),
     sys_epoll_ctl = (\<lambda>ep op f ev k.
        if (tk_ints k ep f = None) = (op = EPOLL_CTL_ADD)
        then (SysOk (), k\<lparr>tk_ints := (tk_ints k)(ep := (tk_ints k ep)
               (f := (if op = EPOLL_CTL_DEL then None else Some ev)))\<rparr>)
        else (SysErr (if op = EPOLL_CTL_ADD then 17 else 2), k)),
     sys_epoll_wait = (\<lambda>ep n t k. (SysOk (take n (tk_ready k)), k\<lparr>tk_ready := drop n (tk_ready k)\<rparr>)),
     sys_socket = (\<lambda>k. (SysOk 3, k)),
     sys_bind = (\<lambda>f a k. (SysOk (), k)),
     sys_listen = (\<lambda>f n k. (SysOk (), k)),
     sys_accept4 = (\<lambda>f k. (SysOk (7, \<lparr>sin_family = 2, sin_port = 80, sin_addr = 16777343\<rparr>), k)),
     sys_shutdown = (\<lambda>f k. (SysOk (), k)),
     sys_setsockopt = (\<lambda>f opt v k. k),
     sys_getsockopt_error = (\<lambda>f k. (SysOk 0, k)),
     sys_getsockname = (\<lambda>f k. (SysOk \<lparr>sin_family = 2, sin_port = 80, sin_addr = 16777343\<rparr>, k)),
     sys_time = (\<lambda>k. (0, k)),
     on_connection = (\<lambda>c up k. ([], k)),
     on_message = (\<lambda>c bs t k. ([], k)),
     on_write_complete = (\<lambda>c k. ([], k)),
     on_high_water_mark = (\<lambda>c n k. ([], k)),
     on_thread_init = (\<lambda>l k. ([], k)),
     on_functor = (\<lambda>n k. ([], k))\<rparr>"

lemma test_env_ok: "write_ok test_env" "readv_ok test_env" "epoll_ctl_ok test_env tk_ints"
  "epoll_ctl_accepts test_env tk_ints"
  by (auto simp: test_env_def write_ok_def readv_ok_def epoll_ctl_ok_def epoll_ctl_accepts_def
      Let_def split: if_splits)

lemma test_env_io_keeps: "io_keeps test_env tk_ints"
  by (simp add: io_keeps_def test_env_def Let_def)

definition test_kernel0 :: test_kernel where
  "test_kernel0 = \<lparr>tk_stream = [1, 2, 3, 4, 5, 6], tk_accept = 2, tk_ints = (\<lambda>_ _. None), tk_ready = []\<rparr>"

end
