(* ===== verification/Channel.thy ===== *)
theory Channel
  imports Environment
begin

text \<open>
  The class \<open>Channel\<close> (include/cutemuduo/channel.hpp, src/channel.cpp): a descriptor, the events
  it is interested in, the events that occurred and the four callbacks. Callbacks are closures;
  \<open>'cb\<close> is the type of their descriptions and an operation that calls one takes the function
  \<open>run\<close> that says what a closure does. \<open>Channel\<close> objects live in a store from pointers to
  objects; the record \<open>chan_world\<close> with that store is the part of the program state this theory
  uses, and later theories extend it.
\<close>

section \<open>State\<close>

definition EPOLLIN :: bits32 where "EPOLLIN = 1"
definition EPOLLPRI :: bits32 where "EPOLLPRI = 2"
definition EPOLLOUT :: bits32 where "EPOLLOUT = 4"
definition EPOLLERR :: bits32 where "EPOLLERR = 8"
definition EPOLLHUP :: bits32 where "EPOLLHUP = 16"

definition kNoneEvent :: bits32 where "kNoneEvent = 0"
definition kReadEvent :: bits32 where "kReadEvent = EPOLLIN OR EPOLLPRI"
definition kWriteEvent :: bits32 where "kWriteEvent = EPOLLOUT"

lemmas epoll_bits = EPOLLIN_def EPOLLPRI_def EPOLLOUT_def EPOLLERR_def EPOLLHUP_def
lemmas event_consts = kNoneEvent_def kReadEvent_def kWriteEvent_def epoll_bits

record 'cb channel =
  ch_loop :: ptr
  ch_fd :: fd
  ch_events :: bits32
  ch_revents :: bits32
  ch_index :: int
  ch_read_callback :: "'cb option"
  ch_write_callback :: "'cb option"
  ch_close_callback :: "'cb option"
  ch_error_callback :: "'cb option"
  ch_tie :: "ptr option"
  ch_tied :: bool

record ('k, 'cb) chan_world =
  kern :: 'k
  trace :: "obs list"
  chans :: "ptr \<Rightarrow> 'cb channel"

definition new_Channel :: "ptr \<Rightarrow> fd \<Rightarrow> 'cb channel" where
  "new_Channel loop f =
     \<lparr>ch_loop = loop, ch_fd = f, ch_events = 0, ch_revents = 0, ch_index = -1,
      ch_read_callback = None, ch_write_callback = None, ch_close_callback = None,
      ch_error_callback = None, ch_tie = None, ch_tied = False\<rparr>"

definition on_chan ::
  "('cb channel \<Rightarrow> 'cb channel) \<Rightarrow> ptr \<Rightarrow> ('k, 'cb, 'm) chan_world_scheme \<Rightarrow> ('k, 'cb, 'm) chan_world_scheme" where
  "on_chan f c w = w\<lparr>chans := (chans w)(c := f (chans w c))\<rparr>"

section \<open>Operations\<close>

definition SetReadCallback :: "'cb \<Rightarrow> 'cb channel \<Rightarrow> 'cb channel" where
  "SetReadCallback cb ch = ch\<lparr>ch_read_callback := Some cb\<rparr>"

definition SetWriteCallback :: "'cb \<Rightarrow> 'cb channel \<Rightarrow> 'cb channel" where
  "SetWriteCallback cb ch = ch\<lparr>ch_write_callback := Some cb\<rparr>"

definition SetCloseCallback :: "'cb \<Rightarrow> 'cb channel \<Rightarrow> 'cb channel" where
  "SetCloseCallback cb ch = ch\<lparr>ch_close_callback := Some cb\<rparr>"

definition SetErrorCallback :: "'cb \<Rightarrow> 'cb channel \<Rightarrow> 'cb channel" where
  "SetErrorCallback cb ch = ch\<lparr>ch_error_callback := Some cb\<rparr>"

definition SetRevents :: "bits32 \<Rightarrow> 'cb channel \<Rightarrow> 'cb channel" where
  "SetRevents revents ch = ch\<lparr>ch_revents := revents\<rparr>"

definition SetIndex :: "int \<Rightarrow> 'cb channel \<Rightarrow> 'cb channel" where
  "SetIndex index ch = ch\<lparr>ch_index := index\<rparr>"

definition Tie :: "ptr \<Rightarrow> 'cb channel \<Rightarrow> 'cb channel" where
  "Tie obj ch = ch\<lparr>ch_tie := Some obj, ch_tied := True\<rparr>"

definition Channel_fd :: "'cb channel \<Rightarrow> fd" where
  "Channel_fd ch = ch_fd ch"

definition Channel_events :: "'cb channel \<Rightarrow> bits32" where
  "Channel_events ch = ch_events ch"

definition Channel_index :: "'cb channel \<Rightarrow> int" where
  "Channel_index ch = ch_index ch"

definition IsNoneEvent :: "'cb channel \<Rightarrow> bool" where
  "IsNoneEvent ch \<longleftrightarrow> ch_events ch = kNoneEvent"

definition IsWriting :: "'cb channel \<Rightarrow> bool" where
  "IsWriting ch \<longleftrightarrow> ch_events ch AND kWriteEvent \<noteq> 0"

definition IsReading :: "'cb channel \<Rightarrow> bool" where
  "IsReading ch \<longleftrightarrow> ch_events ch AND kReadEvent \<noteq> 0"

definition SetEvents :: "bits32 \<Rightarrow> 'cb channel \<Rightarrow> 'cb channel" where
  "SetEvents ev ch = ch\<lparr>ch_events := ev\<rparr>"

text \<open>
  The operations that change the interest end in \<open>Update()\<close>, which forwards to the owning
  loop's \<open>UpdateChannel\<close>; that call is the argument \<open>update\<close>.
\<close>

type_synonym ('k, 'cb, 'm) chan_op =
  "ptr \<Rightarrow> ('k, 'cb, 'm) chan_world_scheme \<Rightarrow> ('k, 'cb, 'm) chan_world_scheme result"

definition EnableReading :: "('k, 'cb, 'm) chan_op \<Rightarrow> ('k, 'cb, 'm) chan_op" where
  "EnableReading update c w =
     update c (on_chan (\<lambda>ch. SetEvents (ch_events ch OR kReadEvent) ch) c w)"

definition DisableReading :: "('k, 'cb, 'm) chan_op \<Rightarrow> ('k, 'cb, 'm) chan_op" where
  "DisableReading update c w =
     update c (on_chan (\<lambda>ch. SetEvents (ch_events ch AND NOT kReadEvent) ch) c w)"

definition EnableWriting :: "('k, 'cb, 'm) chan_op \<Rightarrow> ('k, 'cb, 'm) chan_op" where
  "EnableWriting update c w =
     update c (on_chan (\<lambda>ch. SetEvents (ch_events ch OR kWriteEvent) ch) c w)"

definition DisableWriting :: "('k, 'cb, 'm) chan_op \<Rightarrow> ('k, 'cb, 'm) chan_op" where
  "DisableWriting update c w =
     update c (on_chan (\<lambda>ch. SetEvents (ch_events ch AND NOT kWriteEvent) ch) c w)"

definition DisableAll :: "('k, 'cb, 'm) chan_op \<Rightarrow> ('k, 'cb, 'm) chan_op" where
  "DisableAll update c w = update c (on_chan (SetEvents kNoneEvent) c w)"

text \<open>
  \<open>HandleEventWithGuard\<close> reads \<open>revents_\<close> and the callback slot anew before each of its four
  tests, since the callback before may have changed them.
\<close>

definition fire ::
  "('cb \<Rightarrow> int \<Rightarrow> ('k, 'cb, 'm) chan_world_scheme \<Rightarrow> ('k, 'cb, 'm) chan_world_scheme result) \<Rightarrow> int \<Rightarrow>
   (bits32 \<Rightarrow> bool) \<Rightarrow> ('cb channel \<Rightarrow> 'cb option) \<Rightarrow> ('k, 'cb, 'm) chan_op" where
  "fire run t test slot c w =
     (if test (ch_revents (chans w c)) then
        case slot (chans w c) of None \<Rightarrow> Inr w | Some cb \<Rightarrow> run cb t w
      else Inr w)"

definition HandleEventWithGuard ::
  "('cb \<Rightarrow> int \<Rightarrow> ('k, 'cb, 'm) chan_world_scheme \<Rightarrow> ('k, 'cb, 'm) chan_world_scheme result) \<Rightarrow> int \<Rightarrow>
   ('k, 'cb, 'm) chan_op" where
  "HandleEventWithGuard run t c w =
     andThen (fire run t (\<lambda>r. r AND EPOLLHUP \<noteq> 0 \<and> r AND EPOLLIN = 0) ch_close_callback c w) (\<lambda>w.
     andThen (fire run t (\<lambda>r. r AND EPOLLERR \<noteq> 0) ch_error_callback c w) (\<lambda>w.
     andThen (fire run t (\<lambda>r. r AND (EPOLLIN OR EPOLLPRI) \<noteq> 0) ch_read_callback c w) (\<lambda>w.
       fire run t (\<lambda>r. r AND EPOLLOUT \<noteq> 0) ch_write_callback c w)))"

text \<open>\<open>lock obj w\<close> tells whether \<open>tie_.lock()\<close> still finds the object \<open>obj\<close> alive.\<close>

definition HandleEvent ::
  "('cb \<Rightarrow> int \<Rightarrow> ('k, 'cb, 'm) chan_world_scheme \<Rightarrow> ('k, 'cb, 'm) chan_world_scheme result) \<Rightarrow>
   (ptr \<Rightarrow> ('k, 'cb, 'm) chan_world_scheme \<Rightarrow> bool) \<Rightarrow> int \<Rightarrow> ('k, 'cb, 'm) chan_op" where
  "HandleEvent run lock t c w =
     (if ch_tied (chans w c) \<and> \<not> (case ch_tie (chans w c) of None \<Rightarrow> False | Some obj \<Rightarrow> lock obj w)
      then Inr w
      else HandleEventWithGuard run t c w)"

section \<open>Facts about the store\<close>

lemma chans_on_chan [simp]: "chans (on_chan f c w) = (chans w)(c := f (chans w c))"
  by (simp add: on_chan_def)

lemma kern_on_chan [simp, frame_simps]: "kern (on_chan f c w) = kern w"
  by (simp add: on_chan_def)

lemma trace_on_chan [simp, frame_simps]: "trace (on_chan f c w) = trace w"
  by (simp add: on_chan_def)

lemma more_on_chan [simp, frame_simps]: "chan_world.more (on_chan f c w) = chan_world.more w"
  by (simp add: on_chan_def)

lemma on_chan_twice: "on_chan f c (on_chan g c w) = on_chan (f \<circ> g) c w"
  by (simp add: on_chan_def)

lemma channel_setters [simp]:
  "ch_events (SetRevents r ch) = ch_events ch" "ch_index (SetRevents r ch) = ch_index ch"
  "ch_fd (SetRevents r ch) = ch_fd ch" "ch_revents (SetRevents r ch) = r"
  "ch_events (SetIndex i ch) = ch_events ch" "ch_index (SetIndex i ch) = i"
  "ch_fd (SetIndex i ch) = ch_fd ch" "ch_revents (SetIndex i ch) = ch_revents ch"
  "ch_events (SetEvents ev ch) = ev" "ch_index (SetEvents ev ch) = ch_index ch"
  "ch_fd (SetEvents ev ch) = ch_fd ch" "ch_revents (SetEvents ev ch) = ch_revents ch"
  "ch_events (Tie x ch) = ch_events ch" "ch_index (Tie x ch) = ch_index ch"
  "ch_fd (Tie x ch) = ch_fd ch" "ch_revents (Tie x ch) = ch_revents ch"
  "ch_loop (SetIndex i ch) = ch_loop ch" "ch_loop (SetEvents ev ch) = ch_loop ch"
  "ch_loop (SetRevents r ch) = ch_loop ch" "ch_loop (Tie x ch) = ch_loop ch"
  by (simp_all add: SetRevents_def SetIndex_def SetEvents_def Tie_def)

text \<open>The part of a channel that identifies it and says what to call: everything but its index
  and its two event masks.\<close>

definition wiring :: "'cb channel \<Rightarrow>
    ptr \<times> fd \<times> 'cb option \<times> 'cb option \<times> 'cb option \<times> 'cb option \<times> ptr option \<times> bool" where
  "wiring ch = (ch_loop ch, ch_fd ch, ch_read_callback ch, ch_write_callback ch,
      ch_close_callback ch, ch_error_callback ch, ch_tie ch, ch_tied ch)"

lemma wiring_setters [simp]:
  "wiring (SetRevents r ch) = wiring ch" "wiring (SetIndex i ch) = wiring ch"
  "wiring (SetEvents ev ch) = wiring ch"
  by (simp_all add: wiring_def SetRevents_def SetIndex_def SetEvents_def)

section \<open>The interest of a channel\<close>

lemma event_masks_nonzero [simp]: "kReadEvent \<noteq> 0" "kWriteEvent \<noteq> 0"
  by (simp_all add: event_consts)

text \<open>
  \<open>kReadEvent\<close> has two bits that are only ever set and cleared together, so a channel's interest
  is one of four masks, and \<open>IsReading\<close>, \<open>IsWriting\<close> and \<open>IsNoneEvent\<close> read it off.
\<close>

definition valid_events :: "bits32 \<Rightarrow> bool" where
  "valid_events ev \<longleftrightarrow> ev \<in> {0, kReadEvent, kWriteEvent, kReadEvent OR kWriteEvent}"

lemma valid_events_cases:
  assumes "valid_events ev"
  obtains "ev = 0" | "ev = 3" | "ev = 4" | "ev = 7"
  using assms by (auto simp: valid_events_def event_consts)

lemma valid_events_0 [simp]: "valid_events 0"
  by (simp add: valid_events_def)

lemma valid_events_masks:
  assumes "valid_events ev"
  shows "valid_events (ev OR kReadEvent)" "valid_events (ev AND NOT kReadEvent)"
    "valid_events (ev OR kWriteEvent)" "valid_events (ev AND NOT kWriteEvent)"
  using assms by (elim valid_events_cases; simp add: valid_events_def event_consts)+

lemma read_bits:
  assumes "valid_events ev"
  shows "(ev OR kReadEvent) AND kReadEvent \<noteq> 0" "(ev AND NOT kReadEvent) AND kReadEvent = 0"
    "(ev OR kWriteEvent) AND kReadEvent \<noteq> 0 \<longleftrightarrow> ev AND kReadEvent \<noteq> 0"
    "(ev AND NOT kWriteEvent) AND kReadEvent \<noteq> 0 \<longleftrightarrow> ev AND kReadEvent \<noteq> 0"
  using assms by (elim valid_events_cases; simp add: event_consts)+

lemma write_bits:
  assumes "valid_events ev"
  shows "(ev OR kWriteEvent) AND kWriteEvent \<noteq> 0" "(ev AND NOT kWriteEvent) AND kWriteEvent = 0"
    "(ev OR kReadEvent) AND kWriteEvent \<noteq> 0 \<longleftrightarrow> ev AND kWriteEvent \<noteq> 0"
    "(ev AND NOT kReadEvent) AND kWriteEvent \<noteq> 0 \<longleftrightarrow> ev AND kWriteEvent \<noteq> 0"
  using assms by (elim valid_events_cases; simp add: event_consts)+

lemma IsNoneEvent_iff:
  assumes "valid_events (ch_events ch)"
  shows "IsNoneEvent ch \<longleftrightarrow> \<not> IsReading ch \<and> \<not> IsWriting ch"
  using assms
  by (elim valid_events_cases; simp add: IsNoneEvent_def IsReading_def IsWriting_def event_consts)

lemmas interest_simps = IsReading_def IsWriting_def valid_events_masks read_bits write_bits

text \<open>
  What a channel needs of the loop behind \<open>Update()\<close>: it may renumber the channel's index and
  talk to the kernel, and leaves every event mask and callback slot alone.
\<close>

locale channel_host =
  fixes update :: "('k, 'cb, 'm) chan_op"
  assumes update_events: "update c w = Inr w' \<Longrightarrow> ch_events (chans w' d) = ch_events (chans w d)"
    and update_revents: "update c w = Inr w' \<Longrightarrow> ch_revents (chans w' d) = ch_revents (chans w d)"
    and update_wiring: "update c w = Inr w' \<Longrightarrow> wiring (chans w' d) = wiring (chans w d)"
begin

lemma masked_update_events:
  assumes "update c (on_chan (\<lambda>ch. SetEvents (m (ch_events ch)) ch) c w) = Inr w'"
  shows "ch_events (chans w' d) = (if d = c then m (ch_events (chans w c)) else ch_events (chans w d))"
  using update_events [OF assms, of d] by simp

lemma host_EnableReading:
  assumes "EnableReading update c w = Inr w'" and "valid_events (ch_events (chans w c))"
  shows "valid_events (ch_events (chans w' c))" and "IsReading (chans w' c)"
    and "IsWriting (chans w' c) = IsWriting (chans w c)"
  using masked_update_events [OF assms(1) [unfolded EnableReading_def], of c] assms(2)
  by (simp_all add: interest_simps)

lemma host_DisableReading:
  assumes "DisableReading update c w = Inr w'" and "valid_events (ch_events (chans w c))"
  shows "valid_events (ch_events (chans w' c))" and "\<not> IsReading (chans w' c)"
    and "IsWriting (chans w' c) = IsWriting (chans w c)"
  using masked_update_events [OF assms(1) [unfolded DisableReading_def], of c] assms(2)
  by (simp_all add: interest_simps)

lemma host_EnableWriting:
  assumes "EnableWriting update c w = Inr w'" and "valid_events (ch_events (chans w c))"
  shows "valid_events (ch_events (chans w' c))" and "IsWriting (chans w' c)"
    and "IsReading (chans w' c) = IsReading (chans w c)"
  using masked_update_events [OF assms(1) [unfolded EnableWriting_def], of c] assms(2)
  by (simp_all add: interest_simps)

lemma host_DisableWriting:
  assumes "DisableWriting update c w = Inr w'" and "valid_events (ch_events (chans w c))"
  shows "valid_events (ch_events (chans w' c))" and "\<not> IsWriting (chans w' c)"
    and "IsReading (chans w' c) = IsReading (chans w c)"
  using masked_update_events [OF assms(1) [unfolded DisableWriting_def], of c] assms(2)
  by (simp_all add: interest_simps)

lemma host_DisableAll:
  assumes "DisableAll update c w = Inr w'"
  shows "ch_events (chans w' c) = 0" and "IsNoneEvent (chans w' c)"
  using update_events [OF assms [unfolded DisableAll_def], of c]
  by (simp_all add: IsNoneEvent_def kNoneEvent_def)

lemma host_wiring:
  assumes "update c (on_chan (\<lambda>ch. SetEvents (m ch) ch) c w) = Inr w'"
  shows "wiring (chans w' d) = wiring (chans w d)"
  using update_wiring [OF assms, of d] by simp

end

section \<open>Dispatch\<close>

text \<open>The callbacks that are due for the events that occurred, in the order of the code.\<close>

definition due :: "(bits32 \<Rightarrow> bool) \<Rightarrow> ('cb channel \<Rightarrow> 'cb option) \<Rightarrow> 'cb channel \<Rightarrow> 'cb list" where
  "due test slot ch =
     (if test (ch_revents ch) then (case slot ch of None \<Rightarrow> [] | Some cb \<Rightarrow> [cb]) else [])"

definition due_callbacks :: "'cb channel \<Rightarrow> 'cb list" where
  "due_callbacks ch =
     due (\<lambda>r. r AND EPOLLHUP \<noteq> 0 \<and> r AND EPOLLIN = 0) ch_close_callback ch
     @ due (\<lambda>r. r AND EPOLLERR \<noteq> 0) ch_error_callback ch
     @ due (\<lambda>r. r AND (EPOLLIN OR EPOLLPRI) \<noteq> 0) ch_read_callback ch
     @ due (\<lambda>r. r AND EPOLLOUT \<noteq> 0) ch_write_callback ch"

definition same_dispatch :: "'cb channel \<Rightarrow> 'cb channel \<Rightarrow> bool" where
  "same_dispatch a b \<longleftrightarrow> ch_revents a = ch_revents b \<and> wiring a = wiring b"

lemma fire_foldE: "fire run t test slot c w = foldE (\<lambda>cb. run cb t) (due test slot (chans w c)) w"
  by (simp add: fire_def due_def andThen_def split: option.split sum.split)

lemma foldE_fires:
  assumes keep: "\<And>cb w w'. run cb t w = Inr w' \<Longrightarrow> same_dispatch (chans w' c) (chans w c)"
    and slots: "\<And>test slot a b. (test, slot) \<in> set ps \<Longrightarrow> same_dispatch a b \<Longrightarrow> slot a = slot b"
  shows "foldE (\<lambda>(test, slot). fire run t test slot c) ps w =
     foldE (\<lambda>cb. run cb t) (concat (map (\<lambda>(test, slot). due test slot (chans w c)) ps)) w"
  using slots
proof (induction ps arbitrary: w)
  case (Cons p ps)
  obtain test slot where p: "p = (test, slot)" by fastforce
  let ?rest = "\<lambda>ch. concat (map (\<lambda>(test, slot). due test slot ch) ps)"
  have "foldE (\<lambda>(test, slot). fire run t test slot c) ps w1 = foldE (\<lambda>cb. run cb t) (?rest (chans w c)) w1"
    if "foldE (\<lambda>cb. run cb t) (due test slot (chans w c)) w = Inr w1" for w1
  proof -
    have same: "same_dispatch (chans w1 c) (chans w c)"
      using that keep by (auto simp: due_def same_dispatch_def split: if_splits option.splits)
    have "due tst slt (chans w1 c) = due tst slt (chans w c)" if "(tst, slt) \<in> set ps" for tst slt
      using Cons.prems [of tst slt, OF _ same] that same by (simp add: due_def same_dispatch_def)
    then have "?rest (chans w1 c) = ?rest (chans w c)"
      by (intro arg_cong [of _ _ concat] map_cong) auto
    moreover have "foldE (\<lambda>(test, slot). fire run t test slot c) ps w1 = foldE (\<lambda>cb. run cb t) (?rest (chans w1 c)) w1"
      using Cons.prems by (intro Cons.IH) auto
    ultimately show ?thesis by simp
  qed
  then show ?case
    by (auto simp: p fire_foldE [of run t test slot c w] foldE_append andThen_def split: sum.split)
qed simp


definition sample_channel :: "nat channel" where
  "sample_channel = (new_Channel 0 7)\<lparr>ch_revents := 28, ch_read_callback := Some 1,
     ch_write_callback := Some 2, ch_close_callback := Some 3, ch_error_callback := Some 4\<rparr>"

definition sample_chan_world :: "(test_kernel, nat) chan_world" where
  "sample_chan_world = \<lparr>kern = test_kernel0, trace = [], chans = (\<lambda>_. sample_channel)\<rparr>"

definition record_run :: "nat \<Rightarrow> int \<Rightarrow> (test_kernel, nat) chan_world \<Rightarrow> (test_kernel, nat) chan_world result" where
  "record_run cb t w = Inr (w\<lparr>trace := trace w @ [FunctorCb cb]\<rparr>)"


text \<open>
  The tie. Once a channel is tied to an object, its events are dispatched exactly as long as
  that object can still be locked; after the object is gone \<open>HandleEvent\<close> does nothing at all.
\<close>

theorem HandleEvent_guarded_by_tie:
  assumes "chans w c = Tie obj ch"
  shows "HandleEvent run lock t c w = (if lock obj w then HandleEventWithGuard run t c w else Inr w)"
  using assms by (simp add: HandleEvent_def Tie_def)

theorem HandleEvent_guarded_by_tie_witness:
  "HandleEvent record_run (\<lambda>obj w. obj \<noteq> 9) 0 0 (sample_chan_world\<lparr>chans := (\<lambda>_. Tie 9 sample_channel)\<rparr>)
     = Inr (sample_chan_world\<lparr>chans := (\<lambda>_. Tie 9 sample_channel)\<rparr>)"
  by (subst HandleEvent_guarded_by_tie [where obj = 9 and ch = sample_channel]) simp_all

end
