(* ===== verification/Epoll_Poller.thy ===== *)
theory Epoll_Poller
  imports Channel
begin

text \<open>
  The abstract class \<open>Poller\<close> (include/cutemuduo/poller.hpp), its only implementation
  \<open>EpollPoller\<close> (include/cutemuduo/epoll_poller.hpp, src/epoll_poller.cpp) and the factory
  \<open>NewDefaultPoller\<close> (src/default_poller.cpp). Every loop owns one poller, so the state
  \<open>poll_world\<close> keeps them by the loop's pointer. The invariant \<open>poller_inv\<close> ties three views of
  a registration together: the map \<open>channels_\<close>, the \<open>index_\<close> of the channels and the kernel's
  interest list. The locale \<open>poller_interface\<close> is the contract of the abstract class.
\<close>

section \<open>State and operations\<close>

definition kNew :: int where "kNew = -1"
definition kAdded :: int where "kAdded = 1"
definition kDeleted :: int where "kDeleted = 2"
definition kInitEventListSize :: nat where "kInitEventListSize = 16"

lemmas index_consts = kNew_def kAdded_def kDeleted_def

lemma index_distinct [simp]:
  "kNew \<noteq> kAdded" "kNew \<noteq> kDeleted" "kAdded \<noteq> kNew" "kAdded \<noteq> kDeleted" "kDeleted \<noteq> kNew" "kDeleted \<noteq> kAdded"
  by (simp_all add: index_consts)

record poller =
  po_channels :: "fd \<rightharpoonup> ptr"
  po_epoll_fd :: fd
  po_events_size :: nat

record ('k, 'cb) poll_world = "('k, 'cb) chan_world" +
  pollers :: "ptr \<Rightarrow> poller"

definition new_EpollPoller :: "'k env \<Rightarrow> 'k \<Rightarrow> poller \<times> 'k" where
  "new_EpollPoller e k =
     (case sys_epoll_create1 e k of (ep, k') \<Rightarrow>
        (\<lparr>po_channels = Map.empty, po_epoll_fd = ep, po_events_size = kInitEventListSize\<rparr>, k'))"

definition NewDefaultPoller :: "'k env \<Rightarrow> 'k \<Rightarrow> poller \<times> 'k" where
  "NewDefaultPoller e k = new_EpollPoller e k"

definition delete_EpollPoller ::
  "'k env \<Rightarrow> ptr \<Rightarrow> ('k, 'cb, 'm) poll_world_scheme \<Rightarrow> ('k, 'cb, 'm) poll_world_scheme" where
  "delete_EpollPoller e l w = w\<lparr>kern := sys_close e (po_epoll_fd (pollers w l)) (kern w)\<rparr>"

type_synonym ('k, 'cb, 'm) poll_op =
  "ptr \<Rightarrow> ('k, 'cb, 'm) poll_world_scheme \<Rightarrow> ('k, 'cb, 'm) poll_world_scheme result"

definition registration :: "'cb channel \<Rightarrow> ptr \<Rightarrow> epoll_event" where
  "registration ch c = \<lparr>ev_events = ch_events ch, ev_data = c\<rparr>"

definition Update :: "'k env \<Rightarrow> ptr \<Rightarrow> epoll_op \<Rightarrow> ('k, 'cb, 'm) poll_op" where
  "Update e l operation c w =
     (case sys_epoll_ctl e (po_epoll_fd (pollers w l)) operation (ch_fd (chans w c))
             (registration (chans w c) c) (kern w) of
        (SysErr errno, k) \<Rightarrow>
          if operation = EPOLL_CTL_DEL
          then Inr (w\<lparr>kern := k, trace := trace w @ [LogError ''epoll_ctl del error'']\<rparr>)
          else Inl LogFatal
      | (SysOk _, k) \<Rightarrow> Inr (w\<lparr>kern := k\<rparr>))"

definition UpdateChannel :: "'k env \<Rightarrow> ptr \<Rightarrow> ('k, 'cb, 'm) poll_op" where
  "UpdateChannel e l c w =
     (let index = ch_index (chans w c) in
      if index = kNew then
        Update e l EPOLL_CTL_ADD c
          (on_chan (SetIndex kAdded) c
            (w\<lparr>pollers := (pollers w)(l := (pollers w l)
                \<lparr>po_channels := (po_channels (pollers w l))(ch_fd (chans w c) \<mapsto> c)\<rparr>)\<rparr>))
      else if index = kDeleted then
        Update e l EPOLL_CTL_ADD c (on_chan (SetIndex kAdded) c w)
      else if IsNoneEvent (chans w c) then
        Update e l EPOLL_CTL_DEL c (on_chan (SetIndex kDeleted) c w)
      else Update e l EPOLL_CTL_MOD c w)"

definition RemoveChannel :: "'k env \<Rightarrow> ptr \<Rightarrow> ('k, 'cb, 'm) poll_op" where
  "RemoveChannel e l c w =
     (let w = w\<lparr>pollers := (pollers w)(l := (pollers w l)
                \<lparr>po_channels := (po_channels (pollers w l))(ch_fd (chans w c) := None)\<rparr>)\<rparr>
      in andThen (if ch_index (chans w c) = kAdded then Update e l EPOLL_CTL_DEL c w else Inr w)
           (\<lambda>w. Inr (on_chan (SetIndex (-1)) c w)))"

definition HasChannel :: "ptr \<Rightarrow> ptr \<Rightarrow> ('k, 'cb, 'm) poll_world_scheme \<Rightarrow> bool" where
  "HasChannel l c w \<longleftrightarrow> po_channels (pollers w l) (ch_fd (chans w c)) = Some c"

primrec FillActiveChannels ::
  "epoll_event list \<Rightarrow> ptr list \<Rightarrow> ('k, 'cb, 'm) chan_world_scheme \<Rightarrow> ptr list \<times> ('k, 'cb, 'm) chan_world_scheme" where
  "FillActiveChannels [] active w = (active, w)"
| "FillActiveChannels (ev # evs) active w =
     FillActiveChannels evs (active @ [ev_data ev]) (on_chan (SetRevents (ev_events ev)) (ev_data ev) w)"

definition Poll ::
  "'k env \<Rightarrow> ptr \<Rightarrow> int \<Rightarrow> ptr list \<Rightarrow> ('k, 'cb, 'm) poll_world_scheme \<Rightarrow>
   int \<times> ptr list \<times> ('k, 'cb, 'm) poll_world_scheme" where
  "Poll e l timeoutMs active w =
     (let (r, k1) = sys_epoll_wait e (po_epoll_fd (pollers w l)) (po_events_size (pollers w l)) timeoutMs (kern w);
          (now, k2) = sys_time e k1;
          w = w\<lparr>kern := k2\<rparr>
      in case r of
           SysErr errno \<Rightarrow>
             (now, active, if errno \<noteq> EINTR then w\<lparr>trace := trace w @ [LogError ''epoll_wait() error'']\<rparr> else w)
         | SysOk evs \<Rightarrow>
             if evs \<noteq> [] then
               (let (active, w) = FillActiveChannels evs active w
                in (now, active,
                    if length evs = po_events_size (pollers w l)
                    then w\<lparr>pollers := (pollers w)(l := (pollers w l)
                           \<lparr>po_events_size := po_events_size (pollers w l) * 2\<rparr>)\<rparr>
                    else w))
             else (now, active, w))"

section \<open>Frames\<close>

lemma pollers_on_chan [simp, frame_simps]: "pollers (on_chan f c w) = pollers w"
  by (simp add: on_chan_def)

lemma Update_frame:
  assumes "Update e l op c w = Inr w'"
  shows "chans w' = chans w \<and> pollers w' = pollers w \<and> poll_world.more w' = poll_world.more w"
  using assms by (auto simp: Update_def split: prod.splits sysres.splits if_splits)

lemma UpdateChannel_frame:
  assumes "UpdateChannel e l c w = Inr w'"
  shows "\<exists>i. chans w' = (chans w)(c := SetIndex i (chans w c))"
    and "m \<noteq> l \<Longrightarrow> pollers w' m = pollers w m"
    and "po_epoll_fd (pollers w' m) = po_epoll_fd (pollers w m)"
    and "poll_world.more w' = poll_world.more w"
proof -
  note simps = UpdateChannel_def Let_def SetIndex_def
  have "\<exists>i. chans w = (chans w)(c := SetIndex i (chans w c))"
    by (rule exI [of _ "ch_index (chans w c)"]) (simp add: SetIndex_def)
  then show "\<exists>i. chans w' = (chans w)(c := SetIndex i (chans w c))"
    using assms by (auto simp: UpdateChannel_def Let_def dest!: Update_frame split: if_splits)
  show "m \<noteq> l \<Longrightarrow> pollers w' m = pollers w m"
    using assms by (auto simp: simps dest!: Update_frame split: if_splits)
  show "po_epoll_fd (pollers w' m) = po_epoll_fd (pollers w m)"
    using assms by (auto simp: simps dest!: Update_frame split: if_splits)
  show "poll_world.more w' = poll_world.more w"
    using assms by (auto simp: simps on_chan_def dest!: Update_frame split: if_splits)
qed

lemma RemoveChannel_frame:
  assumes "RemoveChannel e l c w = Inr w'"
  shows "chans w' d = (if d = c then SetIndex (-1) (chans w c) else chans w d)"
    and "m \<noteq> l \<Longrightarrow> pollers w' m = pollers w m"
    and "po_epoll_fd (pollers w' m) = po_epoll_fd (pollers w m)"
    and "poll_world.more w' = poll_world.more w"
proof -
  note simps = RemoveChannel_def Let_def andThen_eq_Inr
  show "chans w' d = (if d = c then SetIndex (-1) (chans w c) else chans w d)"
    using assms by (auto simp: simps dest!: Update_frame split: if_splits)
  show "m \<noteq> l \<Longrightarrow> pollers w' m = pollers w m"
    using assms by (auto simp: simps dest!: Update_frame split: if_splits)
  show "po_epoll_fd (pollers w' m) = po_epoll_fd (pollers w m)"
    using assms by (auto simp: simps dest!: Update_frame split: if_splits)
  show "poll_world.more w' = poll_world.more w"
    using assms by (auto simp: simps on_chan_def dest!: Update_frame split: if_splits)
qed

section \<open>The registration invariant\<close>

definition kernel_view :: "'cb channel \<Rightarrow> ptr \<Rightarrow> epoll_event option" where
  "kernel_view ch c = (if ch_index ch = kAdded then Some (registration ch c) else None)"

definition poller_inv :: "'k interest \<Rightarrow> ptr \<Rightarrow> ('k, 'cb, 'm) poll_world_scheme \<Rightarrow> bool" where
  "poller_inv ints l w \<longleftrightarrow>
     (\<forall>f c. po_channels (pollers w l) f = Some c \<longrightarrow>
        ch_fd (chans w c) = f \<and> (ch_index (chans w c) = kAdded \<or> ch_index (chans w c) = kDeleted)) \<and>
     (\<forall>f. ints (kern w) (po_epoll_fd (pollers w l)) f =
        (case po_channels (pollers w l) f of None \<Rightarrow> None | Some c \<Rightarrow> kernel_view (chans w c) c))"

definition index_ok :: "ptr \<Rightarrow> ptr \<Rightarrow> ('k, 'cb, 'm) poll_world_scheme \<Rightarrow> bool" where
  "index_ok l c w \<longleftrightarrow>
     (if ch_index (chans w c) = kNew then po_channels (pollers w l) (ch_fd (chans w c)) = None
      else (ch_index (chans w c) = kAdded \<or> ch_index (chans w c) = kDeleted) \<and> HasChannel l c w)"

text \<open>Every operation that changes a channel's interest sets the mask and updates the poller.\<close>

definition set_interest :: "'k env \<Rightarrow> ptr \<Rightarrow> bits32 \<Rightarrow> ('k, 'cb, 'm) poll_op" where
  "set_interest e l ev c w = UpdateChannel e l c (on_chan (SetEvents ev) c w)"

definition kernel_interest :: "'k interest \<Rightarrow> ptr \<Rightarrow> ('k, 'cb, 'm) poll_world_scheme \<Rightarrow> fd \<Rightarrow> epoll_event option" where
  "kernel_interest ints l w = ints (kern w) (po_epoll_fd (pollers w l))"

lemma Update_accepted:
  assumes ok: "epoll_ctl_ok e ints" "epoll_ctl_accepts e ints"
    and pre: "kernel_interest ints l w (ch_fd (chans w c)) = None \<longleftrightarrow> op = EPOLL_CTL_ADD"
  obtains k where "Update e l op c w = Inr (w\<lparr>kern := k\<rparr>)"
    and "ints k = (ints (kern w))(po_epoll_fd (pollers w l) := (kernel_interest ints l w)
           (ch_fd (chans w c) := (if op = EPOLL_CTL_DEL then None else Some (registration (chans w c) c))))"
proof -
  obtain k where k: "sys_epoll_ctl e (po_epoll_fd (pollers w l)) op (ch_fd (chans w c))
      (registration (chans w c) c) (kern w) = (SysOk (), k)"
    using epoll_ctl_acceptsD [OF ok(2) pre [unfolded kernel_interest_def]] by blast
  from epoll_ctl_okD [OF ok(1) k] k show ?thesis
    by (intro that [of k]) (simp_all add: Update_def kernel_interest_def)
qed

lemma poller_inv_interest:
  assumes "poller_inv ints l w"
  shows "kernel_interest ints l w f =
    (case po_channels (pollers w l) f of None \<Rightarrow> None | Some c \<Rightarrow> kernel_view (chans w c) c)"
  using assms by (simp add: poller_inv_def kernel_interest_def)

lemma poller_inv_index:
  assumes "poller_inv ints l w" and "index_ok l c w"
  shows "kernel_interest ints l w (ch_fd (chans w c)) =
    (if ch_index (chans w c) = kAdded then Some (registration (chans w c) c) else None)"
  using assms by (auto simp: poller_inv_interest index_ok_def HasChannel_def kernel_view_def split: if_splits)

text \<open>
  One registration step: channel \<open>c\<close> gets a new record with the same descriptor, the map
  \<open>channels_\<close> and the kernel's list change at that descriptor only, and agree on it again.
\<close>

lemma poller_inv_step:
  assumes inv: "poller_inv ints l w" and fd: "ch_fd ch = ch_fd (chans w c)"
    and own: "\<And>f. po_channels (pollers w l) f = Some c \<Longrightarrow> f = ch_fd ch"
    and ints: "ints k = (ints (kern w))(ep := (kernel_interest ints l w)(ch_fd ch := kernel_view ch c))"
    and ep: "ep = po_epoll_fd (pollers w l)" "po_epoll_fd p = ep"
    and idx: "ch_index ch = kAdded \<or> ch_index ch = kDeleted"
    and map: "po_channels p = (po_channels (pollers w l))(ch_fd ch \<mapsto> c)"
    and w': "chans w' = (chans w)(c := ch)" "pollers w' l = p" "kern w' = k"
  shows "poller_inv ints l w'"
  using inv fd own ints ep idx map w'
  by (auto simp: poller_inv_def kernel_interest_def split: option.splits)

lemma own_descriptor:
  assumes "poller_inv ints l w" and "po_channels (pollers w l) f = Some c"
  shows "f = ch_fd (chans w c)"
  using assms by (simp add: poller_inv_def)

lemma Update_registers:
  assumes ok: "epoll_ctl_ok e ints" "epoll_ctl_accepts e ints" and inv: "poller_inv ints l w"
    and fd: "ch_fd ch = ch_fd (chans w c)"
    and idx: "ch_index ch = kAdded \<or> ch_index ch = kDeleted"
    and w2: "chans w2 = (chans w)(c := ch)" "kern w2 = kern w"
      "pollers w2 l = (pollers w l)\<lparr>po_channels := (po_channels (pollers w l))(ch_fd ch \<mapsto> c)\<rparr>"
    and pre: "kernel_interest ints l w (ch_fd ch) = None \<longleftrightarrow> op = EPOLL_CTL_ADD"
    and view: "kernel_view ch c = (if op = EPOLL_CTL_DEL then None else Some (registration ch c))"
  obtains w' where "Update e l op c w2 = Inr w'" and "poller_inv ints l w'" and "index_ok l c w'"
    and "chans w' = chans w2" and "trace w' = trace w2" and "HasChannel l c w'"
proof -
  have same: "kernel_interest ints l w2 = kernel_interest ints l w" "chans w2 c = ch"
    using w2 by (simp_all add: kernel_interest_def)
  have pre2: "kernel_interest ints l w2 (ch_fd (chans w2 c)) = None \<longleftrightarrow> op = EPOLL_CTL_ADD"
    using pre by (simp add: same)
  obtain k where k: "Update e l op c w2 = Inr (w2\<lparr>kern := k\<rparr>)"
    "ints k = (ints (kern w2))(po_epoll_fd (pollers w2 l) := (kernel_interest ints l w)
       (ch_fd ch := (if op = EPOLL_CTL_DEL then None else Some (registration ch c))))"
    by (rule Update_accepted [OF ok pre2]) (simp only: same)
  have "poller_inv ints l (w2\<lparr>kern := k\<rparr>)"
  proof (rule poller_inv_step [OF inv fd _ _ refl _ idx, where k = k and p = "pollers w2 l"])
    show "ints k = (ints (kern w))(po_epoll_fd (pollers w l) := (kernel_interest ints l w)(ch_fd ch := kernel_view ch c))"
      using k(2) w2 view by simp
    show "f = ch_fd ch" if "po_channels (pollers w l) f = Some c" for f
      using own_descriptor [OF inv that] fd by simp
  qed (simp_all add: w2)
  moreover have "HasChannel l c (w2\<lparr>kern := k\<rparr>)" "index_ok l c (w2\<lparr>kern := k\<rparr>)"
    using w2 idx by (auto simp: HasChannel_def index_ok_def)
  ultimately show ?thesis using k(1) by (intro that) simp_all
qed

lemma set_interest_registers:
  assumes ok: "epoll_ctl_ok e ints" "epoll_ctl_accepts e ints"
    and inv: "poller_inv ints l w" and idx: "index_ok l c w"
  obtains w' where "set_interest e l ev c w = Inr w'" and "poller_inv ints l w'" and "index_ok l c w'"
    and "ch_index (chans w' c) = (if ch_index (chans w c) = kAdded \<and> ev = 0 then kDeleted else kAdded)"
    and "trace w' = trace w" and "HasChannel l c w'"
proof -
  let ?ch = "chans w c" and ?w1 = "on_chan (SetEvents ev) c w"
  note ki = poller_inv_index [OF inv idx]
  note unfold = set_interest_def UpdateChannel_def Let_def IsNoneEvent_def kNoneEvent_def
  note reg = Update_registers [OF ok inv, where c = c]
  have same: "(pollers w l)\<lparr>po_channels := (po_channels (pollers w l))(ch_fd ?ch \<mapsto> c)\<rparr> = pollers w l"
    if "ch_index ?ch \<noteq> kNew"
    using idx that by (simp add: index_ok_def HasChannel_def fun_upd_idem)
  consider (new) "ch_index ?ch = kNew" | (deleted) "ch_index ?ch = kDeleted"
    | (none) "ch_index ?ch = kAdded" "ev = 0" | (modify) "ch_index ?ch = kAdded" "ev \<noteq> 0"
    using idx by (auto simp: index_ok_def split: if_splits)
  then show ?thesis
  proof cases
    case new
    let ?w2 = "on_chan (SetIndex kAdded) c (?w1\<lparr>pollers := (pollers w)(l := (pollers w l)
        \<lparr>po_channels := (po_channels (pollers w l))(ch_fd ?ch \<mapsto> c)\<rparr>)\<rparr>)"
    show ?thesis
      by (rule reg [of "SetIndex kAdded (SetEvents ev ?ch)" ?w2 EPOLL_CTL_ADD])
         (use new ki in \<open>auto simp: kernel_view_def unfold intro!: that\<close>)
  next
    case deleted
    show ?thesis
      by (rule reg [of "SetIndex kAdded (SetEvents ev ?ch)" "on_chan (SetIndex kAdded) c ?w1" EPOLL_CTL_ADD])
         (use deleted ki same in \<open>auto simp: kernel_view_def unfold intro!: that\<close>)
  next
    case none
    show ?thesis
      by (rule reg [of "SetIndex kDeleted (SetEvents ev ?ch)" "on_chan (SetIndex kDeleted) c ?w1" EPOLL_CTL_DEL])
         (use none ki same in \<open>auto simp: kernel_view_def unfold intro!: that\<close>)
  next
    case modify
    show ?thesis
      by (rule reg [of "SetEvents ev ?ch" ?w1 EPOLL_CTL_MOD])
         (use modify ki same in \<open>auto simp: kernel_view_def unfold intro!: that\<close>)
  qed
qed

lemma registration_withdrawn:
  assumes ok: "epoll_ctl_ok e ints" "epoll_ctl_accepts e ints"
    and inv: "poller_inv ints l w" and idx: "index_ok l c w"
    and w1: "w1 = w\<lparr>pollers := (pollers w)(l := (pollers w l)\<lparr>po_channels := m\<rparr>)\<rparr>"
  obtains w2 where "(if ch_index (chans w c) = kAdded then Update e l EPOLL_CTL_DEL c w1 else Inr w1) = Inr w2"
    and "chans w2 = chans w" and "pollers w2 = pollers w1" and "trace w2 = trace w"
    and "ints (kern w2) = (ints (kern w))(po_epoll_fd (pollers w l) := (kernel_interest ints l w)(ch_fd (chans w c) := None))"
proof -
  note ki = poller_inv_index [OF inv idx]
  have same: "kernel_interest ints l w1 = kernel_interest ints l w"
    by (simp add: kernel_interest_def w1)
  show ?thesis
  proof (cases "ch_index (chans w c) = kAdded")
    case True
    then have pre: "kernel_interest ints l w1 (ch_fd (chans w1 c)) = None \<longleftrightarrow> EPOLL_CTL_DEL = EPOLL_CTL_ADD"
      using ki unfolding same by (simp add: w1)
    obtain k where "Update e l EPOLL_CTL_DEL c w1 = Inr (w1\<lparr>kern := k\<rparr>)"
      "ints k = (ints (kern w1))(po_epoll_fd (pollers w1 l) := (kernel_interest ints l w1)(ch_fd (chans w1 c) := None))"
      by (rule Update_accepted [OF ok pre]) (simp only: simp_thms if_True)
    then show ?thesis
      using True same by (intro that [of "w1\<lparr>kern := k\<rparr>"]) (simp_all add: w1)
  next
    case False
    then have "kernel_interest ints l w (ch_fd (chans w c)) = None" using ki by simp
    then have "(kernel_interest ints l w)(ch_fd (chans w c) := None) = kernel_interest ints l w"
      by (rule fun_upd_idem)
    then show ?thesis using False by (intro that [of w1]) (simp_all add: kernel_interest_def w1)
  qed
qed

lemma RemoveChannel_unregisters:
  assumes ok: "epoll_ctl_ok e ints" "epoll_ctl_accepts e ints"
    and inv: "poller_inv ints l w" and idx: "index_ok l c w"
  obtains w' where "RemoveChannel e l c w = Inr w'" and "poller_inv ints l w'" and "index_ok l c w'"
    and "ch_index (chans w' c) = kNew" and "trace w' = trace w"
    and "kernel_interest ints l w' (ch_fd (chans w c)) = None"
proof -
  let ?ch = "chans w c"
  let ?w1 = "w\<lparr>pollers := (pollers w)(l := (pollers w l)
        \<lparr>po_channels := (po_channels (pollers w l))(ch_fd ?ch := None)\<rparr>)\<rparr>"
  have own: "f = ch_fd ?ch" if "po_channels (pollers w l) f = Some c" for f
    using own_descriptor [OF inv that] .
  obtain w2 where w2: "(if ch_index ?ch = kAdded then Update e l EPOLL_CTL_DEL c ?w1 else Inr ?w1) = Inr w2"
    and k: "chans w2 = chans w" "pollers w2 = pollers ?w1" "trace w2 = trace w"
      "ints (kern w2) = (ints (kern w))(po_epoll_fd (pollers w l) := (kernel_interest ints l w)(ch_fd ?ch := None))"
    by (rule registration_withdrawn [OF ok inv idx refl])
  let ?w' = "on_chan (SetIndex (-1)) c w2"
  show ?thesis
  proof (rule that)
    show "RemoveChannel e l c w = Inr ?w'"
      using w2 by (simp add: RemoveChannel_def)
    show "poller_inv ints l ?w'"
      using inv k own by (auto simp: poller_inv_def kernel_interest_def split: option.splits)
    show "index_ok l c ?w'" "ch_index (chans ?w' c) = kNew" "trace ?w' = trace w"
      "kernel_interest ints l ?w' (ch_fd ?ch) = None"
      using k by (simp_all add: index_ok_def kNew_def kernel_interest_def)
  qed
qed

section \<open>The contract of the abstract class Poller\<close>

text \<open>
  What \<open>EventLoop\<close>, \<open>Acceptor\<close> and \<open>TcpConnection\<close> rely on: \<open>upd\<close> sets the interest of a
  channel and updates the poller, \<open>rem\<close> removes the channel, \<open>watched\<close> is what the kernel
  watches. The clients never look at \<open>index_\<close>.
\<close>

locale poller_interface =
  fixes inv :: "'w \<Rightarrow> bool" and fresh_or_owned :: "ptr \<Rightarrow> 'w \<Rightarrow> bool"
    and upd :: "bits32 \<Rightarrow> ptr \<Rightarrow> 'w \<Rightarrow> 'w result" and rem :: "ptr \<Rightarrow> 'w \<Rightarrow> 'w result"
    and has :: "ptr \<Rightarrow> 'w \<Rightarrow> bool" and watched :: "'w \<Rightarrow> fd \<Rightarrow> epoll_event option"
    and fd_of :: "ptr \<Rightarrow> 'w \<Rightarrow> fd"
  assumes upd_law: "inv w \<Longrightarrow> fresh_or_owned c w \<Longrightarrow>
      \<exists>w'. upd ev c w = Inr w' \<and> inv w' \<and> fresh_or_owned c w' \<and> has c w' \<and> fd_of c w' = fd_of c w
           \<and> (ev \<noteq> 0 \<longrightarrow> watched w' (fd_of c w) = Some \<lparr>ev_events = ev, ev_data = c\<rparr>)"
    and rem_law: "inv w \<Longrightarrow> fresh_or_owned c w \<Longrightarrow>
      \<exists>w'. rem c w = Inr w' \<and> inv w' \<and> fresh_or_owned c w' \<and> \<not> has c w' \<and> fd_of c w' = fd_of c w
           \<and> watched w' (fd_of c w) = None"
begin

lemma retire:
  assumes "inv w" and "fresh_or_owned c w"
  shows "\<exists>w1 w2. upd 0 c w = Inr w1 \<and> rem c w1 = Inr w2 \<and> inv w2 \<and> fresh_or_owned c w2
           \<and> \<not> has c w2 \<and> watched w2 (fd_of c w) = None"
proof -
  obtain w1 where w1: "upd 0 c w = Inr w1" "inv w1" "fresh_or_owned c w1" "fd_of c w1 = fd_of c w"
    using upd_law [OF assms, of 0] by blast
  from rem_law [OF w1(2,3)] w1 show ?thesis by auto
qed

lemma watch_again:
  assumes "inv w" and "fresh_or_owned c w" and "ev \<noteq> 0"
  shows "\<exists>w1 w2. rem c w = Inr w1 \<and> upd ev c w1 = Inr w2 \<and> inv w2 \<and> has c w2
           \<and> watched w2 (fd_of c w) = Some \<lparr>ev_events = ev, ev_data = c\<rparr>"
proof -
  obtain w1 where w1: "rem c w = Inr w1" "inv w1" "fresh_or_owned c w1" "fd_of c w1 = fd_of c w"
    using rem_law [OF assms(1,2)] by blast
  from upd_law [OF w1(2,3), of ev] w1 assms(3) show ?thesis by auto
qed

end

definition epoll_inv :: "'k env \<Rightarrow> 'k interest \<Rightarrow> ptr \<Rightarrow> ('k, 'cb, 'm) poll_world_scheme \<Rightarrow> bool" where
  "epoll_inv e ints l w \<longleftrightarrow> epoll_ctl_ok e ints \<and> epoll_ctl_accepts e ints \<and> poller_inv ints l w"

lemma set_interest_fd:
  assumes "set_interest e l ev c w = Inr w'"
  shows "ch_fd (chans w' c) = ch_fd (chans w c)" and "ch_events (chans w' c) = ev"
  using UpdateChannel_frame(1) [OF assms [unfolded set_interest_def]] by auto

lemma epoll_upd_law:
  assumes inv: "epoll_inv e ints l w" and idx: "index_ok l c w"
  shows "\<exists>w'. set_interest e l ev c w = Inr w' \<and> epoll_inv e ints l w' \<and> index_ok l c w' \<and> HasChannel l c w'
      \<and> ch_fd (chans w' c) = ch_fd (chans w c)
      \<and> (ev \<noteq> 0 \<longrightarrow> kernel_interest ints l w' (ch_fd (chans w c)) = Some \<lparr>ev_events = ev, ev_data = c\<rparr>)"
proof -
  have ok: "epoll_ctl_ok e ints" "epoll_ctl_accepts e ints" "poller_inv ints l w"
    using inv by (simp_all add: epoll_inv_def)
  obtain w' where w': "set_interest e l ev c w = Inr w'" "poller_inv ints l w'" "index_ok l c w'"
    "ch_index (chans w' c) = (if ch_index (chans w c) = kAdded \<and> ev = 0 then kDeleted else kAdded)"
    "HasChannel l c w'"
    by (rule set_interest_registers [OF ok idx, of ev])
  show ?thesis
    using w' set_interest_fd [OF w'(1)] ok poller_inv_index [OF w'(2,3)]
    by (intro exI [of _ w']) (simp add: epoll_inv_def registration_def)
qed

lemma epoll_rem_law:
  assumes inv: "epoll_inv e ints l w" and idx: "index_ok l c w"
  shows "\<exists>w'. RemoveChannel e l c w = Inr w' \<and> epoll_inv e ints l w' \<and> index_ok l c w' \<and> \<not> HasChannel l c w'
      \<and> ch_fd (chans w' c) = ch_fd (chans w c) \<and> kernel_interest ints l w' (ch_fd (chans w c)) = None"
proof -
  have ok: "epoll_ctl_ok e ints" "epoll_ctl_accepts e ints" "poller_inv ints l w"
    using inv by (simp_all add: epoll_inv_def)
  obtain w' where w': "RemoveChannel e l c w = Inr w'" "poller_inv ints l w'" "index_ok l c w'"
    "ch_index (chans w' c) = kNew" "kernel_interest ints l w' (ch_fd (chans w c)) = None"
    by (rule RemoveChannel_unregisters [OF ok idx])
  have "ch_fd (chans w' c) = ch_fd (chans w c)"
    using RemoveChannel_frame(1) [OF w'(1), of c] by simp
  moreover have "\<not> HasChannel l c w'" using w'(3,4) by (simp add: index_ok_def HasChannel_def)
  ultimately show ?thesis
    using w' ok by (intro exI [of _ w']) (simp add: epoll_inv_def)
qed

interpretation epi: poller_interface "epoll_inv e ints l" "index_ok l" "set_interest e l" "RemoveChannel e l"
  "HasChannel l" "kernel_interest ints l" "\<lambda>c w. ch_fd (chans w c)"
  for e ints l
  by unfold_locales (rule epoll_upd_law, assumption+, rule epoll_rem_law, assumption+)

section \<open>Poll\<close>

lemma FillActiveChannels_spec:
  "fst (FillActiveChannels evs active w) = active @ map ev_data evs"
  "kern (snd (FillActiveChannels evs active w)) = kern w"
  "trace (snd (FillActiveChannels evs active w)) = trace w"
  "chan_world.more (snd (FillActiveChannels evs active w)) = chan_world.more w"
  "ch_index (chans (snd (FillActiveChannels evs active w)) c) = ch_index (chans w c)"
  "ch_events (chans (snd (FillActiveChannels evs active w)) c) = ch_events (chans w c)"
  "wiring (chans (snd (FillActiveChannels evs active w)) c) = wiring (chans w c)"
  "c \<notin> ev_data ` set evs \<Longrightarrow> chans (snd (FillActiveChannels evs active w)) c = chans w c"
  by (induction evs arbitrary: active w) auto

lemma pollers_FillActiveChannels [simp]:
  "pollers (snd (FillActiveChannels evs active w)) = pollers w"
  by (induction evs arbitrary: active w) auto

lemma FillActiveChannels_revents:
  assumes "distinct (map ev_data evs)" and "ev \<in> set evs"
  shows "ch_revents (chans (snd (FillActiveChannels evs active w)) (ev_data ev)) = ev_events ev"
  using assms
proof (induction evs arbitrary: active w)
  case (Cons x evs)
  show ?case
  proof (cases "ev \<in> set evs")
    case True
    then show ?thesis using Cons by simp
  next
    case False
    then have "ev = x" "ev_data x \<notin> ev_data ` set evs" using Cons.prems by auto
    then show ?thesis by (simp add: FillActiveChannels_spec(8))
  qed
qed simp

lemma poller_inv_cong:
  assumes "poller_inv ints l w" and "ints (kern w') = ints (kern w)"
    and "po_channels (pollers w' l) = po_channels (pollers w l)"
    and "po_epoll_fd (pollers w' l) = po_epoll_fd (pollers w l)"
    and "\<And>c. ch_index (chans w' c) = ch_index (chans w c)" "\<And>c. ch_events (chans w' c) = ch_events (chans w c)"
      "\<And>c. ch_fd (chans w' c) = ch_fd (chans w c)"
  shows "poller_inv ints l w'"
  using assms by (auto simp: poller_inv_def kernel_view_def registration_def split: option.splits)

lemma FillActiveChannels_fd:
  "ch_fd (chans (snd (FillActiveChannels evs active w)) c) = ch_fd (chans w c)"
  using FillActiveChannels_spec(7) [of evs active w c] by (simp add: wiring_def)

lemma poller_inv_reported:
  assumes "poller_inv ints l w" and "ints (kern w) (po_epoll_fd (pollers w l)) f = Some reg"
  shows "HasChannel l (ev_data reg) w \<and> ch_index (chans w (ev_data reg)) = kAdded"
  using assms
  by (auto simp: poller_inv_def kernel_view_def registration_def HasChannel_def
      split: option.splits if_splits)

lemma reported_channel_known:
  assumes "poller_inv ints l w"
    and "\<forall>ev \<in> set evs. \<exists>f reg. ints (kern w) (po_epoll_fd (pollers w l)) f = Some reg \<and> ev_data reg = ev_data ev"
    and "c \<in> set (map ev_data evs)"
  shows "HasChannel l c w \<and> ch_index (chans w c) = kAdded"
proof -
  obtain ev where "ev \<in> set evs" "c = ev_data ev" using assms(3) unfolding set_map by (rule imageE)
  then obtain f reg where "ints (kern w) (po_epoll_fd (pollers w l)) f = Some reg" "ev_data reg = c"
    using assms(2) by auto
  then show ?thesis using poller_inv_reported [OF assms(1)] by fastforce
qed

lemma Poll_SysOk:
  assumes "sys_epoll_wait e (po_epoll_fd (pollers w l)) (po_events_size (pollers w l)) t (kern w) = (SysOk evs, k1)"
  obtains w' where "Poll e l t active w = (fst (sys_time e k1), active @ map ev_data evs, w')"
    and "kern w' = snd (sys_time e k1)" and "trace w' = trace w"
    and "chans w' = chans (snd (FillActiveChannels evs active (w\<lparr>kern := snd (sys_time e k1)\<rparr>)))"
    and "pollers w' = (pollers w)(l := (pollers w l)\<lparr>po_events_size :=
           po_events_size (pollers w l) * (if evs \<noteq> [] \<and> length evs = po_events_size (pollers w l) then 2 else 1)\<rparr>)"
proof -
  note fill = FillActiveChannels_spec [where evs = evs and active = active and w = "w\<lparr>kern := snd (sys_time e k1)\<rparr>"]
  show ?thesis
  proof (cases "evs = []")
    case True
    then show ?thesis
      using assms by (intro that [of "w\<lparr>kern := snd (sys_time e k1)\<rparr>"])
         (simp_all add: Poll_def Let_def case_prod_beta')
  next
    case False
    then show ?thesis
      using assms fill(1-3)
      by (cases "length evs = po_events_size (pollers w l)"; intro that [of "snd (snd (Poll e l t active w))"])
         (simp_all add: Poll_def Let_def case_prod_beta')
  qed
qed

lemma Poll_SysErr:
  assumes "sys_epoll_wait e (po_epoll_fd (pollers w l)) (po_events_size (pollers w l)) t (kern w) = (SysErr n, k1)"
  obtains tr where "Poll e l t active w = (fst (sys_time e k1), active, w\<lparr>kern := snd (sys_time e k1), trace := tr\<rparr>)"
  using assms that [of "trace w"] that [of "trace w @ [LogError ''epoll_wait() error'']"]
  by (cases "n = EINTR") (simp_all add: Poll_def Let_def case_prod_beta')

section \<open>Properties\<close>

text \<open>
  C13: changing a channel's interest keeps the poller, the channel and the kernel in agreement.
  From any state in which they agree, for a channel that is new or owned by this poller, setting
  a mask (\<open>EnableReading\<close>, \<open>DisableWriting\<close>, \<open>DisableAll\<close> and the rest) succeeds without the
  fatal branch, picks the right one of \<open>ADD\<close>, \<open>MOD\<close> and \<open>DEL\<close>, and afterwards the kernel watches
  exactly that mask for the descriptor; a zero mask takes an active channel off the list.
\<close>

theorem UpdateChannel_keeps_kernel_in_step:
  assumes "epoll_ctl_ok e ints" and "epoll_ctl_accepts e ints"
    and "poller_inv ints l w" and "index_ok l c w"
  shows "\<exists>w'. UpdateChannel e l c (on_chan (SetEvents ev) c w) = Inr w'
           \<and> poller_inv ints l w' \<and> index_ok l c w' \<and> HasChannel l c w' \<and> trace w' = trace w
           \<and> kernel_interest ints l w' (ch_fd (chans w c)) =
               (if ch_index (chans w c) = kAdded \<and> ev = 0 then None
                else Some \<lparr>ev_events = ev, ev_data = c\<rparr>)"
proof -
  obtain w' where w': "set_interest e l ev c w = Inr w'" "poller_inv ints l w'" "index_ok l c w'"
    "ch_index (chans w' c) = (if ch_index (chans w c) = kAdded \<and> ev = 0 then kDeleted else kAdded)"
    "trace w' = trace w" "HasChannel l c w'"
    by (rule set_interest_registers [OF assms, of ev])
  show ?thesis
    using w' set_interest_fd [OF w'(1)] poller_inv_index [OF w'(2,3)]
    by (intro exI [of _ w']) (simp add: set_interest_def registration_def)
qed

definition sample_poll_world :: "(test_kernel, nat) poll_world" where
  "sample_poll_world =
     \<lparr>kern = test_kernel0, trace = [], chans = (\<lambda>c. new_Channel 0 (int c)),
      pollers = (\<lambda>_. \<lparr>po_channels = Map.empty, po_epoll_fd = 4, po_events_size = 16\<rparr>)\<rparr>"

lemma sample_poll_world_ok:
  "poller_inv tk_ints 0 sample_poll_world" "index_ok 0 c sample_poll_world"
  by (simp_all add: poller_inv_def index_ok_def sample_poll_world_def test_kernel0_def new_Channel_def kNew_def)

theorem UpdateChannel_keeps_kernel_in_step_witness:
  "\<exists>w'. UpdateChannel test_env 0 7 (on_chan (SetEvents 3) 7 sample_poll_world) = Inr w'
        \<and> kernel_interest tk_ints 0 w' 7 = Some \<lparr>ev_events = 3, ev_data = 7\<rparr>"
  using UpdateChannel_keeps_kernel_in_step [OF test_env_ok(3,4) sample_poll_world_ok, of 7 3]
  by (auto simp: sample_poll_world_def new_Channel_def)

text \<open>
  C25: retiring a channel. \<open>DisableAll\<close> followed by \<open>Remove\<close>, the teardown of connections,
  acceptors and loops, works from every state of the channel, even one that was never added:
  it ends with the poller no longer knowing the channel, the kernel no longer watching the
  descriptor, and the channel ready to be added again.
\<close>

theorem retired_channel_is_unknown:
  assumes "epoll_inv e ints l w" and "index_ok l c w"
  shows "\<exists>w1 w2. UpdateChannel e l c (on_chan (SetEvents 0) c w) = Inr w1 \<and> RemoveChannel e l c w1 = Inr w2
           \<and> epoll_inv e ints l w2 \<and> index_ok l c w2 \<and> \<not> HasChannel l c w2
           \<and> kernel_interest ints l w2 (ch_fd (chans w c)) = None"
  using epi.retire [OF assms] unfolding set_interest_def .

theorem retired_channel_is_unknown_witness:
  "\<exists>w1 w2. UpdateChannel test_env 0 7 (on_chan (SetEvents 0) 7 sample_poll_world) = Inr w1
      \<and> RemoveChannel test_env 0 7 w1 = Inr w2 \<and> \<not> HasChannel 0 7 w2"
  using retired_channel_is_unknown [of test_env tk_ints 0 sample_poll_world 7] sample_poll_world_ok test_env_ok
  by (auto simp: epoll_inv_def)

text \<open>
  C26: \<open>Poll\<close> hands the loop only live registrations. Every channel in \<open>active_channels\<close> is one
  the poller knows and has added to the kernel, none occurs twice, no other channel is touched
  and the registrations stay as they were; the event list doubles exactly when it came back
  full, and a failed or interrupted wait reports no channel.
\<close>

theorem Poll_reports_registered_channels:
  assumes "epoll_wait_ok e ints" and "time_ok e ints" and "poller_inv ints l w"
    and "Poll e l t [] w = (now, active, w')"
  shows "poller_inv ints l w' \<and> distinct active \<and> length active \<le> po_events_size (pollers w l)
    \<and> (\<forall>c \<in> set active. HasChannel l c w \<and> ch_index (chans w c) = kAdded)
    \<and> (\<forall>c. c \<notin> set active \<longrightarrow> chans w' c = chans w c)
    \<and> po_events_size (pollers w' l) =
        (if active \<noteq> [] \<and> length active = po_events_size (pollers w l) then 2 else 1) * po_events_size (pollers w l)"
proof -
  let ?p = "pollers w l"
  obtain r k1 where r: "sys_epoll_wait e (po_epoll_fd ?p) (po_events_size ?p) t (kern w) = (r, k1)"
    by fastforce
  have kint: "ints (snd (sys_time e k1)) = ints (kern w)"
    using assms(1,2) r by (simp add: epoll_wait_ok_def time_ok_def)
  show ?thesis
  proof (cases r)
    case (SysErr n)
    obtain tr where P: "Poll e l t [] w = (fst (sys_time e k1), [], w\<lparr>kern := snd (sys_time e k1), trace := tr\<rparr>)"
      by (rule Poll_SysErr [OF r [unfolded SysErr], of "[]"])
    then have eqs: "active = []" "w' = w\<lparr>kern := snd (sys_time e k1), trace := tr\<rparr>"
      using assms(4) by simp_all
    have "poller_inv ints l w'"
      by (rule poller_inv_cong [OF assms(3)]) (simp_all add: eqs kint)
    then show ?thesis by (simp add: eqs)
  next
    case (SysOk evs)
    have evs: "length evs \<le> po_events_size ?p" "distinct (map ev_data evs)"
      "\<forall>ev \<in> set evs. \<exists>f reg. ints (kern w) (po_epoll_fd ?p) f = Some reg \<and> ev_data reg = ev_data ev"
      using assms(1) r SysOk by (auto simp: epoll_wait_ok_def)
    obtain w1 where P: "Poll e l t [] w = (fst (sys_time e k1), [] @ map ev_data evs, w1)"
      and w1: "kern w1 = snd (sys_time e k1)" "trace w1 = trace w"
        "chans w1 = chans (snd (FillActiveChannels evs [] (w\<lparr>kern := snd (sys_time e k1)\<rparr>)))"
        "pollers w1 = (pollers w)(l := ?p\<lparr>po_events_size :=
           po_events_size ?p * (if evs \<noteq> [] \<and> length evs = po_events_size ?p then 2 else 1)\<rparr>)"
      by (rule Poll_SysOk [OF r [unfolded SysOk], of "[]"])
    have act: "active = map ev_data evs" "w' = w1" using P assms(4) by auto
    have "poller_inv ints l w1"
      by (rule poller_inv_cong [OF assms(3)])
         (use w1 kint in \<open>simp_all add: FillActiveChannels_spec FillActiveChannels_fd\<close>)
    moreover have "HasChannel l c w \<and> ch_index (chans w c) = kAdded" if "c \<in> set active" for c
      using reported_channel_known [OF assms(3) evs(3)] that act(1) by (simp only:)
    moreover have "\<forall>c. c \<notin> set active \<longrightarrow> chans w1 c = chans w c"
      using act(1) w1(3) by (simp add: FillActiveChannels_spec(8))
    ultimately show ?thesis using act evs(1,2) w1(4) by simp
  qed
qed

definition ready_world :: "(test_kernel, nat) poll_world" where
  "ready_world = sample_poll_world
     \<lparr>kern := test_kernel0\<lparr>tk_ints := (\<lambda>_. [7 \<mapsto> \<lparr>ev_events = 3, ev_data = 7\<rparr>]),
                           tk_ready := [\<lparr>ev_events = 1, ev_data = 7\<rparr>]\<rparr>,
      chans := (\<lambda>c. (new_Channel 0 (int c))\<lparr>ch_index := (if c = 7 then kAdded else kNew), ch_events := 3\<rparr>),
      pollers := (\<lambda>_. \<lparr>po_channels = [7 \<mapsto> 7], po_epoll_fd = 4, po_events_size = 1\<rparr>)\<rparr>"

text \<open>A kernel that reports ready events only for what it watches.\<close>

definition wait_env :: "test_kernel env" where
  "wait_env = test_env\<lparr>sys_epoll_wait := (\<lambda>ep n t k.
     (SysOk (if n = 0 then [] else case tk_ints k ep 7 of None \<Rightarrow> []
             | Some reg \<Rightarrow> [\<lparr>ev_events = 1, ev_data = ev_data reg\<rparr>]), k))\<rparr>"

lemma wait_env_ok: "epoll_wait_ok wait_env tk_ints" "time_ok wait_env tk_ints"
  by (auto simp: epoll_wait_ok_def time_ok_def wait_env_def test_env_def split: option.splits)

lemma ready_world_ok: "poller_inv tk_ints 0 ready_world"
  by (auto simp: poller_inv_def ready_world_def sample_poll_world_def new_Channel_def kernel_view_def
      registration_def split: if_splits)

theorem Poll_reports_registered_channels_witness:
  "\<exists>now w'. Poll wait_env 0 10000 [] ready_world = (now, [7], w') \<and> HasChannel 0 7 ready_world
            \<and> po_events_size (pollers w' 0) = 2"
proof -
  obtain now w' where P: "Poll wait_env 0 10000 [] ready_world = (now, [7], w')"
    by (simp add: Poll_def wait_env_def test_env_def ready_world_def sample_poll_world_def test_kernel0_def)
  from Poll_reports_registered_channels [OF wait_env_ok ready_world_ok P] P show ?thesis
    by (auto simp: ready_world_def)
qed

end
