(* ===== verification/Event_Loop.thy ===== *)
theory Event_Loop
  imports Epoll_Poller
begin

text \<open>
  The class \<open>EventLoop\<close> (include/cutemuduo/event_loop.hpp, src/event_loop.cpp), with
  \<open>Channel::Update\<close> and \<open>Channel::Remove\<close>, which end in the loop that owns the channel. Closures
  the library creates are values of the datatypes \<open>callback\<close> (stored in channels) and
  \<open>Functor\<close> (queued in loops); an operation that calls one takes the function that says what a
  closure does. An operation whose effect depends on the calling thread takes that thread's id
  \<open>me\<close>. This theory treats one call at a time; \<open>Loop_Protocol\<close> treats the interleavings.
\<close>

section \<open>State\<close>

text \<open>The closures stored in a \<open>Channel\<close>: each names the object whose handler it calls.\<close>

datatype callback =
    LoopHandleRead ptr
  | AcceptorHandleRead ptr
  | ConnHandleRead ptr
  | ConnHandleWrite ptr
  | ConnHandleClose ptr
  | ConnHandleError ptr

text \<open>
  The closures handed to \<open>RunInLoop\<close> and \<open>QueueInLoop\<close>, with what they capture. \<open>FUser n\<close> stands
  for the functors of the application.
\<close>

datatype Functor =
    FSendInLoop ptr "byte list"
  | FSendBuffer ptr ptr
  | FShutdownInLoop ptr
  | FWriteComplete ptr
  | FHighWaterMark ptr size_t
  | FConnectEstablished ptr
  | FConnectDestroyed ptr
  | FRemoveConnectionInLoop ptr ptr
  | FListen ptr
  | FUser nat

record event_loop =
  el_looping :: bool
  el_quit :: bool
  el_poll_return_time :: int
  el_active_channels :: "ptr list"
  el_thread_id :: tid
  el_wakeup_fd :: fd
  el_wakeup_channel :: ptr
  el_pending_functors :: "Functor list"
  el_calling_pending_functors :: bool

record 'k loop_world = "('k, callback) poll_world" +
  loops :: "ptr \<Rightarrow> event_loop"
  loop_in_this_thread :: "tid \<Rightarrow> ptr option"

type_synonym ('k, 'm) loop_op = "('k, 'm) loop_world_scheme \<Rightarrow> ('k, 'm) loop_world_scheme result"

definition kPollTimeMs :: int where "kPollTimeMs = 10000"

definition on_loop ::
  "(event_loop \<Rightarrow> event_loop) \<Rightarrow> ptr \<Rightarrow> ('k, 'm) loop_world_scheme \<Rightarrow> ('k, 'm) loop_world_scheme" where
  "on_loop f l w = w\<lparr>loops := (loops w)(l := f (loops w l))\<rparr>"

section \<open>Operations\<close>

text \<open>\<open>Channel::Update\<close> and \<open>Channel::Remove\<close> go through the loop to its poller.\<close>

definition EventLoop_UpdateChannel :: "'k env \<Rightarrow> ptr \<Rightarrow> ptr \<Rightarrow> ('k, 'm) loop_op" where
  "EventLoop_UpdateChannel e l c w = UpdateChannel e l c w"

definition EventLoop_RemoveChannel :: "'k env \<Rightarrow> ptr \<Rightarrow> ptr \<Rightarrow> ('k, 'm) loop_op" where
  "EventLoop_RemoveChannel e l c w = RemoveChannel e l c w"

definition EventLoop_HasChannel :: "ptr \<Rightarrow> ptr \<Rightarrow> ('k, 'm) loop_world_scheme \<Rightarrow> bool" where
  "EventLoop_HasChannel l c w = HasChannel l c w"

definition Channel_Update :: "'k env \<Rightarrow> ptr \<Rightarrow> ('k, 'm) loop_op" where
  "Channel_Update e c w = EventLoop_UpdateChannel e (ch_loop (chans w c)) c w"

definition Channel_Remove :: "'k env \<Rightarrow> ptr \<Rightarrow> ('k, 'm) loop_op" where
  "Channel_Remove e c w = EventLoop_RemoveChannel e (ch_loop (chans w c)) c w"

text \<open>The eight bytes of the \<open>uint64_t\<close> value 1 on a little-endian target.\<close>

definition wakeup_one :: "byte list" where
  "wakeup_one = [1, 0, 0, 0, 0, 0, 0, 0]"

definition CreateEventfd :: "'k env \<Rightarrow> 'k \<Rightarrow> (fd \<times> 'k) result" where
  "CreateEventfd e k =
     (case sys_eventfd e k of (SysErr errno, k) \<Rightarrow> Inl LogFatal | (SysOk evtfd, k) \<Rightarrow> Inr (evtfd, k))"

definition Wakeup :: "'k env \<Rightarrow> ptr \<Rightarrow> ('k, 'm) loop_world_scheme \<Rightarrow> ('k, 'm) loop_world_scheme" where
  "Wakeup e l w =
     (case sys_write e (el_wakeup_fd (loops w l)) wakeup_one (kern w) of (r, k) \<Rightarrow>
        if r = SysOk 8 then w\<lparr>kern := k\<rparr>
        else w\<lparr>kern := k, trace := trace w @ [LogError ''EventLoop::Wakeup()'']\<rparr>)"

definition EventLoop_HandleRead :: "'k env \<Rightarrow> ptr \<Rightarrow> ('k, 'm) loop_world_scheme \<Rightarrow> ('k, 'm) loop_world_scheme" where
  "EventLoop_HandleRead e l w =
     (case sys_read e (el_wakeup_fd (loops w l)) 8 (kern w) of (r, k) \<Rightarrow>
        if (case r of SysErr errno \<Rightarrow> False | SysOk bs \<Rightarrow> length bs = 8) then w\<lparr>kern := k\<rparr>
        else w\<lparr>kern := k, trace := trace w @ [LogError ''EventLoop::HandleRead()'']\<rparr>)"

text \<open>
  The constructor, for an object at \<open>l\<close> whose \<open>wakeup_channel_\<close> is allocated at \<open>c\<close>, and the
  destructor, which ends with the members' own destructors.
\<close>

definition new_EventLoop :: "'k env \<Rightarrow> tid \<Rightarrow> ptr \<Rightarrow> ptr \<Rightarrow> ('k, 'm) loop_op" where
  "new_EventLoop e me l c w =
     (let (p, k) = NewDefaultPoller e (kern w)
      in andThen (CreateEventfd e k) (\<lambda>(evtfd, k).
           let w = w\<lparr>kern := k, chans := (chans w)(c := new_Channel l evtfd), pollers := (pollers w)(l := p),
                     loops := (loops w)(l :=
                       \<lparr>el_looping = False, el_quit = False, el_poll_return_time = 0, el_active_channels = [],
                        el_thread_id = me, el_wakeup_fd = evtfd, el_wakeup_channel = c,
                        el_pending_functors = [], el_calling_pending_functors = False\<rparr>)\<rparr>
           in if loop_in_this_thread w me \<noteq> None then Inl LogFatal
              else andThen (EnableReading (Channel_Update e) c
                     (w\<lparr>loop_in_this_thread := (loop_in_this_thread w)(me := Some l)\<rparr>))
                   (\<lambda>w. Inr (on_chan (SetReadCallback (LoopHandleRead l)) c w))))"

definition delete_EventLoop :: "'k env \<Rightarrow> tid \<Rightarrow> ptr \<Rightarrow> ('k, 'm) loop_op" where
  "delete_EventLoop e me l w =
     (let c = el_wakeup_channel (loops w l)
      in andThen (DisableAll (Channel_Update e) c w) (\<lambda>w.
         andThen (Channel_Remove e c w) (\<lambda>w.
           let w = w\<lparr>kern := sys_close e (el_wakeup_fd (loops w l)) (kern w),
                     trace := trace w @ [Closed (el_wakeup_fd (loops w l))],
                     loop_in_this_thread := (loop_in_this_thread w)(me := None)\<rparr>
           in Inr (delete_EpollPoller e l w))))"

definition IsInLoopThread :: "tid \<Rightarrow> ptr \<Rightarrow> ('k, 'm) loop_world_scheme \<Rightarrow> bool" where
  "IsInLoopThread me l w \<longleftrightarrow> el_thread_id (loops w l) = me"

definition QueueInLoop ::
  "'k env \<Rightarrow> tid \<Rightarrow> ptr \<Rightarrow> Functor \<Rightarrow> ('k, 'm) loop_world_scheme \<Rightarrow> ('k, 'm) loop_world_scheme" where
  "QueueInLoop e me l cb w =
     (let w = on_loop (\<lambda>lp. lp\<lparr>el_pending_functors := el_pending_functors lp @ [cb]\<rparr>) l w
      in if \<not> IsInLoopThread me l w \<or> el_calling_pending_functors (loops w l) then Wakeup e l w else w)"

text \<open>\<open>exec cb\<close> is what the closure \<open>cb\<close> does when it is called.\<close>

definition RunInLoop ::
  "'k env \<Rightarrow> tid \<Rightarrow> (Functor \<Rightarrow> ('k, 'm) loop_op) \<Rightarrow> ptr \<Rightarrow> Functor \<Rightarrow> ('k, 'm) loop_op" where
  "RunInLoop e me exec l cb w =
     (if IsInLoopThread me l w then exec cb w else Inr (QueueInLoop e me l cb w))"

definition DoPendingFunctors :: "(Functor \<Rightarrow> ('k, 'm) loop_op) \<Rightarrow> ptr \<Rightarrow> ('k, 'm) loop_op" where
  "DoPendingFunctors exec l w =
     (let functors = el_pending_functors (loops w l);
          w = on_loop (\<lambda>lp. lp\<lparr>el_calling_pending_functors := True, el_pending_functors := []\<rparr>) l w
      in andThen (foldE exec functors w)
           (\<lambda>w. Inr (on_loop (\<lambda>lp. lp\<lparr>el_calling_pending_functors := False\<rparr>) l w)))"

definition Quit :: "'k env \<Rightarrow> tid \<Rightarrow> ptr \<Rightarrow> ('k, 'm) loop_world_scheme \<Rightarrow> ('k, 'm) loop_world_scheme" where
  "Quit e me l w =
     (let w = on_loop (\<lambda>lp. lp\<lparr>el_quit := True\<rparr>) l w
      in if IsInLoopThread me l w then w else Wakeup e l w)"

text \<open>
  The body of the \<open>while\<close> in \<open>Loop\<close>, and \<open>Loop\<close> with a bound on the number of iterations: \<open>None\<close>
  says that the loop is still running after that many.
\<close>

definition loop_iteration ::
  "'k env \<Rightarrow> (callback \<Rightarrow> int \<Rightarrow> ('k, 'm) loop_op) \<Rightarrow> (ptr \<Rightarrow> ('k, 'm) loop_world_scheme \<Rightarrow> bool) \<Rightarrow>
   (Functor \<Rightarrow> ('k, 'm) loop_op) \<Rightarrow> ptr \<Rightarrow> ('k, 'm) loop_op" where
  "loop_iteration e run lock exec l w =
     (let w = on_loop (\<lambda>lp. lp\<lparr>el_active_channels := []\<rparr>) l w;
          (now, active, w) = Poll e l kPollTimeMs (el_active_channels (loops w l)) w;
          w = on_loop (\<lambda>lp. lp\<lparr>el_poll_return_time := now, el_active_channels := active\<rparr>) l w
      in andThen (foldE (\<lambda>c w. HandleEvent run lock (el_poll_return_time (loops w l)) c w) active w)
           (DoPendingFunctors exec l))"

primrec loop_while ::
  "nat \<Rightarrow> 'k env \<Rightarrow> (callback \<Rightarrow> int \<Rightarrow> ('k, 'm) loop_op) \<Rightarrow> (ptr \<Rightarrow> ('k, 'm) loop_world_scheme \<Rightarrow> bool) \<Rightarrow>
   (Functor \<Rightarrow> ('k, 'm) loop_op) \<Rightarrow> ptr \<Rightarrow> ('k, 'm) loop_world_scheme \<Rightarrow> ('k, 'm) loop_world_scheme result option" where
  "loop_while 0 e run lock exec l w = (if el_quit (loops w l) then Some (Inr w) else None)"
| "loop_while (Suc n) e run lock exec l w =
     (if el_quit (loops w l) then Some (Inr w)
      else case loop_iteration e run lock exec l w of
             Inl x \<Rightarrow> Some (Inl x)
           | Inr w \<Rightarrow> loop_while n e run lock exec l w)"

definition Loop ::
  "nat \<Rightarrow> 'k env \<Rightarrow> (callback \<Rightarrow> int \<Rightarrow> ('k, 'm) loop_op) \<Rightarrow> (ptr \<Rightarrow> ('k, 'm) loop_world_scheme \<Rightarrow> bool) \<Rightarrow>
   (Functor \<Rightarrow> ('k, 'm) loop_op) \<Rightarrow> ptr \<Rightarrow> ('k, 'm) loop_world_scheme \<Rightarrow> ('k, 'm) loop_world_scheme result option" where
  "Loop n e run lock exec l w =
     (let w = on_loop (\<lambda>lp. lp\<lparr>el_looping := True, el_quit := False\<rparr>) l w
      in map_option (map_sum id (on_loop (\<lambda>lp. lp\<lparr>el_looping := False\<rparr>) l))
           (loop_while n e run lock exec l w))"

section \<open>Frames\<close>

lemma on_loop_sel [simp, frame_simps]:
  "kern (on_loop f l w) = kern w" "trace (on_loop f l w) = trace w" "chans (on_loop f l w) = chans w"
  "pollers (on_loop f l w) = pollers w" "loop_in_this_thread (on_loop f l w) = loop_in_this_thread w"
  "loop_world.more (on_loop f l w) = loop_world.more w"
  "loops (on_loop f l w) m = (if m = l then f (loops w l) else loops w m)"
  by (simp_all add: on_loop_def)

lemma on_loop_id [simp]: "(\<And>lp. lp = loops w l \<Longrightarrow> f lp = lp) \<Longrightarrow> on_loop f l w = w"
  by (simp add: on_loop_def fun_upd_idem)

lemma on_loop_twice [simp]: "on_loop f l (on_loop g l w) = on_loop (f \<circ> g) l w"
  by (simp add: on_loop_def)

lemma loops_on_chan [simp, frame_simps]:
  "loops (on_chan f c w) = loops w" "loop_in_this_thread (on_chan f c w) = loop_in_this_thread w"
  "loop_world.more (on_chan f c w) = loop_world.more w"
  by (simp_all add: on_chan_def)

lemma Wakeup_frame [simp, frame_simps]:
  "chans (Wakeup e l w) = chans w" "pollers (Wakeup e l w) = pollers w" "loops (Wakeup e l w) = loops w"
  "loop_in_this_thread (Wakeup e l w) = loop_in_this_thread w" "loop_world.more (Wakeup e l w) = loop_world.more w"
  by (simp_all add: Wakeup_def split: prod.split)

lemma EventLoop_HandleRead_frame [simp, frame_simps]:
  "chans (EventLoop_HandleRead e l w) = chans w" "pollers (EventLoop_HandleRead e l w) = pollers w"
  "loops (EventLoop_HandleRead e l w) = loops w"
  "loop_in_this_thread (EventLoop_HandleRead e l w) = loop_in_this_thread w"
  "loop_world.more (EventLoop_HandleRead e l w) = loop_world.more w"
  by (simp_all add: EventLoop_HandleRead_def split: prod.split)

lemma QueueInLoop_frame [simp, frame_simps]:
  "chans (QueueInLoop e me l cb w) = chans w" "pollers (QueueInLoop e me l cb w) = pollers w"
  "loop_in_this_thread (QueueInLoop e me l cb w) = loop_in_this_thread w"
  "loop_world.more (QueueInLoop e me l cb w) = loop_world.more w"
  "loops (QueueInLoop e me l cb w) m = (if m = l
     then (loops w l)\<lparr>el_pending_functors := el_pending_functors (loops w l) @ [cb]\<rparr> else loops w m)"
  by (simp_all add: QueueInLoop_def Let_def)

lemma Quit_frame [simp, frame_simps]:
  "chans (Quit e me l w) = chans w" "pollers (Quit e me l w) = pollers w"
  "loop_in_this_thread (Quit e me l w) = loop_in_this_thread w"
  "loop_world.more (Quit e me l w) = loop_world.more w"
  "loops (Quit e me l w) m = (if m = l then (loops w l)\<lparr>el_quit := True\<rparr> else loops w m)"
  by (simp_all add: Quit_def Let_def)


interpretation loop_host: channel_host "Channel_Update e" for e
  by unfold_locales
     (auto simp: Channel_Update_def EventLoop_UpdateChannel_def dest!: UpdateChannel_frame(1) split: if_splits)

lemma Channel_Update_frame:
  assumes "Channel_Update e c w = Inr w'"
  shows "loops w' = loops w" and "loop_in_this_thread w' = loop_in_this_thread w"
    and "loop_world.more w' = loop_world.more w"
    and "\<exists>i. chans w' = (chans w)(c := SetIndex i (chans w c))"
  using UpdateChannel_frame(1,4) [OF assms [unfolded Channel_Update_def EventLoop_UpdateChannel_def]]
  by (cases w; cases w'; simp)+

lemma Channel_Remove_frame:
  assumes "Channel_Remove e c w = Inr w'"
  shows "loops w' = loops w" and "loop_in_this_thread w' = loop_in_this_thread w"
    and "loop_world.more w' = loop_world.more w"
    and "chans w' d = (if d = c then SetIndex (-1) (chans w c) else chans w d)"
  using RemoveChannel_frame(1,4) [OF assms [unfolded Channel_Remove_def EventLoop_RemoveChannel_def]]
  by (cases w; cases w'; simp)+

lemma FillActiveChannels_loops [simp]:
  "loops (snd (FillActiveChannels evs active w)) = loops w"
  "loop_in_this_thread (snd (FillActiveChannels evs active w)) = loop_in_this_thread w"
  "loop_world.more (snd (FillActiveChannels evs active w)) = loop_world.more w"
  by (induction evs arbitrary: active w) auto

lemma Poll_loops:
  assumes "Poll e l t active w = (now, active', w')"
  shows "loops w' = loops w \<and> loop_in_this_thread w' = loop_in_this_thread w \<and> loop_world.more w' = loop_world.more w"
  using assms
  by (auto simp: Poll_def Let_def case_prod_beta' split: sysres.splits if_splits prod.splits)

section \<open>What clients of a loop keep\<close>

text \<open>
  A closure that runs in a loop may queue functors and call \<open>Quit\<close>; it leaves everything else
  of every loop alone. \<open>loops_kept\<close> says so of two states.
\<close>

definition loop_kept :: "event_loop \<Rightarrow> event_loop \<Rightarrow> bool" where
  "loop_kept a b \<longleftrightarrow> (\<exists>new q. b = a\<lparr>el_pending_functors := el_pending_functors a @ new, el_quit := el_quit a \<or> q\<rparr>)"

definition loops_kept :: "('k, 'm) loop_world_scheme \<Rightarrow> ('k, 'm) loop_world_scheme \<Rightarrow> bool" where
  "loops_kept w w' \<longleftrightarrow> loop_in_this_thread w' = loop_in_this_thread w \<and> (\<forall>l. loop_kept (loops w l) (loops w' l))"

lemma loop_kept_refl [simp, intro]: "loop_kept a a"
  unfolding loop_kept_def by (intro exI [of _ "[]"] exI [of _ False]) simp

lemma loop_kept_push [simp]: "loop_kept a (a\<lparr>el_pending_functors := el_pending_functors a @ new\<rparr>)"
  unfolding loop_kept_def by (intro exI [of _ new] exI [of _ False]) simp

lemma loop_kept_quit [simp]: "loop_kept a (a\<lparr>el_quit := True\<rparr>)"
  unfolding loop_kept_def by (intro exI [of _ "[]"] exI [of _ True]) simp

lemma loop_kept_trans [trans]: "loop_kept a b \<Longrightarrow> loop_kept b c \<Longrightarrow> loop_kept a c"
  unfolding loop_kept_def by (elim exE, intro exI, force)

lemma loops_kept_refl [simp, intro]: "loops_kept w w"
  by (simp add: loops_kept_def)

lemma loops_kept_same:
  "loops w' = loops w \<Longrightarrow> loop_in_this_thread w' = loop_in_this_thread w \<Longrightarrow> loops_kept w w'"
  by (simp add: loops_kept_def)

lemma loops_kept_trans [trans]: "loops_kept a b \<Longrightarrow> loops_kept b c \<Longrightarrow> loops_kept a c"
  unfolding loops_kept_def by (metis loop_kept_trans)

lemma loops_kept_QueueInLoop [simp, intro]: "loops_kept w (QueueInLoop e me l cb w)"
  by (simp add: loops_kept_def loop_kept_push)

lemma loops_kept_Quit [simp, intro]: "loops_kept w (Quit e me l w)"
  by (simp add: loops_kept_def loop_kept_quit)

lemma loops_kept_foldE:
  assumes "foldE f xs w = Inr w'" and "\<And>x w w'. f x w = Inr w' \<Longrightarrow> loops_kept w w'"
  shows "loops_kept w w'"
  using foldE_invariant [OF assms(1), of "loops_kept w"] assms(2) loops_kept_trans loops_kept_refl by metis

lemma loop_keptD:
  assumes "loop_kept a b"
  shows "el_quit a \<Longrightarrow> el_quit b" and "el_thread_id b = el_thread_id a" and "el_wakeup_fd b = el_wakeup_fd a"
    and "el_calling_pending_functors b = el_calling_pending_functors a" and "el_looping b = el_looping a"
    and "\<exists>new. el_pending_functors b = el_pending_functors a @ new"
    and "el_poll_return_time b = el_poll_return_time a"
  using assms by (auto simp: loop_kept_def)

lemma loops_keptD: "loops_kept w w' \<Longrightarrow> loop_kept (loops w l) (loops w' l)"
  by (simp add: loops_kept_def)


text \<open>
  The closures a loop runs, seen from the loop: \<open>exec\<close> runs a functor, \<open>run\<close> a channel callback,
  and neither does to the loops anything but queue and quit.
\<close>

locale loop_client =
  fixes exec :: "Functor \<Rightarrow> ('k, 'm) loop_op"
    and run :: "callback \<Rightarrow> int \<Rightarrow> ('k, 'm) loop_op"
  assumes exec_kept: "exec f w = Inr w' \<Longrightarrow> loops_kept w w'"
    and run_kept: "run cb t w = Inr w' \<Longrightarrow> loops_kept w w'"
begin

lemma execs_kept: "foldE exec fs w = Inr w' \<Longrightarrow> loops_kept w w'"
  by (erule loops_kept_foldE) (rule exec_kept)

lemma fire_kept: "fire run t test slot c w = Inr w' \<Longrightarrow> loops_kept w w'"
  unfolding fire_foldE by (erule loops_kept_foldE) (rule run_kept)

lemma HandleEvent_kept: "HandleEvent run lock t c w = Inr w' \<Longrightarrow> loops_kept w w'"
  unfolding HandleEvent_def HandleEventWithGuard_def
  by (simp split: if_splits) (elim andThen_InrE, meson fire_kept loops_kept_trans)

text \<open>A batch: what was queued runs once and in order; what it queues stays for the next one.\<close>

lemma batch:
  assumes "DoPendingFunctors exec l w = Inr w'"
  obtains w1 new where "foldE exec (el_pending_functors (loops w l))
      (on_loop (\<lambda>lp. lp\<lparr>el_calling_pending_functors := True, el_pending_functors := []\<rparr>) l w) = Inr w1"
    and "el_calling_pending_functors (loops w1 l)" and "el_pending_functors (loops w1 l) = new"
    and "loops w' l = (loops w l)\<lparr>el_pending_functors := new, el_calling_pending_functors := False,
           el_quit := el_quit (loops w1 l)\<rparr>"
    and "el_quit (loops w l) \<Longrightarrow> el_quit (loops w1 l)"
proof -
  let ?w0 = "on_loop (\<lambda>lp. lp\<lparr>el_calling_pending_functors := True, el_pending_functors := []\<rparr>) l w"
  from assms obtain w1 where w1: "foldE exec (el_pending_functors (loops w l)) ?w0 = Inr w1"
    and w': "w' = on_loop (\<lambda>lp. lp\<lparr>el_calling_pending_functors := False\<rparr>) l w1"
    by (auto simp: DoPendingFunctors_def Let_def andThen_eq_Inr)
  have "loop_kept (loops ?w0 l) (loops w1 l)"
    by (rule loops_keptD [OF execs_kept [OF w1]])
  then obtain new q where "loops w1 l = (loops ?w0 l)\<lparr>el_pending_functors := new, el_quit := el_quit (loops ?w0 l) \<or> q\<rparr>"
    by (auto simp: loop_kept_def)
  with w1 w' show ?thesis by (intro that [of w1 new]) simp_all
qed

lemma dispatch_kept:
  assumes "foldE (\<lambda>c w. HandleEvent run lock (el_poll_return_time (loops w l)) c w) cs w = Inr w'"
  shows "loops_kept w w'"
proof (rule loops_kept_foldE [OF assms])
  show "loops_kept w w'" if "HandleEvent run lock (el_poll_return_time (loops w l)) c w = Inr w'" for c w w'
    using that by (rule HandleEvent_kept)
qed

lemma iteration_keeps_loops:
  assumes "loop_iteration e run lock exec l w = Inr w'"
  obtains active t w2 where
    "loop_kept ((loops w l)\<lparr>el_poll_return_time := t, el_active_channels := active\<rparr>) (loops w2 l)"
    and "loop_in_this_thread w2 = loop_in_this_thread w"
    and "DoPendingFunctors exec l w2 = Inr w'"
proof -
  let ?w0 = "on_loop (\<lambda>lp. lp\<lparr>el_active_channels := []\<rparr>) l w"
  obtain now active wp where P: "Poll e l kPollTimeMs [] ?w0 = (now, active, wp)"
    by (cases "Poll e l kPollTimeMs [] ?w0") auto
  let ?w1 = "on_loop (\<lambda>lp. lp\<lparr>el_poll_return_time := now, el_active_channels := active\<rparr>) l wp"
  from assms P obtain w2 where
    w2: "foldE (\<lambda>c w. HandleEvent run lock (el_poll_return_time (loops w l)) c w) active ?w1 = Inr w2"
      "DoPendingFunctors exec l w2 = Inr w'"
    by (auto simp: loop_iteration_def Let_def andThen_eq_Inr)
  note kept = dispatch_kept [OF w2(1)]
  have "loop_kept (loops ?w1 l) (loops w2 l)" by (rule loops_keptD [OF kept])
  moreover have "loop_in_this_thread w2 = loop_in_this_thread ?w1" using kept by (simp add: loops_kept_def)
  ultimately show ?thesis using Poll_loops [OF P] w2(2) by (intro that [of active now w2]) simp_all
qed

text \<open>A queued closure that quits the loop makes the iteration that runs it the last one.\<close>

lemma quit_functor_ends_iteration:
  assumes it: "loop_iteration e run lock exec l w = Inr w'"
    and cb: "cb \<in> set (el_pending_functors (loops w l))"
    and quits: "\<And>w w'. exec cb w = Inr w' \<Longrightarrow> el_quit (loops w' l)"
  shows "el_quit (loops w' l)"
proof -
  obtain active t w2 where
    kept: "loop_kept ((loops w l)\<lparr>el_poll_return_time := t, el_active_channels := active\<rparr>) (loops w2 l)"
    and do: "DoPendingFunctors exec l w2 = Inr w'"
    using it by (rule iteration_keeps_loops)
  have "cb \<in> set (el_pending_functors (loops w2 l))"
    using loop_keptD(6) [OF kept] cb by auto
  then obtain xs ys where split: "el_pending_functors (loops w2 l) = xs @ cb # ys" by (meson split_list)
  obtain w3 where run: "foldE exec (xs @ cb # ys)
      (on_loop (\<lambda>lp. lp\<lparr>el_calling_pending_functors := True, el_pending_functors := []\<rparr>) l w2) = Inr w3"
    and w': "loops w' l = (loops w2 l)\<lparr>el_pending_functors := el_pending_functors (loops w3 l),
       el_calling_pending_functors := False, el_quit := el_quit (loops w3 l)\<rparr>"
    using batch [OF do] split by metis
  from run obtain wa wb where "exec cb wa = Inr wb" "foldE exec ys wb = Inr w3"
    by (auto simp: foldE_append andThen_eq_Inr)
  then have "el_quit (loops w3 l)"
    using quits loop_keptD(1) [OF loops_keptD [OF execs_kept]] by blast
  then show ?thesis using w' by simp
qed

lemma Loop_ends:
  assumes "loop_iteration e run lock exec l
      (on_loop (\<lambda>lp. lp\<lparr>el_looping := True, el_quit := False\<rparr>) l w) = Inr w'"
    and "el_quit (loops w' l)"
  shows "Loop (Suc n) e run lock exec l w = Some (Inr (on_loop (\<lambda>lp. lp\<lparr>el_looping := False\<rparr>) l w'))"
  using assms by (cases n) (simp_all add: Loop_def)

end

section \<open>Properties\<close>

lemma new_EventLoop_fatal_if_taken:
  "loop_in_this_thread w me \<noteq> None \<Longrightarrow> new_EventLoop e me l c w = Inl LogFatal"
  by (auto simp: new_EventLoop_def CreateEventfd_def Let_def andThen_def split: prod.splits sum.splits sysres.splits)


lemma on_chan_cong: "f (chans w c) = g (chans w c) \<Longrightarrow> on_chan f c w = on_chan g c w"
  by (simp add: on_chan_def)

lemma channel_interest:
  "EnableReading (Channel_Update e) c w =
     set_interest e (ch_loop (chans w c)) (ch_events (chans w c) OR kReadEvent) c w"
  "DisableReading (Channel_Update e) c w =
     set_interest e (ch_loop (chans w c)) (ch_events (chans w c) AND NOT kReadEvent) c w"
  "EnableWriting (Channel_Update e) c w =
     set_interest e (ch_loop (chans w c)) (ch_events (chans w c) OR kWriteEvent) c w"
  "DisableWriting (Channel_Update e) c w =
     set_interest e (ch_loop (chans w c)) (ch_events (chans w c) AND NOT kWriteEvent) c w"
  "DisableAll (Channel_Update e) c w = set_interest e (ch_loop (chans w c)) 0 c w"
  by (simp_all add: EnableReading_def DisableReading_def EnableWriting_def DisableWriting_def DisableAll_def
      set_interest_def Channel_Update_def EventLoop_UpdateChannel_def kNoneEvent_def on_chan_def)

text \<open>
  C28: one loop per thread. In a thread that has no loop the constructor succeeds: the loop
  belongs to that thread, has no pending functors, the kernel watches its eventfd for reading
  on behalf of its wakeup channel, whose read callback is \<open>HandleRead\<close>; and from then on every
  further constructor call in that thread ends in \<open>LOG_FATAL\<close>.
\<close>

theorem new_EventLoop_claims_thread:
  assumes "epoll_ctl_ok e ints" and "epoll_ctl_accepts e ints" and "epoll_create_ok e ints"
    and "eventfd_keeps e ints" and "loop_in_this_thread w me = None"
    and "sys_eventfd e (snd (sys_epoll_create1 e (kern w))) = (SysOk f, k)"
  shows "\<exists>w'. new_EventLoop e me l c w = Inr w' \<and> loop_in_this_thread w' me = Some l
      \<and> el_thread_id (loops w' l) = me \<and> el_pending_functors (loops w' l) = []
      \<and> poller_inv ints l w' \<and> kernel_interest ints l w' f = Some \<lparr>ev_events = kReadEvent, ev_data = c\<rparr>
      \<and> el_wakeup_channel (loops w' l) = c \<and> ch_read_callback (chans w' c) = Some (LoopHandleRead l)
      \<and> (\<forall>l2 c2. new_EventLoop e me l2 c2 w' = Inl LogFatal)"
proof -
  obtain ep k0 where ep: "sys_epoll_create1 e (kern w) = (ep, k0)" by fastforce
  let ?p = "\<lparr>po_channels = Map.empty, po_epoll_fd = ep, po_events_size = kInitEventListSize\<rparr>"
  let ?lp = "\<lparr>el_looping = False, el_quit = False, el_poll_return_time = 0, el_active_channels = [],
     el_thread_id = me, el_wakeup_fd = f, el_wakeup_channel = c, el_pending_functors = [],
     el_calling_pending_functors = False\<rparr>"
  let ?w1 = "w\<lparr>kern := k, chans := (chans w)(c := new_Channel l f), pollers := (pollers w)(l := ?p),
      loops := (loops w)(l := ?lp), loop_in_this_thread := (loop_in_this_thread w)(me := Some l)\<rparr>"
  have "ints k = ints k0" "ints k0 ep = (\<lambda>_. None)"
    using assms(3,4,6) ep by (auto simp: eventfd_keeps_def epoll_create_ok_def dest: spec [of _ k0])
  then have inv: "poller_inv ints l ?w1" "index_ok l c ?w1"
    by (simp_all add: poller_inv_def index_ok_def new_Channel_def kNew_def)
  obtain w2 where w2: "set_interest e l kReadEvent c ?w1 = Inr w2" "poller_inv ints l w2" "index_ok l c w2"
    "ch_index (chans w2 c) = (if ch_index (chans ?w1 c) = kAdded \<and> kReadEvent = 0 then kDeleted else kAdded)"
    by (rule set_interest_registers [OF assms(1,2) inv, of kReadEvent])
  have up: "EnableReading (Channel_Update e) c ?w1 = Inr w2"
    using w2(1) by (simp add: channel_interest new_Channel_def)
  note kept = Channel_Update_frame [OF up [unfolded EnableReading_def]]
  let ?w3 = "on_chan (SetReadCallback (LoopHandleRead l)) c w2"
  have new: "new_EventLoop e me l c w = Inr ?w3"
    using up assms(5,6) ep
    by (simp add: new_EventLoop_def NewDefaultPoller_def new_EpollPoller_def CreateEventfd_def Let_def)
  have "poller_inv ints l ?w3"
    by (rule poller_inv_cong [OF w2(2)]) (simp_all add: SetReadCallback_def)
  moreover have "kernel_interest ints l ?w3 f = Some \<lparr>ev_events = kReadEvent, ev_data = c\<rparr>"
    using poller_inv_index [OF w2(2,3)] w2(4) set_interest_fd [OF w2(1)]
    by (simp add: kernel_interest_def registration_def new_Channel_def kAdded_def)
  ultimately show ?thesis
    using new kept by (intro exI [of _ ?w3]) (simp add: SetReadCallback_def new_EventLoop_fatal_if_taken)
qed


definition sample_loop :: event_loop where
  "sample_loop = \<lparr>el_looping = False, el_quit = False, el_poll_return_time = 0, el_active_channels = [],
     el_thread_id = 100, el_wakeup_fd = 5, el_wakeup_channel = 9, el_pending_functors = [],
     el_calling_pending_functors = False\<rparr>"

definition sample_loop_world :: "test_kernel loop_world" where
  "sample_loop_world =
     \<lparr>kern = test_kernel0\<lparr>tk_accept := 8\<rparr>, trace = [], chans = (\<lambda>c. new_Channel 0 (int c)),
      pollers = (\<lambda>_. \<lparr>po_channels = Map.empty, po_epoll_fd = 4, po_events_size = 16\<rparr>),
      loops = (\<lambda>_. sample_loop), loop_in_this_thread = (\<lambda>_. None)\<rparr>"

text \<open>A kernel whose \<open>epoll_create1\<close> resets the interest list of the instance it returns.\<close>

definition create_env :: "test_kernel env" where
  "create_env = test_env\<lparr>sys_epoll_create1 := (\<lambda>k. (4, k\<lparr>tk_ints := (tk_ints k)(4 := (\<lambda>_. None))\<rparr>))\<rparr>"

lemma create_env_ok: "epoll_ctl_ok create_env tk_ints" "epoll_ctl_accepts create_env tk_ints"
  "epoll_create_ok create_env tk_ints" "eventfd_keeps create_env tk_ints"
proof -
  have "sys_epoll_ctl create_env = sys_epoll_ctl test_env" by (simp add: create_env_def)
  then show "epoll_ctl_ok create_env tk_ints" "epoll_ctl_accepts create_env tk_ints"
    using test_env_ok(3,4) unfolding epoll_ctl_ok_def epoll_ctl_accepts_def by simp_all
  show "epoll_create_ok create_env tk_ints" "eventfd_keeps create_env tk_ints"
    by (auto simp: create_env_def epoll_create_ok_def eventfd_keeps_def test_env_def)
qed

theorem new_EventLoop_claims_thread_witness:
  "\<exists>w'. new_EventLoop create_env 100 0 9 sample_loop_world = Inr w' \<and> loop_in_this_thread w' 100 = Some 0
      \<and> kernel_interest tk_ints 0 w' 5 = Some \<lparr>ev_events = kReadEvent, ev_data = 9\<rparr>"
proof -
  have "loop_in_this_thread sample_loop_world 100 = None" by (simp add: sample_loop_world_def)
  moreover have "sys_eventfd create_env (snd (sys_epoll_create1 create_env (kern sample_loop_world)))
      = (SysOk 5, snd (sys_epoll_create1 create_env (kern sample_loop_world)))"
    by (simp add: create_env_def test_env_def)
  ultimately show ?thesis
    using new_EventLoop_claims_thread [OF create_env_ok, of sample_loop_world 100 5 _ 0 9] by blast
qed

text \<open>
  The destructor undoes the constructor. It succeeds from every state in which the poller
  and the kernel agree on the wakeup channel: afterwards the poller does not know that channel,
  the eventfd has been closed and the thread may construct a loop again.
\<close>

theorem delete_EventLoop_releases_thread:
  assumes "epoll_inv e ints l w" and "c = el_wakeup_channel (loops w l)" and "index_ok l c w"
    and "ch_loop (chans w c) = l"
  shows "\<exists>w'. delete_EventLoop e me l w = Inr w' \<and> loop_in_this_thread w' me = None \<and> \<not> HasChannel l c w'
      \<and> Closed (el_wakeup_fd (loops w l)) \<in> set (trace w') \<and> loops w' = loops w"
proof -
  obtain w1 w2 where w1: "set_interest e l 0 c w = Inr w1" and w2: "RemoveChannel e l c w1 = Inr w2"
    and gone: "\<not> HasChannel l c w2"
    using epi.retire [OF assms(1,3)] by blast
  have d: "DisableAll (Channel_Update e) c w = Inr w1"
    using w1 assms(4) by (simp add: channel_interest)
  note f1 = Channel_Update_frame [OF d [unfolded DisableAll_def]]
  have "ch_loop (chans w1 c) = l" using f1(4) assms(4) by auto
  then have r: "Channel_Remove e c w1 = Inr w2" using w2 by (simp add: Channel_Remove_def EventLoop_RemoveChannel_def)
  note f2 = Channel_Remove_frame [OF r]
  show ?thesis
    using d r gone f1 f2 assms(2)
    by (simp add: delete_EventLoop_def Let_def delete_EpollPoller_def HasChannel_def)
qed

theorem delete_EventLoop_releases_thread_witness:
  "\<exists>w'. delete_EventLoop test_env 100 0 sample_loop_world = Inr w' \<and> loop_in_this_thread w' 100 = None
      \<and> Closed 5 \<in> set (trace w')"
proof -
  have "poller_inv tk_ints 0 sample_loop_world" "index_ok 0 9 sample_loop_world"
    "el_wakeup_channel (loops sample_loop_world 0) = 9" "el_wakeup_fd (loops sample_loop_world 0) = 5"
    "ch_loop (chans sample_loop_world 9) = 0"
    by (simp_all add: sample_loop_world_def sample_loop_def poller_inv_def index_ok_def new_Channel_def
        kNew_def test_kernel0_def)
  then show ?thesis
    using delete_EventLoop_releases_thread [of test_env tk_ints 0 sample_loop_world 9 100] test_env_ok
    by (auto simp: epoll_inv_def)
qed

text \<open>
  \<open>QueueInLoop\<close> appends the functor to the end of the queue and changes no other loop; when
  the caller is another thread, or the loop is in the middle of its pending functors, the
  eventfd's counter is positive afterwards, so the next \<open>Poll\<close> does not block; otherwise (the
  loop's own thread, before \<open>DoPendingFunctors\<close>) it makes no system call.
\<close>

theorem QueueInLoop_appends_and_wakes:
  assumes "eventfd_write_ok e cnt"
  shows "loops (QueueInLoop e me l cb w) = (loops w)(l := (loops w l)
           \<lparr>el_pending_functors := el_pending_functors (loops w l) @ [cb]\<rparr>)
    \<and> (if IsInLoopThread me l w \<and> \<not> el_calling_pending_functors (loops w l)
       then kern (QueueInLoop e me l cb w) = kern w
       else 0 < cnt (kern (QueueInLoop e me l cb w)) (el_wakeup_fd (loops w l)))"
proof -
  have wake: "0 < cnt (kern (Wakeup e l u)) (el_wakeup_fd (loops u l))" for u
    using eventfd_write_okD [OF assms] by (auto simp: Wakeup_def wakeup_one_def split: prod.split)
  show ?thesis
    using wake [of "on_loop (\<lambda>lp. lp\<lparr>el_pending_functors := el_pending_functors lp @ [cb]\<rparr>) l w"]
    by (auto simp: QueueInLoop_def Let_def IsInLoopThread_def)
qed

text \<open>A kernel with one eventfd counter, kept in \<open>tk_accept\<close>.\<close>

definition counter_env :: "test_kernel env" where
  "counter_env = test_env\<lparr>sys_write := (\<lambda>f bs k. if tk_accept k < 2 ^ 64 - 2
     then (SysOk (length bs), k\<lparr>tk_accept := tk_accept k + 1\<rparr>) else (SysErr EWOULDBLOCK, k))\<rparr>"

definition test_counter :: "test_kernel \<Rightarrow> fd \<Rightarrow> nat" where
  "test_counter k f = min (tk_accept k) (2 ^ 64 - 2)"

lemma counter_env_ok: "eventfd_write_ok counter_env test_counter"
  by (auto simp: eventfd_write_ok_def counter_env_def test_counter_def)

theorem QueueInLoop_appends_and_wakes_witness:
  "el_pending_functors (loops (QueueInLoop counter_env 101 0 (FUser 1) sample_loop_world) 0) = [FUser 1]
   \<and> 0 < test_counter (kern (QueueInLoop counter_env 101 0 (FUser 1) sample_loop_world)) 5"
  using QueueInLoop_appends_and_wakes [OF counter_env_ok, of 101 0 "FUser 1" sample_loop_world]
  by (simp add: sample_loop_world_def sample_loop_def IsInLoopThread_def)

text \<open>
  C39: a \<open>Quit\<close> that comes before \<open>Loop\<close> is lost. \<open>Loop\<close> clears \<open>quit_\<close> on entry, so running it
  after \<open>Quit\<close> is the same as running it after a mere wakeup: the loop does not end because of
  it. A destructor of \<open>EventLoopThread\<close> that runs between the start handshake and \<open>Loop\<close>
  therefore joins a thread that never ends.
\<close>

theorem Quit_before_Loop_is_lost:
  "Loop n e run lock exec l (Quit e me l w) =
   Loop n e run lock exec l (if IsInLoopThread me l w then w else Wakeup e l w)"
proof -
  have commute: "on_loop f l (Wakeup e l (on_loop g l w)) = on_loop (f \<circ> g) l (Wakeup e l w)"
    if "\<And>lp. el_wakeup_fd (g lp) = el_wakeup_fd lp" for f g
    using that by (simp add: Wakeup_def on_loop_def split: prod.split)
  have "(\<lambda>lp. lp\<lparr>el_looping := True, el_quit := False\<rparr>) \<circ> (\<lambda>lp. lp\<lparr>el_quit := True\<rparr>)
      = (\<lambda>lp. lp\<lparr>el_looping := True, el_quit := False\<rparr>)"
    by (simp add: fun_eq_iff)
  note clear = this [unfolded comp_def]
  show ?thesis
    by (simp add: Loop_def Quit_def Let_def IsInLoopThread_def commute comp_def clear)
qed

end
