(* ===== verification/Loop_Protocol.thy ===== *)
theory Loop_Protocol
  imports Event_Loop
begin

text \<open>
  \<open>EventLoop::QueueInLoop\<close>, \<open>Quit\<close>, \<open>Loop\<close> and \<open>DoPendingFunctors\<close> of one loop under concurrency
  (src/event_loop.cpp). Every access of a thread to the shared data (the queue under its mutex,
  the atomics \<open>quit_\<close> and \<open>calling_pending_functors_\<close>, the eventfd's counter) is one step of an
  interleaving, so a thread may be stopped between pushing a functor and writing the eventfd.
  The history variables \<open>pr_pushed\<close> and \<open>pr_executed\<close> record what was queued and what ran.
\<close>

section \<open>State\<close>

text \<open>Where the loop's thread is in \<open>Loop\<close>; \<open>Handling b\<close> still has to read the eventfd iff \<open>b\<close>.\<close>

datatype loop_pc = Outside | AtWhile | InPoll | Handling bool | Swapping | Running

text \<open>Where a thread is in \<open>QueueInLoop\<close> or \<open>Quit\<close>: between the first and the second statement.\<close>

datatype caller_pc = Idle | Queued | QuitSet

record 'f protocol =
  pr_pc :: loop_pc
  pr_pending :: "'f list"
  pr_batch :: "'f list"
  pr_quit :: bool
  pr_calling :: bool
  pr_counter :: nat
  pr_callers :: "tid \<Rightarrow> caller_pc"
  pr_pushed :: "'f list"
  pr_executed :: "'f list"
  pr_early :: bool

definition eventfd_max :: nat where "eventfd_max = 2 ^ 64 - 2"

definition protocol_init :: "'f protocol" where
  "protocol_init = \<lparr>pr_pc = Outside, pr_pending = [], pr_batch = [], pr_quit = False, pr_calling = False,
     pr_counter = 0, pr_callers = (\<lambda>_. Idle), pr_pushed = [], pr_executed = [], pr_early = False\<rparr>"

section \<open>Steps\<close>

text \<open>\<open>Wakeup\<close>: the counter grows by one; at its maximum the write fails and leaves it there.\<close>

definition wake :: "'f protocol \<Rightarrow> 'f protocol" where
  "wake s = s\<lparr>pr_counter := min (pr_counter s + 1) eventfd_max\<rparr>"

text \<open>
  \<open>QueueInLoop\<close> by thread \<open>t\<close>, \<open>lt\<close> being the loop's own thread: \<open>push_back\<close> under the mutex, then
  the test and the wakeup. \<open>pr_early\<close> remembers that the loop's own thread queued outside \<open>Loop\<close>.
\<close>

definition queue_push :: "tid \<Rightarrow> tid \<Rightarrow> 'f \<Rightarrow> 'f protocol \<Rightarrow> 'f protocol" where
  "queue_push lt t f s = s\<lparr>pr_pending := pr_pending s @ [f], pr_pushed := pr_pushed s @ [f],
     pr_callers := (pr_callers s)(t := Queued), pr_early := pr_early s \<or> (t = lt \<and> pr_pc s = Outside)\<rparr>"

definition queue_wake :: "tid \<Rightarrow> tid \<Rightarrow> 'f protocol \<Rightarrow> 'f protocol" where
  "queue_wake lt t s = (if t \<noteq> lt \<or> pr_calling s then wake s else s)\<lparr>pr_callers := (pr_callers s)(t := Idle)\<rparr>"

definition quit_set :: "tid \<Rightarrow> 'f protocol \<Rightarrow> 'f protocol" where
  "quit_set t s = s\<lparr>pr_quit := True, pr_callers := (pr_callers s)(t := QuitSet)\<rparr>"

definition quit_wake :: "tid \<Rightarrow> tid \<Rightarrow> 'f protocol \<Rightarrow> 'f protocol" where
  "quit_wake lt t s = (if t \<noteq> lt then wake s else s)\<lparr>pr_callers := (pr_callers s)(t := Idle)\<rparr>"

text \<open>The loop's thread between two statements of \<open>Loop\<close>; \<open>None\<close> when \<open>epoll_wait\<close> blocks.\<close>

definition loop_next :: "'f protocol \<Rightarrow> 'f protocol option" where
  "loop_next s = (case pr_pc s of
      Outside \<Rightarrow> None
    | AtWhile \<Rightarrow> Some (s\<lparr>pr_pc := (if pr_quit s then Outside else InPoll)\<rparr>)
    | InPoll \<Rightarrow> if 0 < pr_counter s then Some (s\<lparr>pr_pc := Handling True\<rparr>) else None
    | Handling True \<Rightarrow> Some (s\<lparr>pr_pc := Handling False, pr_counter := 0\<rparr>)
    | Handling False \<Rightarrow> Some (s\<lparr>pr_pc := Swapping, pr_calling := True\<rparr>)
    | Swapping \<Rightarrow> Some (s\<lparr>pr_pc := Running, pr_batch := pr_pending s, pr_pending := [], pr_early := False\<rparr>)
    | Running \<Rightarrow> (case pr_batch s of
          [] \<Rightarrow> Some (s\<lparr>pr_pc := AtWhile, pr_calling := False\<rparr>)
        | f # fs \<Rightarrow> Some (s\<lparr>pr_batch := fs, pr_executed := pr_executed s @ [f]\<rparr>)))"

definition loop_enter :: "'f protocol \<Rightarrow> 'f protocol" where
  "loop_enter s = s\<lparr>pr_pc := AtWhile, pr_quit := False\<rparr>"

text \<open>The loop's own thread runs closures, and so may call the loop, in these places only.\<close>

definition in_closure :: "loop_pc \<Rightarrow> bool" where
  "in_closure pc \<longleftrightarrow> pc = Outside \<or> pc = Running \<or> (\<exists>b. pc = Handling b)"

inductive protocol_step :: "tid \<Rightarrow> 'f protocol \<Rightarrow> 'f protocol \<Rightarrow> bool" for lt :: tid where
  enter: "pr_pc s = Outside \<Longrightarrow> pr_callers s lt = Idle \<Longrightarrow> protocol_step lt s (loop_enter s)"
| loop: "pr_callers s lt = Idle \<Longrightarrow> loop_next s = Some s' \<Longrightarrow> protocol_step lt s s'"
| timeout_or_event: "pr_pc s = InPoll \<Longrightarrow> protocol_step lt s (s\<lparr>pr_pc := Handling (0 < pr_counter s)\<rparr>)"
| push: "pr_callers s t = Idle \<Longrightarrow> (t = lt \<longrightarrow> in_closure (pr_pc s)) \<Longrightarrow> protocol_step lt s (queue_push lt t f s)"
| push_done: "pr_callers s t = Queued \<Longrightarrow> protocol_step lt s (queue_wake lt t s)"
| quit: "pr_callers s t = Idle \<Longrightarrow> (t = lt \<longrightarrow> in_closure (pr_pc s)) \<Longrightarrow> protocol_step lt s (quit_set t s)"
| quit_done: "pr_callers s t = QuitSet \<Longrightarrow> protocol_step lt s (quit_wake lt t s)"

inductive reachable :: "tid \<Rightarrow> 'f protocol \<Rightarrow> bool" for lt :: tid where
  init: "reachable lt protocol_init"
| step: "reachable lt s \<Longrightarrow> protocol_step lt s s' \<Longrightarrow> reachable lt s'"

section \<open>Invariants\<close>

text \<open>Exactly once and in order: what was queued is what ran, what is about to run, what waits.\<close>

definition fifo_inv :: "'f protocol \<Rightarrow> bool" where
  "fifo_inv s \<longleftrightarrow> pr_pushed s = pr_executed s @ pr_batch s @ pr_pending s \<and> (pr_batch s \<noteq> [] \<longrightarrow> pr_pc s = Running)"

text \<open>A thread that still has to write the eventfd, of those whose write counts.\<close>

definition waker :: "tid \<Rightarrow> caller_pc \<Rightarrow> 'f protocol \<Rightarrow> bool" where
  "waker lt c s \<longleftrightarrow> (\<exists>t. pr_callers s t = c \<and> (t \<noteq> lt \<or> pr_calling s))"

definition calling_ok :: "'f protocol \<Rightarrow> bool" where
  "calling_ok s \<longleftrightarrow> pr_calling s = (pr_pc s = Swapping \<or> pr_pc s = Running)"

definition own_ok :: "tid \<Rightarrow> 'f protocol \<Rightarrow> bool" where
  "own_ok lt s \<longleftrightarrow> (pr_callers s lt \<noteq> Idle \<longrightarrow> in_closure (pr_pc s))"

text \<open>From \<open>Handling\<close> and \<open>Swapping\<close> the swap is still to come in this iteration.\<close>

definition swap_passed :: "loop_pc \<Rightarrow> bool" where
  "swap_passed pc \<longleftrightarrow> pc = Running \<or> pc = AtWhile \<or> pc = InPoll \<or> pc = Outside"

definition pending_ok :: "tid \<Rightarrow> 'f protocol \<Rightarrow> bool" where
  "pending_ok lt s \<longleftrightarrow>
     (swap_passed (pr_pc s) \<and> pr_pending s \<noteq> [] \<longrightarrow> 0 < pr_counter s \<or> waker lt Queued s \<or> pr_early s)"

definition quit_ok :: "tid \<Rightarrow> 'f protocol \<Rightarrow> bool" where
  "quit_ok lt s \<longleftrightarrow>
     (pr_pc s = InPoll \<and> pr_quit s \<longrightarrow> 0 < pr_counter s \<or> (\<exists>t. t \<noteq> lt \<and> pr_callers s t = QuitSet))"

definition wakeup_inv :: "tid \<Rightarrow> 'f protocol \<Rightarrow> bool" where
  "wakeup_inv lt s \<longleftrightarrow> calling_ok s \<and> own_ok lt s \<and> pending_ok lt s \<and> quit_ok lt s"

lemmas pc_preds = calling_ok_def own_ok_def in_closure_def swap_passed_def

lemmas protocol_ops = queue_push_def queue_wake_def quit_set_def quit_wake_def loop_enter_def wake_def eventfd_max_def

lemma fifo_inv_step:
  assumes "protocol_step lt s s'" and "fifo_inv s"
  shows "fifo_inv s'"
  using assms
  by (cases rule: protocol_step.cases)
     (auto simp: fifo_inv_def protocol_ops loop_next_def split: loop_pc.splits bool.splits list.splits if_splits)

lemma wake_sel [simp]:
  "pr_pc (wake s) = pr_pc s" "pr_pending (wake s) = pr_pending s" "pr_batch (wake s) = pr_batch s"
  "pr_quit (wake s) = pr_quit s" "pr_calling (wake s) = pr_calling s" "pr_callers (wake s) = pr_callers s"
  "pr_pushed (wake s) = pr_pushed s" "pr_executed (wake s) = pr_executed s" "pr_early (wake s) = pr_early s"
  "0 < pr_counter (wake s)"
  by (simp_all add: wake_def eventfd_max_def)


lemma queue_push_sel [simp]:
  "pr_pc (queue_push lt t f s) = pr_pc s" "pr_pending (queue_push lt t f s) = pr_pending s @ [f]"
  "pr_quit (queue_push lt t f s) = pr_quit s" "pr_calling (queue_push lt t f s) = pr_calling s"
  "pr_counter (queue_push lt t f s) = pr_counter s" "pr_callers (queue_push lt t f s) = (pr_callers s)(t := Queued)"
  "pr_early (queue_push lt t f s) \<longleftrightarrow> pr_early s \<or> t = lt \<and> pr_pc s = Outside"
  by (simp_all add: queue_push_def)

lemma queue_wake_sel [simp]:
  "pr_pc (queue_wake lt t s) = pr_pc s" "pr_pending (queue_wake lt t s) = pr_pending s"
  "pr_quit (queue_wake lt t s) = pr_quit s" "pr_calling (queue_wake lt t s) = pr_calling s"
  "pr_callers (queue_wake lt t s) = (pr_callers s)(t := Idle)" "pr_early (queue_wake lt t s) = pr_early s"
  by (simp_all add: queue_wake_def)

lemma quit_set_sel [simp]:
  "pr_pc (quit_set t s) = pr_pc s" "pr_pending (quit_set t s) = pr_pending s" "pr_quit (quit_set t s)"
  "pr_calling (quit_set t s) = pr_calling s" "pr_counter (quit_set t s) = pr_counter s"
  "pr_callers (quit_set t s) = (pr_callers s)(t := QuitSet)" "pr_early (quit_set t s) = pr_early s"
  by (simp_all add: quit_set_def)

lemma quit_wake_sel [simp]:
  "pr_pc (quit_wake lt t s) = pr_pc s" "pr_pending (quit_wake lt t s) = pr_pending s"
  "pr_quit (quit_wake lt t s) = pr_quit s" "pr_calling (quit_wake lt t s) = pr_calling s"
  "pr_callers (quit_wake lt t s) = (pr_callers s)(t := Idle)" "pr_early (quit_wake lt t s) = pr_early s"
  by (simp_all add: quit_wake_def)

lemma counter_mono:
  "t \<noteq> lt \<or> pr_calling s \<Longrightarrow> 0 < pr_counter (queue_wake lt t s)"
  "t \<noteq> lt \<Longrightarrow> 0 < pr_counter (quit_wake lt t s)"
  "\<not> (t \<noteq> lt \<or> pr_calling s) \<Longrightarrow> pr_counter (queue_wake lt t s) = pr_counter s"
  "t = lt \<Longrightarrow> pr_counter (quit_wake lt t s) = pr_counter s"
  by (simp_all add: queue_wake_def quit_wake_def)

lemma wakerI: "pr_callers s t = c \<Longrightarrow> t \<noteq> lt \<or> pr_calling s \<Longrightarrow> waker lt c s"
  by (auto simp: waker_def)

lemma waker_upd:
  assumes "waker lt c s" and "pr_callers s' = (pr_callers s)(t := d)" and "pr_callers s t \<noteq> c"
    and "pr_calling s' = pr_calling s"
  shows "waker lt c s'"
  using assms by (auto simp: waker_def)

lemma wakeup_inv_push:
  assumes inv: "wakeup_inv lt s" and idle: "pr_callers s t = Idle" and own: "t = lt \<longrightarrow> in_closure (pr_pc s)"
  shows "wakeup_inv lt (queue_push lt t f s)"
proof -
  have "waker lt Queued (queue_push lt t f s)" if "t \<noteq> lt \<or> pr_pc s = Running"
    using that inv by (intro wakerI [of _ t]) (auto simp: wakeup_inv_def calling_ok_def)
  then have "pending_ok lt (queue_push lt t f s)"
    using own by (auto simp: pending_ok_def pc_preds)
  moreover have "calling_ok (queue_push lt t f s)" "own_ok lt (queue_push lt t f s)"
    using inv own by (auto simp: wakeup_inv_def calling_ok_def own_ok_def)
  moreover have "quit_ok lt (queue_push lt t f s)"
    using inv idle unfolding wakeup_inv_def quit_ok_def by (simp, metis caller_pc.distinct(3))
  ultimately show ?thesis by (simp add: wakeup_inv_def)
qed

lemma wakeup_inv_push_done:
  assumes inv: "wakeup_inv lt s" and queued: "pr_callers s t = Queued"
  shows "wakeup_inv lt (queue_wake lt t s)"
proof -
  have "waker lt Queued s \<Longrightarrow> waker lt Queued (queue_wake lt t s)" if "\<not> (t \<noteq> lt \<or> pr_calling s)"
    using that unfolding waker_def by auto
  then have "pending_ok lt (queue_wake lt t s)"
    using inv counter_mono(1,3) [of t lt s] unfolding wakeup_inv_def pending_ok_def by fastforce
  moreover have "calling_ok (queue_wake lt t s)" "own_ok lt (queue_wake lt t s)"
    using inv by (auto simp: wakeup_inv_def calling_ok_def own_ok_def)
  moreover have "quit_ok lt (queue_wake lt t s)"
    using inv queued counter_mono(1,3) [of t lt s] unfolding wakeup_inv_def quit_ok_def
    by (simp, metis caller_pc.distinct(5) not_gr_zero)
  ultimately show ?thesis by (simp add: wakeup_inv_def)
qed

lemma wakeup_inv_quit:
  assumes inv: "wakeup_inv lt s" and idle: "pr_callers s t = Idle" and own: "t = lt \<longrightarrow> in_closure (pr_pc s)"
  shows "wakeup_inv lt (quit_set t s)"
proof -
  have "pending_ok lt (quit_set t s)"
    using inv waker_upd [of lt Queued s "quit_set t s" t QuitSet] idle
    by (auto simp: wakeup_inv_def pending_ok_def)
  moreover have "calling_ok (quit_set t s)" "own_ok lt (quit_set t s)"
    using inv own by (auto simp: wakeup_inv_def calling_ok_def own_ok_def)
  moreover have "quit_ok lt (quit_set t s)"
    using own by (auto simp: quit_ok_def in_closure_def)
  ultimately show ?thesis by (simp add: wakeup_inv_def)
qed

lemma wakeup_inv_quit_done:
  assumes inv: "wakeup_inv lt s" and set: "pr_callers s t = QuitSet"
  shows "wakeup_inv lt (quit_wake lt t s)"
proof -
  have counter: "0 < pr_counter s \<Longrightarrow> 0 < pr_counter (quit_wake lt t s)"
    using counter_mono(2,4) [of t lt s] by (cases "t = lt") simp_all
  then have "pending_ok lt (quit_wake lt t s)"
    using inv waker_upd [of lt Queued s "quit_wake lt t s" t Idle] set
    by (auto simp: wakeup_inv_def pending_ok_def)
  moreover have "calling_ok (quit_wake lt t s)" "own_ok lt (quit_wake lt t s)"
    using inv by (auto simp: wakeup_inv_def calling_ok_def own_ok_def)
  moreover have "quit_ok lt (quit_wake lt t s)"
    using inv set counter counter_mono(2) [of t lt s] unfolding wakeup_inv_def quit_ok_def
    by (cases "t = lt") (simp_all, metis)
  ultimately show ?thesis by (simp add: wakeup_inv_def)
qed


text \<open>The eight moves of the loop's thread.\<close>

lemma loop_next_cases [consumes 1, case_names stop poll woken read mark swap finish runs]:
  assumes "loop_next s = Some s'"
  obtains "pr_pc s = AtWhile" "pr_quit s" "s' = s\<lparr>pr_pc := Outside\<rparr>"
  | "pr_pc s = AtWhile" "\<not> pr_quit s" "s' = s\<lparr>pr_pc := InPoll\<rparr>"
  | "pr_pc s = InPoll" "0 < pr_counter s" "s' = s\<lparr>pr_pc := Handling True\<rparr>"
  | "pr_pc s = Handling True" "s' = s\<lparr>pr_pc := Handling False, pr_counter := 0\<rparr>"
  | "pr_pc s = Handling False" "s' = s\<lparr>pr_pc := Swapping, pr_calling := True\<rparr>"
  | "pr_pc s = Swapping"
    "s' = s\<lparr>pr_pc := Running, pr_batch := pr_pending s, pr_pending := [], pr_early := False\<rparr>"
  | "pr_pc s = Running" "pr_batch s = []" "s' = s\<lparr>pr_pc := AtWhile, pr_calling := False\<rparr>"
  | f fs where "pr_pc s = Running" "pr_batch s = f # fs"
    "s' = s\<lparr>pr_batch := fs, pr_executed := pr_executed s @ [f]\<rparr>"
  using assms by (auto simp: loop_next_def split: loop_pc.splits bool.splits list.splits if_splits)

lemma waker_same:
  "pr_callers s' = pr_callers s \<Longrightarrow> pr_calling s' = pr_calling s \<Longrightarrow> waker lt c s' = waker lt c s"
  by (simp add: waker_def)

lemma pending_ok_same:
  assumes "pending_ok lt s" and "swap_passed (pr_pc s') \<Longrightarrow> swap_passed (pr_pc s)"
    and "pr_pending s' = pr_pending s" "pr_counter s' = pr_counter s" "pr_early s' = pr_early s"
    and "waker lt Queued s \<Longrightarrow> waker lt Queued s'"
  shows "pending_ok lt s'"
  using assms by (auto simp: pending_ok_def)

lemma wakeup_inv_loop:
  assumes inv: "wakeup_inv lt s" and idle: "pr_callers s lt = Idle" and nxt: "loop_next s = Some s'"
  shows "wakeup_inv lt s'"
proof -
  have callers: "pr_callers s' = pr_callers s"
    using nxt by (cases rule: loop_next_cases) simp_all
  then have own: "own_ok lt s'" using idle by (simp add: own_ok_def)
  have calling: "calling_ok s'"
    using nxt inv by (cases rule: loop_next_cases) (simp_all add: wakeup_inv_def calling_ok_def)
  have waker: "waker lt Queued s \<Longrightarrow> waker lt Queued s'"
    using idle callers by (auto simp: waker_def)
  have pend: "pending_ok lt s" using inv by (simp add: wakeup_inv_def)
  have "pending_ok lt s'"
    using nxt
  proof (cases rule: loop_next_cases)
    case swap
    then show ?thesis by (simp add: pending_ok_def)
  qed (use pend waker in \<open>auto intro!: pending_ok_same [OF pend] simp: swap_passed_def pending_ok_def\<close>)
  moreover have "quit_ok lt s'"
    using nxt by (cases rule: loop_next_cases) (simp_all add: quit_ok_def)
  ultimately show ?thesis using own calling by (simp add: wakeup_inv_def)
qed

lemma wakeup_inv_enter:
  assumes "wakeup_inv lt s" and "pr_pc s = Outside" and "pr_callers s lt = Idle"
  shows "wakeup_inv lt (loop_enter s)"
  using assms waker_same [of "loop_enter s" s lt Queued]
  by (simp add: wakeup_inv_def calling_ok_def own_ok_def pending_ok_def quit_ok_def loop_enter_def swap_passed_def)

lemma wakeup_inv_timeout:
  assumes "wakeup_inv lt s" and "pr_pc s = InPoll"
  shows "wakeup_inv lt (s\<lparr>pr_pc := Handling (0 < pr_counter s)\<rparr>)"
  using assms
  by (simp add: wakeup_inv_def calling_ok_def own_ok_def pending_ok_def quit_ok_def swap_passed_def in_closure_def)

lemma wakeup_inv_step:
  assumes "protocol_step lt s s'" and "wakeup_inv lt s"
  shows "wakeup_inv lt s'"
  using assms(1)
proof cases
  case (push t f)
  show ?thesis unfolding push(1) by (rule wakeup_inv_push [OF assms(2) push(2,3)])
next
  case (push_done t)
  show ?thesis unfolding push_done(1) by (rule wakeup_inv_push_done [OF assms(2) push_done(2)])
next
  case (quit t)
  show ?thesis unfolding quit(1) by (rule wakeup_inv_quit [OF assms(2) quit(2,3)])
next
  case (quit_done t)
  show ?thesis unfolding quit_done(1) by (rule wakeup_inv_quit_done [OF assms(2) quit_done(2)])
qed (use assms(2) in \<open>simp_all add: wakeup_inv_enter wakeup_inv_loop wakeup_inv_timeout\<close>)

lemma reachable_inv:
  assumes "reachable lt s"
  shows "fifo_inv s \<and> wakeup_inv lt s"
  using assms
proof induction
  case init
  show ?case
    by (simp add: fifo_inv_def wakeup_inv_def calling_ok_def own_ok_def pending_ok_def quit_ok_def protocol_init_def)
next
  case (step s s')
  then show ?case using fifo_inv_step wakeup_inv_step by blast
qed

section \<open>Running the loop's thread alone\<close>

primrec loop_run :: "nat \<Rightarrow> 'f protocol \<Rightarrow> 'f protocol option" where
  "loop_run 0 s = Some s"
| "loop_run (Suc n) s = Option.bind (loop_next s) (loop_run n)"

lemma loop_run_add: "loop_run (m + n) s = Option.bind (loop_run m s) (loop_run n)"
  by (induction m arbitrary: s) (simp_all add: bind_assoc cong: bind_option_cong)

lemma run_batch:
  assumes "pr_pc s = Running"
  shows "loop_run (Suc (length (pr_batch s))) s = Some (s\<lparr>pr_batch := [], pr_pc := AtWhile,
    pr_calling := False, pr_executed := pr_executed s @ pr_batch s\<rparr>)"
  using assms
proof (induction "pr_batch s" arbitrary: s)
  case Nil
  from Nil(1) [symmetric] Nil(2) show ?case by (simp add: loop_next_def)
next
  case (Cons f fs)
  let ?s1 = "s\<lparr>pr_batch := fs, pr_executed := pr_executed s @ [f]\<rparr>"
  have nxt: "loop_next s = Some ?s1" using Cons.prems Cons.hyps(2) [symmetric] by (simp add: loop_next_def)
  have "loop_run (Suc (length (pr_batch ?s1))) ?s1 = Some (?s1\<lparr>pr_batch := [], pr_pc := AtWhile,
      pr_calling := False, pr_executed := pr_executed ?s1 @ pr_batch ?s1\<rparr>)"
    by (rule Cons.hyps(1)) (simp_all add: Cons.prems)
  then have "loop_run (Suc (length fs)) ?s1 = Some (s\<lparr>pr_batch := [], pr_pc := AtWhile,
      pr_calling := False, pr_executed := pr_executed s @ f # fs\<rparr>)"
    by (simp del: loop_run.simps)
  then show ?case
    unfolding Cons.hyps(2) [symmetric] by (simp add: nxt del: loop_run.simps(2) add: loop_run.simps(2) [of "Suc _"])
qed


lemma loop_run_Some_trans:
  "loop_run m s = Some s1 \<Longrightarrow> loop_run n s1 = Some s2 \<Longrightarrow> loop_run (m + n) s = Some s2"
  by (simp add: loop_run_add)

text \<open>From \<open>Handling\<close> the rest of the iteration runs everything that is pending.\<close>

lemma run_iteration:
  assumes "pr_pc s = Handling False" and "pr_batch s = []"
  shows "\<exists>n s'. loop_run n s = Some s' \<and> pr_executed s' = pr_executed s @ pr_pending s \<and> pr_pending s' = []"
proof -
  let ?s2 = "s\<lparr>pr_calling := True, pr_pc := Running, pr_batch := pr_pending s, pr_pending := [], pr_early := False\<rparr>"
  have "loop_run 2 s = Some ?s2" using assms by (simp add: loop_next_def numeral_2_eq_2)
  moreover have "loop_run (Suc (length (pr_batch ?s2))) ?s2 = Some (?s2\<lparr>pr_batch := [], pr_pc := AtWhile,
      pr_calling := False, pr_executed := pr_executed ?s2 @ pr_batch ?s2\<rparr>)"
    by (rule run_batch) simp
  ultimately show ?thesis
    by (intro exI conjI, rule loop_run_Some_trans) simp_all
qed

lemma run_handling:
  assumes "pr_pc s = Handling b" and "pr_batch s = []"
  shows "\<exists>n s'. loop_run n s = Some s' \<and> pr_executed s' = pr_executed s @ pr_pending s"
proof -
  let ?s1 = "s\<lparr>pr_pc := Handling False, pr_counter := (if b then 0 else pr_counter s)\<rparr>"
  have "loop_run (if b then 1 else 0) s = Some ?s1" using assms(1) by (simp add: loop_next_def)
  moreover obtain n s' where "loop_run n ?s1 = Some s'" "pr_executed s' = pr_executed s @ pr_pending s"
    using run_iteration [of ?s1] assms(2) by auto
  ultimately show ?thesis using loop_run_Some_trans by blast
qed

lemma run_from_while:
  assumes "pr_pc s = AtWhile \<or> pr_pc s = InPoll" and "\<not> pr_quit s" and "0 < pr_counter s" and "pr_batch s = []"
  shows "\<exists>n s'. loop_run n s = Some s' \<and> pr_executed s' = pr_executed s @ pr_pending s"
proof -
  let ?s1 = "s\<lparr>pr_pc := Handling False, pr_counter := 0\<rparr>"
  have "loop_run (if pr_pc s = AtWhile then 3 else 2) s = Some ?s1"
    using assms by (auto simp: loop_next_def numeral_2_eq_2 numeral_3_eq_3)
  moreover obtain n s' where "loop_run n ?s1 = Some s'" "pr_executed s' = pr_executed s @ pr_pending s"
    using run_iteration [of ?s1] assms(4) by auto
  ultimately show ?thesis using loop_run_Some_trans by blast
qed

lemma run_waiting:
  assumes "pr_pc s = AtWhile \<or> pr_pc s = InPoll" and "\<not> pr_quit s"
    and "pr_pending s = [] \<or> 0 < pr_counter s" and "pr_batch s = []"
  shows "\<exists>n s'. loop_run n s = Some s' \<and> pr_executed s' = pr_executed s @ pr_pending s"
proof (cases "pr_pending s = []")
  case True
  then show ?thesis by (intro exI [of _ 0] exI [of _ s]) simp
next
  case False
  then show ?thesis using run_from_while [OF assms(1,2) _ assms(4)] assms(3) by simp
qed

section \<open>Properties\<close>

text \<open>
  C11: functors run exactly once and in the order in which they were queued, whatever the
  interleaving of the loop's thread with any number of threads calling \<open>QueueInLoop\<close> and
  \<open>Quit\<close>: in every reachable state the functors ever pushed are those that ran, followed by the
  rest of the current batch, followed by those still pending.
\<close>

theorem functors_run_once_in_order:
  assumes "reachable lt s"
  shows "pr_pushed s = pr_executed s @ pr_batch s @ pr_pending s"
  using reachable_inv [OF assms] by (simp add: fifo_inv_def)

definition queued_once :: "nat protocol" where
  "queued_once = queue_wake 1 2 (queue_push 1 2 7 protocol_init)"

lemma reachable_queued_once: "reachable 1 queued_once"
proof -
  have "reachable 1 (queue_push 1 2 7 protocol_init)"
    by (rule reachable.step [OF reachable.init protocol_step.push]) (simp_all add: protocol_init_def)
  then show ?thesis
    unfolding queued_once_def by (rule reachable.step [OF _ protocol_step.push_done]) simp
qed

theorem functors_run_once_in_order_witness:
  "pr_pushed queued_once = [7] \<and> pr_executed queued_once @ pr_batch queued_once @ pr_pending queued_once = [7]"
  using functors_run_once_in_order [OF reachable_queued_once]
  by (simp add: queued_once_def queue_wake_def queue_push_def protocol_init_def)


text \<open>A state in which thread 2 has queued a functor for a blocked loop and not yet written.\<close>

definition blocked_loop :: "nat protocol" where
  "blocked_loop = (loop_enter protocol_init)\<lparr>pr_pc := InPoll\<rparr>"

lemma reachable_blocked_loop: "reachable 1 blocked_loop"
proof -
  have "reachable 1 (loop_enter protocol_init)"
    by (rule reachable.step [OF reachable.init protocol_step.enter]) (simp_all add: protocol_init_def)
  then show ?thesis
    unfolding blocked_loop_def
    by (rule reachable.step [OF _ protocol_step.loop]) (simp_all add: protocol_init_def loop_enter_def loop_next_def)
qed




text \<open>
  The exception is real. If the loop's own thread calls \<open>QueueInLoop\<close> and then \<open>Loop\<close>, no
  eventfd is written and the loop blocks in its first \<open>epoll_wait\<close> with the functor pending and
  nobody about to wake it: the functor waits for an unrelated event or for the poll timeout.
\<close>

theorem functor_queued_before_Loop_waits:
  "\<exists>s. reachable lt s \<and> pr_pending s = [f] \<and> pr_pc s = InPoll \<and> (\<forall>t. pr_callers s t = Idle) \<and> loop_next s = None"
proof -
  let ?s1 = "queue_push lt lt f protocol_init"
  let ?s2 = "queue_wake lt lt ?s1"
  let ?s3 = "loop_enter ?s2"
  let ?s4 = "?s3\<lparr>pr_pc := InPoll\<rparr>"
  have "reachable lt ?s1"
    by (rule reachable.step [OF reachable.init protocol_step.push]) (simp_all add: protocol_init_def in_closure_def)
  then have "reachable lt ?s2" by (rule reachable.step [OF _ protocol_step.push_done]) simp
  then have "reachable lt ?s3"
    by (rule reachable.step [OF _ protocol_step.enter]) (simp_all add: protocol_init_def)
  then have "reachable lt ?s4"
    by (rule reachable.step [OF _ protocol_step.loop]) (simp_all add: loop_enter_def loop_next_def)
  then show ?thesis
    by (rule exI [of _ ?s4, OF conjI])
       (simp add: protocol_init_def protocol_ops loop_next_def)
qed


text \<open>
  The protocol is the one of \<open>Event_Loop\<close>: \<open>protocol_view\<close> relates a loop object, with the
  counter of its eventfd in the kernel, to a protocol state.
\<close>

definition protocol_view :: "('k \<Rightarrow> fd \<Rightarrow> nat) \<Rightarrow> ptr \<Rightarrow> ('k, 'm) loop_world_scheme \<Rightarrow> Functor protocol \<Rightarrow> bool" where
  "protocol_view cnt l w s \<longleftrightarrow>
     pr_pending s = el_pending_functors (loops w l) \<and> pr_quit s = el_quit (loops w l)
     \<and> pr_calling s = el_calling_pending_functors (loops w l)
     \<and> pr_counter s = cnt (kern w) (el_wakeup_fd (loops w l))"

lemma Wakeup_view:
  assumes "eventfd_write_ok e cnt" and "protocol_view cnt l w s"
  shows "protocol_view cnt l (Wakeup e l w) (wake s)"
proof -
  let ?f = "el_wakeup_fd (loops w l)"
  obtain r k where r: "sys_write e ?f wakeup_one (kern w) = (r, k)" by fastforce
  then have "cnt k ?f = min (cnt (kern w) ?f + 1) eventfd_max"
    using assms(1) unfolding eventfd_write_ok_def wakeup_one_def eventfd_max_def
    by (fastforce split: sysres.splits)
  then show ?thesis
    using assms(2) r by (auto simp: protocol_view_def Wakeup_def wake_def)
qed

text \<open>
  C18: the calls follow the protocol. Running the whole of \<open>QueueInLoop\<close> or \<open>Quit\<close> on the loop
  object does to the queue, the flags and the eventfd what the two protocol steps of that call
  do, also when the eventfd's counter is at its maximum and the write fails.
\<close>

theorem calls_follow_protocol:
  assumes "eventfd_write_ok e cnt" and "protocol_view cnt l w s" and "IsInLoopThread me l w \<longleftrightarrow> me = lt"
  shows "protocol_view cnt l (QueueInLoop e me l cb w) (queue_wake lt me (queue_push lt me cb s))
    \<and> protocol_view cnt l (Quit e me l w) (quit_wake lt me (quit_set me s))"
proof
  have view: "protocol_view cnt l u (s'\<lparr>pr_callers := c\<rparr>)" if "protocol_view cnt l u s'" for u s' c
    using that by (simp add: protocol_view_def)
  let ?u = "on_loop (\<lambda>lp. lp\<lparr>el_pending_functors := el_pending_functors lp @ [cb]\<rparr>) l w"
  have push: "protocol_view cnt l ?u (queue_push lt me cb s)"
    using assms(2) by (simp add: protocol_view_def)
  show "protocol_view cnt l (QueueInLoop e me l cb w) (queue_wake lt me (queue_push lt me cb s))"
    using push Wakeup_view [OF assms(1) push] assms(2,3)
    by (auto simp: QueueInLoop_def Let_def queue_wake_def IsInLoopThread_def protocol_view_def intro!: view)
  let ?v = "on_loop (\<lambda>lp. lp\<lparr>el_quit := True\<rparr>) l w"
  have set: "protocol_view cnt l ?v (quit_set me s)"
    using assms(2) by (simp add: protocol_view_def)
  show "protocol_view cnt l (Quit e me l w) (quit_wake lt me (quit_set me s))"
    using set Wakeup_view [OF assms(1) set] assms(3)
    by (auto simp: Quit_def Let_def quit_wake_def IsInLoopThread_def protocol_view_def)
qed

theorem calls_follow_protocol_witness:
  "protocol_view test_counter 0 (QueueInLoop counter_env 101 0 (FUser 1) sample_loop_world)
     (queue_wake 100 101 (queue_push 100 101 (FUser 1) (protocol_init\<lparr>pr_counter := 8\<rparr>)))"
proof -
  have "protocol_view test_counter 0 sample_loop_world (protocol_init\<lparr>pr_counter := 8\<rparr>)"
    by (simp add: protocol_view_def sample_loop_world_def sample_loop_def protocol_init_def test_counter_def)
  from calls_follow_protocol [OF counter_env_ok this, of 101 100 "FUser 1"] show ?thesis
    by (simp add: IsInLoopThread_def sample_loop_world_def sample_loop_def)
qed

end
