(* ===== verification/Byte_Buffer.thy ===== *)
theory Byte_Buffer
  imports Environment
begin

text \<open>
  The class \<open>Buffer\<close> (include/cutemuduo/buffer.hpp, src/buffer.cpp): a byte vector with a read
  and a write index of type \<open>size_t\<close>, here 64-bit words that wrap around as in C++. Pointers
  into the vector are offsets from \<open>Begin()\<close>. Reads and writes outside the vector are the fault
  \<open>OutOfBounds\<close>, an impossible \<open>resize\<close> is \<open>LengthError\<close>. The abstraction \<open>content\<close> is the
  list of readable bytes; the locale \<open>byte_fifo\<close> states what the connection relies on and is
  interpreted on the operations of this theory.
\<close>

section \<open>State and operations\<close>

record buffer =
  buf_vec :: "byte list"
  reader_index :: size_t
  writer_index :: size_t

definition kCheapPrepend :: size_t where "kCheapPrepend = 8"
definition kInitialSize :: size_t where "kInitialSize = 1024"
definition kCRLF :: "byte list" where "kCRLF = [13, 10]"

text \<open>\<open>std::vector\<close>: construction and \<open>resize\<close> zero-fill and refuse more than \<open>max_size()\<close>.\<close>

definition vector_resize :: "size_t \<Rightarrow> byte list \<Rightarrow> byte list result" where
  "vector_resize n xs =
     (if vector_max_size < unat n then Inl LengthError
      else Inr (take (unat n) xs @ replicate (unat n - length xs) 0))"

definition new_Buffer :: "size_t \<Rightarrow> buffer result" where
  "new_Buffer initial_size =
     andThen (vector_resize (kCheapPrepend + initial_size) []) (\<lambda>v.
       Inr \<lparr>buf_vec = v, reader_index = kCheapPrepend, writer_index = kCheapPrepend\<rparr>)"

definition ReadableBytes :: "buffer \<Rightarrow> size_t" where
  "ReadableBytes b = writer_index b - reader_index b"

definition WritableBytes :: "buffer \<Rightarrow> size_t" where
  "WritableBytes b = of_nat (length (buf_vec b)) - writer_index b"

definition PrependableBytes :: "buffer \<Rightarrow> size_t" where
  "PrependableBytes b = reader_index b"

definition Peek :: "buffer \<Rightarrow> size_t" where
  "Peek b = reader_index b"

definition BeginWrite :: "buffer \<Rightarrow> size_t" where
  "BeginWrite b = writer_index b"

definition RetrieveAll :: "buffer \<Rightarrow> buffer" where
  "RetrieveAll b = b\<lparr>reader_index := kCheapPrepend, writer_index := kCheapPrepend\<rparr>"

definition Retrieve :: "size_t \<Rightarrow> buffer \<Rightarrow> buffer" where
  "Retrieve len b =
     (if len < ReadableBytes b then b\<lparr>reader_index := reader_index b + len\<rparr>
      else RetrieveAll b)"

definition RetrieveUntil :: "size_t \<Rightarrow> buffer \<Rightarrow> buffer" where
  "RetrieveUntil endp b = Retrieve (endp - Peek b) b"

text \<open>The bytes of the vector from an offset on, as \<open>std::string(ptr, len)\<close> and \<open>write\<close> read them.\<close>

definition read_bytes :: "size_t \<Rightarrow> size_t \<Rightarrow> buffer \<Rightarrow> byte list result" where
  "read_bytes off len b =
     (if unat off + unat len \<le> length (buf_vec b)
      then Inr (block (unat off) (unat off + unat len) (buf_vec b)) else Inl OutOfBounds)"

definition RetrieveAsString :: "size_t \<Rightarrow> buffer \<Rightarrow> (byte list \<times> buffer) result" where
  "RetrieveAsString len b =
     andThen (read_bytes (Peek b) len b) (\<lambda>s. Inr (s, Retrieve len b))"

definition RetrieveAllAsString :: "buffer \<Rightarrow> (byte list \<times> buffer) result" where
  "RetrieveAllAsString b = RetrieveAsString (ReadableBytes b) b"

definition ToString :: "buffer \<Rightarrow> byte list result" where
  "ToString b = read_bytes (Peek b) (ReadableBytes b) b"

definition MakeSpace :: "size_t \<Rightarrow> buffer \<Rightarrow> buffer result" where
  "MakeSpace len b =
     (if PrependableBytes b + WritableBytes b - kCheapPrepend < len then
        andThen (vector_resize (writer_index b + len) (buf_vec b)) (\<lambda>v. Inr (b\<lparr>buf_vec := v\<rparr>))
      else
        (let readable_bytes = ReadableBytes b in
         Inr (b\<lparr>buf_vec := copy_within (unat (writer_index b) - unat (reader_index b))
                             (unat (reader_index b)) (unat kCheapPrepend) (buf_vec b),
                reader_index := kCheapPrepend,
                writer_index := kCheapPrepend + readable_bytes\<rparr>)))"

definition EnsureWritableBytes :: "size_t \<Rightarrow> buffer \<Rightarrow> buffer result" where
  "EnsureWritableBytes len b = (if WritableBytes b < len then MakeSpace len b else Inr b)"

text \<open>\<open>std::copy(data, data + len, BeginWrite())\<close> from another array.\<close>

definition write_bytes :: "size_t \<Rightarrow> byte list \<Rightarrow> buffer \<Rightarrow> buffer result" where
  "write_bytes off ds b =
     (if unat off + length ds \<le> length (buf_vec b)
      then Inr (b\<lparr>buf_vec := overwrite (unat off) ds (buf_vec b)\<rparr>) else Inl OutOfBounds)"

definition Append :: "byte list \<Rightarrow> size_t \<Rightarrow> buffer \<Rightarrow> buffer result" where
  "Append data len b =
     (if length data < unat len then Inl OutOfBounds
      else andThen (EnsureWritableBytes len b) (\<lambda>b.
           andThen (write_bytes (BeginWrite b) (take (unat len) data) b) (\<lambda>b.
             Inr (b\<lparr>writer_index := writer_index b + len\<rparr>))))"

text \<open>\<open>Append(char const*)\<close>: \<open>strlen\<close> reads up to the first zero byte.\<close>

definition Append_cstr :: "byte list \<Rightarrow> buffer \<Rightarrow> buffer result" where
  "Append_cstr data b =
     (if 0 \<notin> set data then Inl OutOfBounds
      else Append data (of_nat (length (takeWhile (\<lambda>c. c \<noteq> 0) data))) b)"

text \<open>
  \<open>ReadFd\<close>: \<open>readv\<close> fills the writable part of the vector first and the 64 KiB array
  \<open>extrabuf\<close> on the stack second; what went into \<open>extrabuf\<close> is appended afterwards.
\<close>

definition extrabuf_size :: nat where "extrabuf_size = 65536"

definition readv_iov :: "buffer \<Rightarrow> nat list" where
  "readv_iov b =
     (if unat (WritableBytes b) < extrabuf_size then [unat (WritableBytes b), extrabuf_size]
      else [unat (WritableBytes b)])"

definition ReadFd ::
  "'k env \<Rightarrow> fd \<Rightarrow> buffer \<Rightarrow> 'k \<Rightarrow> (nat sysres \<times> buffer \<times> 'k) result" where
  "ReadFd e f b k =
     (let writable_bytes = WritableBytes b
      in case sys_readv e f (readv_iov b) k of
           (SysErr errno, k') \<Rightarrow> Inr (SysErr errno, b, k')
         | (SysOk bs, k') \<Rightarrow>
             (let n = length bs;
                  b = b\<lparr>buf_vec := overwrite (unat (BeginWrite b)) (take (unat writable_bytes) bs) (buf_vec b)\<rparr>;
                  extrabuf = overwrite 0 (drop (unat writable_bytes) bs) (replicate extrabuf_size 0)
              in if int n \<le> sint writable_bytes
                 then Inr (SysOk n, b\<lparr>writer_index := writer_index b + of_nat n\<rparr>, k')
                 else andThen (Append extrabuf (of_nat n - writable_bytes)
                                 (b\<lparr>writer_index := of_nat (length (buf_vec b))\<rparr>))
                        (\<lambda>b. Inr (SysOk n, b, k'))))"

definition WriteFd ::
  "'k env \<Rightarrow> fd \<Rightarrow> buffer \<Rightarrow> 'k \<Rightarrow> (nat sysres \<times> byte list \<times> buffer \<times> 'k) result" where
  "WriteFd e f b k =
     andThen (read_bytes (Peek b) (ReadableBytes b) b) (\<lambda>bs.
       case sys_write e f bs k of
         (SysErr errno, k') \<Rightarrow> Inr (SysErr errno, [], b, k')
       | (SysOk n, k') \<Rightarrow> Inr (SysOk n, take n bs, Retrieve (of_nat n) b, k'))"

text \<open>\<open>std::search\<close>: the offset of the first occurrence of a pattern, or the end of the range.\<close>

fun std_search :: "byte list \<Rightarrow> byte list \<Rightarrow> nat" where
  "std_search [] pat = 0"
| "std_search (x # xs) pat =
     (if take (length pat) (x # xs) = pat then 0 else Suc (std_search xs pat))"

definition FindCRLF :: "buffer \<Rightarrow> size_t option result" where
  "FindCRLF b =
     andThen (read_bytes (Peek b) (BeginWrite b - Peek b) b) (\<lambda>s.
       let crlf = Peek b + of_nat (std_search s kCRLF)
       in Inr (if crlf = BeginWrite b then None else Some crlf))"

section \<open>Invariant and abstraction\<close>

definition wf_buffer :: "buffer \<Rightarrow> bool" where
  "wf_buffer b \<longleftrightarrow>
     unat kCheapPrepend \<le> unat (reader_index b) \<and>
     unat (reader_index b) \<le> unat (writer_index b) \<and>
     unat (writer_index b) \<le> length (buf_vec b) \<and>
     length (buf_vec b) \<le> vector_max_size"

definition content :: "buffer \<Rightarrow> byte list" where
  "content b = block (unat (reader_index b)) (unat (writer_index b)) (buf_vec b)"

lemmas buffer_consts = kCheapPrepend_def kInitialSize_def kCRLF_def vector_max_size_def

lemma unat_kCheapPrepend [simp]: "unat kCheapPrepend = 8"
  by (simp add: kCheapPrepend_def)

lemma wf_bufferD:
  assumes "wf_buffer b"
  shows "8 \<le> unat (reader_index b)" and "unat (reader_index b) \<le> unat (writer_index b)"
    and "unat (writer_index b) \<le> length (buf_vec b)" and "length (buf_vec b) < 2 ^ 63"
  using assms by (auto simp: wf_buffer_def vector_max_size_def)

lemma unat_length_buffer:
  "wf_buffer b \<Longrightarrow> unat (of_nat (length (buf_vec b)) :: size_t) = length (buf_vec b)"
  using wf_bufferD(4) [of b] by (intro unat_of_nat_size_t) simp

lemma unat_ReadableBytes:
  "wf_buffer b \<Longrightarrow> unat (ReadableBytes b) = unat (writer_index b) - unat (reader_index b)"
  by (simp add: ReadableBytes_def unat_diff_size_t word_le_nat_alt wf_bufferD)

lemma unat_WritableBytes:
  "wf_buffer b \<Longrightarrow> unat (WritableBytes b) = length (buf_vec b) - unat (writer_index b)"
  using wf_bufferD(3) [of b]
  by (simp add: WritableBytes_def unat_diff_size_t word_le_nat_alt unat_length_buffer)

lemma length_content: "wf_buffer b \<Longrightarrow> length (content b) = unat (ReadableBytes b)"
  by (simp add: content_def unat_ReadableBytes wf_bufferD)

lemma ReadableBytes_0_iff: "wf_buffer b \<Longrightarrow> ReadableBytes b = 0 \<longleftrightarrow> content b = []"
  by (metis length_content length_0_conv unat_eq_zero)

lemmas buffer_sizes = unat_ReadableBytes unat_WritableBytes unat_length_buffer


section \<open>Reading: Retrieve and the string accessors\<close>

lemma wf_new_Buffer:
  assumes "unat n + 8 \<le> vector_max_size"
  obtains b where "new_Buffer n = Inr b" and "wf_buffer b" and "content b = []"
proof -
  have "unat (kCheapPrepend + n) = 8 + unat n"
    using assms by (subst unat_add_size_t) (simp_all add: vector_max_size_def)
  then show ?thesis using assms
    by (intro that) (auto simp: new_Buffer_def vector_resize_def wf_buffer_def content_def)
qed

lemma wf_RetrieveAll [intro]: "wf_buffer b \<Longrightarrow> wf_buffer (RetrieveAll b)"
  by (simp add: RetrieveAll_def wf_buffer_def)

lemma content_RetrieveAll [simp]: "content (RetrieveAll b) = []"
  by (simp add: RetrieveAll_def content_def)

lemma unat_reader_plus:
  assumes "wf_buffer b" and "len < ReadableBytes b"
  shows "unat (reader_index b + len) = unat (reader_index b) + unat len"
  using assms wf_bufferD [OF assms(1)]
  by (intro unat_add_size_t) (auto simp: word_less_nat_alt unat_ReadableBytes)

lemma wf_Retrieve [intro]:
  assumes wf: "wf_buffer b"
  shows "wf_buffer (Retrieve len b)"
proof (cases "len < ReadableBytes b")
  case True
  then have "unat (reader_index b) + unat len \<le> unat (writer_index b)"
    using wf by (simp add: word_less_nat_alt unat_ReadableBytes)
  then show ?thesis
    using True wf unat_reader_plus [OF wf True] by (simp add: Retrieve_def wf_buffer_def)
next
  case False
  then show ?thesis using wf by (simp add: Retrieve_def wf_RetrieveAll)
qed

lemma content_Retrieve:
  assumes "wf_buffer b"
  shows "content (Retrieve len b) = drop (unat len) (content b)"
proof (cases "len < ReadableBytes b")
  case True
  then show ?thesis
    using assms by (simp add: Retrieve_def content_def unat_reader_plus block_drop)
next
  case False
  then show ?thesis
    using assms by (simp add: Retrieve_def length_content word_less_nat_alt)
qed

lemma read_bytes_prefix:
  assumes "wf_buffer b" and "unat len \<le> length (content b)"
  shows "read_bytes (Peek b) len b = Inr (take (unat len) (content b))"
  using assms wf_bufferD [OF assms(1)]
  by (simp add: read_bytes_def Peek_def content_def block_def unat_ReadableBytes min_absorb1)

lemma read_bytes_all: "wf_buffer b \<Longrightarrow> read_bytes (Peek b) (ReadableBytes b) b = Inr (content b)"
  by (simp add: read_bytes_prefix length_content [symmetric])

lemma ToString_content: "wf_buffer b \<Longrightarrow> ToString b = Inr (content b)"
  by (simp add: ToString_def read_bytes_all)

lemma RetrieveAsString_prefix:
  assumes "wf_buffer b" and "unat len \<le> length (content b)"
  shows "RetrieveAsString len b = Inr (take (unat len) (content b), Retrieve len b)"
  using assms by (simp add: RetrieveAsString_def read_bytes_prefix)

lemma RetrieveAllAsString_content:
  assumes "wf_buffer b"
  shows "RetrieveAllAsString b = Inr (content b, RetrieveAll b)"
  using assms
  by (simp add: RetrieveAllAsString_def RetrieveAsString_prefix length_content [symmetric] Retrieve_def)

section \<open>Making room\<close>

lemma unat_slack:
  assumes "wf_buffer b"
  shows "unat (PrependableBytes b + WritableBytes b - kCheapPrepend)
       = unat (reader_index b) - 8 + (length (buf_vec b) - unat (writer_index b))"
proof -
  note wf = wf_bufferD [OF assms]
  have sum: "unat (reader_index b + WritableBytes b)
      = unat (reader_index b) + (length (buf_vec b) - unat (writer_index b))"
    using wf by (subst unat_add_size_t) (auto simp: unat_WritableBytes assms)
  then have "kCheapPrepend \<le> reader_index b + WritableBytes b"
    using wf by (simp add: word_le_nat_alt)
  then show ?thesis
    using wf sum by (simp add: PrependableBytes_def unat_diff_size_t)
qed

text \<open>The growing branch: the vector gets exactly as long as needed.\<close>

lemma MakeSpace_grow:
  assumes wf: "wf_buffer b"
    and grow: "PrependableBytes b + WritableBytes b - kCheapPrepend < len"
    and room: "unat (writer_index b) + unat len \<le> vector_max_size"
  obtains b' where "MakeSpace len b = Inr b'" and "wf_buffer b'" and "content b' = content b"
    and "unat (WritableBytes b') = unat len"
    and "length (buf_vec b') = unat (writer_index b) + unat len"
proof -
  note ds = wf_bufferD [OF wf]
  have n: "unat (writer_index b + len) = unat (writer_index b) + unat len"
    using room by (intro unat_add_size_t) (simp add: vector_max_size_def)
  have longer: "length (buf_vec b) \<le> unat (writer_index b) + unat len"
    using grow ds by (simp add: word_less_nat_alt unat_slack [OF wf])
  let ?b = "b\<lparr>buf_vec := buf_vec b @ replicate (unat (writer_index b) + unat len - length (buf_vec b)) 0\<rparr>"
  have wf': "wf_buffer ?b"
    using ds longer room by (simp add: wf_buffer_def)
  show ?thesis
  proof (rule that)
    show "MakeSpace len b = Inr ?b"
      using grow n longer room by (simp add: MakeSpace_def vector_resize_def)
    show "wf_buffer ?b" by (fact wf')
    show "content ?b = content b"
      using ds by (simp add: content_def block_append_left)
    show "unat (WritableBytes ?b) = unat len"
      using wf' longer by (simp add: unat_WritableBytes)
  qed (use longer in simp)
qed

text \<open>
  The compacting branch is reached from \<open>EnsureWritableBytes\<close> only with the read index past the
  reserved prefix, so \<open>std::copy\<close> moves the bytes down and its ranges satisfy its precondition.
\<close>

lemma MakeSpace_compact:
  assumes wf: "wf_buffer b" and short: "WritableBytes b < len"
    and fits: "\<not> PrependableBytes b + WritableBytes b - kCheapPrepend < len"
  obtains b' where "MakeSpace len b = Inr b'" and "wf_buffer b'" and "content b' = content b"
    and "unat len \<le> unat (WritableBytes b')" and "length (buf_vec b') = length (buf_vec b)"
    and "8 < unat (reader_index b)" and "unat (writer_index b') \<le> unat (writer_index b)"
proof -
  note ds = wf_bufferD [OF wf]
  let ?n = "unat (writer_index b) - unat (reader_index b)"
  have w: "unat (kCheapPrepend + ReadableBytes b) = 8 + ?n"
    using ds by (subst unat_add_size_t) (simp_all add: unat_ReadableBytes wf)
  have gap: "8 < unat (reader_index b)"
    using short fits ds by (simp add: word_less_nat_alt unat_slack [OF wf] unat_WritableBytes [OF wf])
  let ?v = "copy_within ?n (unat (reader_index b)) 8 (buf_vec b)"
  have v: "?v = overwrite 8 (content b) (buf_vec b)"
    using ds by (simp add: copy_within_overwrite content_def)
  let ?b = "b\<lparr>buf_vec := ?v, reader_index := kCheapPrepend, writer_index := kCheapPrepend + ReadableBytes b\<rparr>"
  have lc: "length (content b) = ?n"
    using wf by (simp add: length_content unat_ReadableBytes)
  have wf': "wf_buffer ?b"
    unfolding wf_buffer_def vector_max_size_def using ds gap w by simp linarith
  show ?thesis
  proof (rule that)
    show "MakeSpace len b = Inr ?b" using fits by (simp add: MakeSpace_def Let_def)
    show "content ?b = content b"
      using ds gap lc w v block_overwrite_at [of 8 "content b" "buf_vec b"] by (simp add: content_def)
    show "unat len \<le> unat (WritableBytes ?b)"
      using wf' fits ds gap w
      by (simp add: unat_WritableBytes word_less_nat_alt unat_slack [OF wf])
    show "unat (writer_index ?b) \<le> unat (writer_index b)"
      using w ds gap by simp
  qed (use wf' gap in simp_all)
qed

lemma EnsureWritableBytes_room:
  assumes wf: "wf_buffer b" and room: "unat (writer_index b) + unat len \<le> vector_max_size"
  obtains b' where "EnsureWritableBytes len b = Inr b'" and "wf_buffer b'"
    and "content b' = content b" and "unat len \<le> unat (WritableBytes b')"
    and "length (buf_vec b') \<le> length (buf_vec b) + unat len"
proof (cases "WritableBytes b < len")
  case short: True
  show ?thesis
  proof (cases "PrependableBytes b + WritableBytes b - kCheapPrepend < len")
    case True
    then show ?thesis
      using short that wf_bufferD(3) [OF wf]
      by (elim MakeSpace_grow [OF wf _ room]) (simp add: EnsureWritableBytes_def)
  next
    case False
    then show ?thesis
      using short that by (elim MakeSpace_compact [OF wf short]) (simp add: EnsureWritableBytes_def)
  qed
next
  case False
  then show ?thesis
    using wf that [of b] by (simp add: EnsureWritableBytes_def word_less_nat_alt)
qed

section \<open>Writing: Append\<close>

lemma write_bytes_end:
  assumes wf: "wf_buffer b" and fits: "length ds \<le> unat (WritableBytes b)"
  obtains b' where "write_bytes (BeginWrite b) ds b = Inr b'"
    and "wf_buffer (b'\<lparr>writer_index := writer_index b' + of_nat (length ds)\<rparr>)"
    and "content (b'\<lparr>writer_index := writer_index b' + of_nat (length ds)\<rparr>) = content b @ ds"
    and "length (buf_vec b') = length (buf_vec b)"
proof -
  note d = wf_bufferD [OF wf]
  have l: "unat (of_nat (length ds) :: size_t) = length ds"
    using d fits by (intro unat_of_nat_size_t) (simp add: unat_WritableBytes wf)
  have w: "unat (writer_index b + of_nat (length ds)) = unat (writer_index b) + length ds"
    using d fits l by (subst unat_add_size_t) (simp_all add: unat_WritableBytes wf)
  have le: "unat (writer_index b) + length ds \<le> length (buf_vec b)"
    using d fits by (simp add: unat_WritableBytes wf)
  show ?thesis
    using d le w
    by (intro that [of "b\<lparr>buf_vec := overwrite (unat (writer_index b)) ds (buf_vec b)\<rparr>"])
       (simp_all add: write_bytes_def BeginWrite_def wf_buffer_def vector_max_size_def content_def
          block_overwrite_end)
qed

lemma Append_content:
  assumes wf: "wf_buffer b" and len: "unat len \<le> length data"
    and room: "unat (writer_index b) + unat len \<le> vector_max_size"
  obtains b' where "Append data len b = Inr b'" and "wf_buffer b'"
    and "content b' = content b @ take (unat len) data"
    and "length (buf_vec b') \<le> length (buf_vec b) + unat len"
proof -
  obtain b1 where b1: "EnsureWritableBytes len b = Inr b1" "wf_buffer b1" "content b1 = content b"
    and space: "unat len \<le> unat (WritableBytes b1)"
    and cap: "length (buf_vec b1) \<le> length (buf_vec b) + unat len"
    using EnsureWritableBytes_room [OF wf room] by blast
  have l: "length (take (unat len) data) = unat len" using len by simp
  obtain b2 where "write_bytes (BeginWrite b1) (take (unat len) data) b1 = Inr b2"
    and "wf_buffer (b2\<lparr>writer_index := writer_index b2 + len\<rparr>)"
    and "content (b2\<lparr>writer_index := writer_index b2 + len\<rparr>) = content b1 @ take (unat len) data"
    and "length (buf_vec b2) = length (buf_vec b1)"
    using write_bytes_end [OF b1(2), of "take (unat len) data"] space l by auto
  with b1 len cap show ?thesis 
    by (intro that [of "b2\<lparr>writer_index := writer_index b2 + len\<rparr>"]) (simp_all add: Append_def)
qed


section \<open>Descriptors: ReadFd and WriteFd\<close>

lemma sint_WritableBytes:
  assumes "wf_buffer b"
  shows "int n \<le> sint (WritableBytes b) \<longleftrightarrow> n \<le> unat (WritableBytes b)"
proof -
  have "uint (WritableBytes b) < 2 ^ 63"
    using wf_bufferD(4) [OF assms] unat_WritableBytes [OF assms]
    by (metis (mono_tags) diff_le_self le_less_trans of_nat_less_numeral_power_cancel_iff of_nat_unat)
  moreover have "- (2 ^ 63) \<le> uint (WritableBytes b)"
    by (rule order_trans [OF _ unsigned_greater_eq]) simp
  ultimately have "sint (WritableBytes b) = uint (WritableBytes b)"
    by (simp add: sint_uint signed_take_bit_int_eq_self)
  then show ?thesis by (metis of_nat_le_iff of_nat_unat)
qed

lemma ReadFd_error:
  assumes "sys_readv e f (readv_iov b) k = (SysErr n, k')"
  shows "ReadFd e f b k = Inr (SysErr n, b, k')"
  using assms by (simp add: ReadFd_def)

lemma ReadFd_fits:
  assumes wf: "wf_buffer b" and r: "sys_readv e f (readv_iov b) k = (SysOk bs, k')"
    and fits: "length bs \<le> unat (WritableBytes b)"
  obtains b' where "ReadFd e f b k = Inr (SysOk (length bs), b', k')" and "wf_buffer b'"
    and "content b' = content b @ bs"
proof -
  obtain b1 where w: "write_bytes (BeginWrite b) bs b = Inr b1"
    and ok: "wf_buffer (b1\<lparr>writer_index := writer_index b1 + of_nat (length bs)\<rparr>)"
      "content (b1\<lparr>writer_index := writer_index b1 + of_nat (length bs)\<rparr>) = content b @ bs"
    using write_bytes_end [OF wf fits] by blast
  have b1: "b1 = b\<lparr>buf_vec := overwrite (unat (BeginWrite b)) bs (buf_vec b)\<rparr>"
    using w by (simp add: write_bytes_def split: if_splits)
  show ?thesis
    using r fits ok by (intro that) (simp_all add: ReadFd_def Let_def b1 sint_WritableBytes [OF wf])
qed

text \<open>What did not fit into the vector is appended from the array on the stack.\<close>

lemma ReadFd_spill_appends:
  assumes wf: "wf_buffer b" and r: "sys_readv e f (readv_iov b) k = (SysOk bs, k')"
    and ok: "readv_ok e" and spill: "unat (WritableBytes b) < length bs"
  obtains b1 extra len where "ReadFd e f b k = andThen (Append extra len b1) (\<lambda>b. Inr (SysOk (length bs), b, k'))"
    and "wf_buffer b1" and "unat (writer_index b1) = length (buf_vec b)" and "unat len \<le> length extra"
    and "unat len \<le> extrabuf_size" and "content b1 @ take (unat len) extra = content b @ bs"
proof -
  let ?w = "unat (WritableBytes b)"
  have total: "length bs \<le> ?w + extrabuf_size"
    using ok r spill unfolding readv_ok_def readv_iov_def by (fastforce split: if_splits)
  have lb: "length (take ?w bs) = ?w" using spill by simp
  obtain b1 where w: "write_bytes (BeginWrite b) (take ?w bs) b = Inr b1"
    and full: "wf_buffer (b1\<lparr>writer_index := writer_index b1 + of_nat ?w\<rparr>)"
      "content (b1\<lparr>writer_index := writer_index b1 + of_nat ?w\<rparr>) = content b @ take ?w bs"
    using write_bytes_end [OF wf, of "take ?w bs"] lb by auto
  have b1: "b1 = b\<lparr>buf_vec := overwrite (unat (BeginWrite b)) (take ?w bs) (buf_vec b)\<rparr>"
    using w by (simp add: write_bytes_def split: if_splits)
  have len1: "length (buf_vec b1) = length (buf_vec b)"
    using wf_bufferD [OF wf] lb by (simp add: b1 BeginWrite_def unat_WritableBytes wf)
  have wi: "writer_index b1 + of_nat ?w = of_nat (length (buf_vec b1))"
    unfolding len1 by (simp add: b1 WritableBytes_def)
  let ?b = "b1\<lparr>writer_index := of_nat (length (buf_vec b1))\<rparr>"
  let ?extra = "overwrite 0 (drop ?w bs) (replicate extrabuf_size 0)"
  let ?len = "of_nat (length bs) - WritableBytes b :: size_t"
  have "unat (of_nat (length bs) :: size_t) = length bs"
    using total wf_bufferD(4) [OF wf] by (intro unat_of_nat_size_t) (simp add: extrabuf_size_def unat_WritableBytes wf)
  then have len: "unat ?len = length bs - ?w" using spill by (simp add: unat_diff_size_t word_le_nat_alt)
  show ?thesis
  proof (rule that [of ?extra ?len ?b])
    show "ReadFd e f b k = andThen (Append ?extra ?len ?b) (\<lambda>b. Inr (SysOk (length bs), b, k'))"
      using r spill by (simp add: ReadFd_def Let_def sint_WritableBytes [OF wf] b1 [symmetric])
    show "content ?b @ take (unat ?len) ?extra = content b @ bs"
      using full(2) [unfolded wi] total len by (simp add: overwrite_def)
    show "wf_buffer ?b" using full(1) unfolding wi .
  qed (use wf len len1 total in \<open>simp_all add: unat_length_buffer overwrite_def\<close>)
qed

lemma ReadFd_spills:
  assumes "wf_buffer b" and "sys_readv e f (readv_iov b) k = (SysOk bs, k')"
    and "readv_ok e" and "unat (WritableBytes b) < length bs"
    and room: "length (buf_vec b) + extrabuf_size \<le> vector_max_size"
  obtains b' where "ReadFd e f b k = Inr (SysOk (length bs), b', k')" and "wf_buffer b'"
    and "content b' = content b @ bs"
proof -
  obtain b1 extra len where b1: "ReadFd e f b k = andThen (Append extra len b1) (\<lambda>b. Inr (SysOk (length bs), b, k'))"
    "wf_buffer b1" "unat (writer_index b1) = length (buf_vec b)" "unat len \<le> length extra"
    "unat len \<le> extrabuf_size" "content b1 @ take (unat len) extra = content b @ bs"
    using ReadFd_spill_appends [OF assms(1-4)] by metis
  then have "unat (writer_index b1) + unat len \<le> vector_max_size" using room by simp
  from Append_content [OF b1(2,4) this] obtain b' where "Append extra len b1 = Inr b'" "wf_buffer b'"
    "content b' = content b1 @ take (unat len) extra"
    by blast
  with b1(1,6) show ?thesis by (intro that) simp_all
qed

text \<open>The outcomes without an assumption on the room: the vector may refuse to grow, and nothing else goes wrong.\<close>

lemma EnsureWritableBytes_outcome:
  assumes wf: "wf_buffer b" and len: "unat len \<le> vector_max_size"
  shows "EnsureWritableBytes len b = Inl LengthError
    \<or> (\<exists>b'. EnsureWritableBytes len b = Inr b' \<and> wf_buffer b' \<and> unat len \<le> unat (WritableBytes b'))"
proof (cases "unat (writer_index b) + unat len \<le> vector_max_size")
  case True
  then show ?thesis by (rule EnsureWritableBytes_room [OF wf]) blast
next
  case False
  then have short: "WritableBytes b < len"
    using wf_bufferD(3,4) [OF wf] by (simp add: word_less_nat_alt unat_WritableBytes [OF wf] vector_max_size_def)
  show ?thesis
  proof (cases "PrependableBytes b + WritableBytes b - kCheapPrepend < len")
    case True
    have "unat (writer_index b + len) = unat (writer_index b) + unat len"
      using wf_bufferD(3,4) [OF wf] len by (intro unat_add_size_t) (simp add: vector_max_size_def)
    with True False short show ?thesis by (simp add: EnsureWritableBytes_def MakeSpace_def vector_resize_def)
  next
    case False
    obtain b' where "MakeSpace len b = Inr b'" "wf_buffer b'" "unat len \<le> unat (WritableBytes b')"
      by (rule MakeSpace_compact [OF wf short False])
    with short show ?thesis by (simp add: EnsureWritableBytes_def)
  qed
qed

lemma Append_outcome:
  assumes "wf_buffer b" and "unat len \<le> length data" and "unat len \<le> vector_max_size"
  shows "Append data len b = Inl LengthError \<or> (\<exists>b'. Append data len b = Inr b' \<and> wf_buffer b')"
  using EnsureWritableBytes_outcome [OF assms(1,3)]
proof (elim disjE exE conjE)
  fix b1 assume b1: "EnsureWritableBytes len b = Inr b1" "wf_buffer b1" "unat len \<le> unat (WritableBytes b1)"
  moreover have "length (take (unat len) data) = unat len" using assms(2) by simp
  ultimately obtain b2 where "write_bytes (BeginWrite b1) (take (unat len) data) b1 = Inr b2"
    "wf_buffer (b2\<lparr>writer_index := writer_index b2 + len\<rparr>)"
    using write_bytes_end [OF b1(2), of "take (unat len) data"] by auto
  with b1(1) assms(2) show ?thesis by (simp add: Append_def)
qed (use assms(2) in \<open>simp add: Append_def\<close>)

lemma ReadFd_outcome:
  assumes wf: "wf_buffer b" and ok: "readv_ok e"
  shows "ReadFd e f b k = Inl LengthError
    \<or> (\<exists>r b'. ReadFd e f b k = Inr (r, b', snd (sys_readv e f (readv_iov b) k)) \<and> wf_buffer b')"
proof -
  obtain r k' where r: "sys_readv e f (readv_iov b) k = (r, k')" by (metis surjective_pairing)
  show ?thesis
  proof (cases r)
    case (SysErr n)
    then show ?thesis using ReadFd_error r wf by force
  next
    case (SysOk bs)
    show ?thesis
    proof (cases "length bs \<le> unat (WritableBytes b)")
      case True
      then show ?thesis using ReadFd_fits [OF wf r [unfolded SysOk]] r by (metis snd_conv)
    next
      case False
      then obtain b1 extra len where b1: "ReadFd e f b k = andThen (Append extra len b1) (\<lambda>b. Inr (SysOk (length bs), b, k'))"
        "wf_buffer b1" "unat len \<le> length extra" "unat len \<le> extrabuf_size"
        using ReadFd_spill_appends [OF wf r [unfolded SysOk] ok] by (metis not_le)
      then show ?thesis using Append_outcome [OF b1(2,3)] r by (auto simp: extrabuf_size_def vector_max_size_def)
    qed
  qed
qed

lemma ReadFd_appends:
  assumes "wf_buffer b" and "readv_ok e" and "length (buf_vec b) + extrabuf_size \<le> vector_max_size"
    and "sys_readv e f (readv_iov b) k = (SysOk bs, k')"
  obtains b' where "ReadFd e f b k = Inr (SysOk (length bs), b', k')" and "wf_buffer b'" and "content b' = content b @ bs"
proof (cases "length bs \<le> unat (WritableBytes b)")
  case True
  with assms(1,4) show ?thesis by (rule ReadFd_fits) (rule that)
next
  case False
  then have "unat (WritableBytes b) < length bs" by simp
  from assms(1,4,2) this assms(3) show ?thesis by (rule ReadFd_spills) (rule that)
qed

lemma WriteFd_error:
  assumes "wf_buffer b" and "sys_write e f (content b) k = (SysErr n, k')"
  shows "WriteFd e f b k = Inr (SysErr n, [], b, k')"
  using assms by (simp add: WriteFd_def read_bytes_all)

lemma WriteFd_wrote:
  assumes wf: "wf_buffer b" and ok: "write_ok e" and w: "sys_write e f (content b) k = (SysOk n, k')"
  shows "WriteFd e f b k = Inr (SysOk n, take n (content b), Retrieve (of_nat n) b, k')"
    and "n \<le> length (content b)" and "content (Retrieve (of_nat n) b) = drop n (content b)"
proof -
  show "WriteFd e f b k = Inr (SysOk n, take n (content b), Retrieve (of_nat n) b, k')"
    using wf w by (simp add: WriteFd_def read_bytes_all)
  show le: "n \<le> length (content b)"
    using ok w unfolding write_ok_def by blast
  have "n < 2 ^ 64"
    using le wf_bufferD [OF wf] by (simp add: length_content [OF wf] unat_ReadableBytes [OF wf])
  then show "content (Retrieve (of_nat n) b) = drop n (content b)"
    using wf by (simp add: content_Retrieve unat_of_nat_size_t)
qed

section \<open>Searching: FindCRLF\<close>

definition occurs_at :: "byte list \<Rightarrow> byte list \<Rightarrow> nat \<Rightarrow> bool" where
  "occurs_at pat s i \<longleftrightarrow> i \<le> length s \<and> take (length pat) (drop i s) = pat"

lemma occurs_at_Cons_Suc: "occurs_at pat (x # xs) (Suc i) \<longleftrightarrow> occurs_at pat xs i"
  by (simp add: occurs_at_def)

lemma std_search_first:
  assumes "pat \<noteq> []"
  shows "std_search s pat \<le> length s"
    and "std_search s pat < length s \<Longrightarrow> occurs_at pat s (std_search s pat)"
    and "i < std_search s pat \<Longrightarrow> \<not> occurs_at pat s i"
proof -
  show "std_search s pat \<le> length s"
    by (induction s) simp_all
  show "std_search s pat < length s \<Longrightarrow> occurs_at pat s (std_search s pat)"
    by (induction s) (auto simp: occurs_at_Cons_Suc occurs_at_def [of pat _ 0] split: if_splits)
  show "i < std_search s pat \<Longrightarrow> \<not> occurs_at pat s i"
  proof (induction s arbitrary: i)
    case (Cons x xs)
    then show ?case
      by (cases i) (auto simp: occurs_at_Cons_Suc occurs_at_def [of pat _ 0] split: if_splits)
  qed simp
qed

lemma FindCRLF_search:
  assumes wf: "wf_buffer b"
  shows "FindCRLF b = Inr (let i = std_search (content b) kCRLF
                           in if i = length (content b) then None else Some (Peek b + of_nat i))"
proof -
  let ?i = "std_search (content b) kCRLF"
  have i: "?i \<le> length (content b)" by (rule std_search_first) (simp add: kCRLF_def)
  have lt: "length (content b) < 2 ^ 64"
    using wf_bufferD [OF wf] by (simp add: length_content [OF wf] unat_ReadableBytes [OF wf])
  have u: "unat (of_nat ?i :: size_t) = ?i"
    using i lt by (intro unat_of_nat_size_t) simp
  have "Peek b + of_nat ?i = BeginWrite b \<longleftrightarrow> of_nat ?i = ReadableBytes b"
    by (auto simp: Peek_def BeginWrite_def ReadableBytes_def algebra_simps)
  also have "\<dots> \<longleftrightarrow> ?i = length (content b)"
    using u by (simp add: word_unat_eq_iff length_content [OF wf])
  finally show ?thesis
    using read_bytes_all [OF wf] by (simp add: FindCRLF_def Peek_def BeginWrite_def ReadableBytes_def)
qed


section \<open>The buffer as a queue of bytes\<close>

text \<open>The public operations of the class, with what they return, and the queue they implement.\<close>

datatype buffer_op =
    OpAppend "byte list"
  | OpEnsureWritable size_t
  | OpRetrieve size_t
  | OpRetrieveAll
  | OpRetrieveAsString size_t
  | OpRetrieveAllAsString
  | OpToString

fun buffer_step :: "buffer_op \<Rightarrow> buffer \<Rightarrow> (byte list \<times> buffer) result" where
  "buffer_step (OpAppend ds) b = andThen (Append ds (of_nat (length ds)) b) (\<lambda>b. Inr ([], b))"
| "buffer_step (OpEnsureWritable n) b = andThen (EnsureWritableBytes n b) (\<lambda>b. Inr ([], b))"
| "buffer_step (OpRetrieve n) b = Inr ([], Retrieve n b)"
| "buffer_step OpRetrieveAll b = Inr ([], RetrieveAll b)"
| "buffer_step (OpRetrieveAsString n) b = RetrieveAsString n b"
| "buffer_step OpRetrieveAllAsString b = RetrieveAllAsString b"
| "buffer_step OpToString b = andThen (ToString b) (\<lambda>s. Inr (s, b))"

fun queue_step :: "buffer_op \<Rightarrow> byte list \<Rightarrow> (byte list \<times> byte list) option" where
  "queue_step (OpAppend ds) q = Some ([], q @ ds)"
| "queue_step (OpEnsureWritable n) q = Some ([], q)"
| "queue_step (OpRetrieve n) q = Some ([], drop (unat n) q)"
| "queue_step OpRetrieveAll q = Some ([], [])"
| "queue_step (OpRetrieveAsString n) q =
     (if unat n \<le> length q then Some (take (unat n) q, drop (unat n) q) else None)"
| "queue_step OpRetrieveAllAsString q = Some (q, [])"
| "queue_step OpToString q = Some (q, q)"

fun op_cost :: "buffer_op \<Rightarrow> nat" where
  "op_cost (OpAppend ds) = length ds"
| "op_cost (OpEnsureWritable n) = unat n"
| "op_cost _ = 0"

lemma length_buf_vec_Retrieve [simp]: "length (buf_vec (Retrieve n b)) = length (buf_vec b)"
  by (simp add: Retrieve_def RetrieveAll_def)

lemma length_buf_vec_RetrieveAll [simp]: "length (buf_vec (RetrieveAll b)) = length (buf_vec b)"
  by (simp add: RetrieveAll_def)

lemma buffer_step_Append:
  assumes wf: "wf_buffer b" and room: "length (buf_vec b) + length ds \<le> vector_max_size"
  shows "\<exists>b'. Append ds (of_nat (length ds)) b = Inr b' \<and> wf_buffer b'
           \<and> content b' = content b @ ds \<and> length (buf_vec b') \<le> length (buf_vec b) + length ds"
proof -
  have u: "unat (of_nat (length ds) :: size_t) = length ds"
    using room by (intro unat_of_nat_size_t) (simp add: vector_max_size_def)
  have "unat (writer_index b) + unat (of_nat (length ds) :: size_t) \<le> vector_max_size"
    using room wf_bufferD(3) [OF wf] u by simp
  then show ?thesis
    using Append_content [OF wf, of "of_nat (length ds)" ds] u by auto
qed

lemma buffer_step_Ensure:
  assumes wf: "wf_buffer b" and room: "length (buf_vec b) + unat n \<le> vector_max_size"
  shows "\<exists>b'. EnsureWritableBytes n b = Inr b' \<and> wf_buffer b' \<and> content b' = content b
           \<and> length (buf_vec b') \<le> length (buf_vec b) + unat n"
  using EnsureWritableBytes_room [OF wf, of n] room wf_bufferD(3) [OF wf] by fastforce

lemma buffer_step_refines:
  assumes wf: "wf_buffer b" and room: "length (buf_vec b) + op_cost x \<le> vector_max_size"
    and spec: "queue_step x (content b) = Some (out, q')"
  shows "\<exists>b'. buffer_step x b = Inr (out, b') \<and> wf_buffer b' \<and> content b' = q'
           \<and> length (buf_vec b') \<le> length (buf_vec b) + op_cost x"
proof (cases x)
  case (OpAppend ds)
  then show ?thesis using buffer_step_Append [OF wf, of ds] room spec by auto
next
  case (OpEnsureWritable n)
  then show ?thesis using buffer_step_Ensure [OF wf, of n] room spec by auto
next
  case (OpRetrieveAsString n)
  then show ?thesis
    using spec wf by (auto simp: RetrieveAsString_prefix content_Retrieve split: if_splits)
qed (use spec wf in \<open>auto simp: content_Retrieve RetrieveAllAsString_content ToString_content\<close>)

interpretation bq: data_refinement wf_buffer content buffer_step queue_step op_cost
  "\<lambda>b. length (buf_vec b)" vector_max_size
  by unfold_locales (rule buffer_step_refines)

section \<open>Properties\<close>

text \<open>
  C5: a buffer is a queue of bytes. Any sequence of public operations that never asks for more
  bytes than are readable, and whose appended and reserved bytes fit in a vector, returns
  without a fault, hands out exactly the strings a plain list of bytes would, and leaves the
  buffer well-formed with that list as its content: growing, compacting and the reserved
  prefix are invisible to the caller.
\<close>

theorem buffer_implements_byte_queue:
  assumes "wf_buffer b" and "length (buf_vec b) + sum_list (map op_cost ops) \<le> vector_max_size"
    and "runO queue_step ops (content b) = Some (outs, q')"
  shows "\<exists>b'. runE buffer_step ops b = Inr (outs, b') \<and> wf_buffer b' \<and> content b' = q'"
  using assms by (rule bq.run_refines)

definition sample_buffer :: buffer where
  "sample_buffer = \<lparr>buf_vec = replicate 12 0, reader_index = 8, writer_index = 8\<rparr>"

lemma wf_sample_buffer: "wf_buffer sample_buffer" and content_sample_buffer: "content sample_buffer = []"
  by (simp_all add: sample_buffer_def wf_buffer_def content_def vector_max_size_def)

lemma length_sample_buffer: "length (buf_vec sample_buffer) = 12"
  and WritableBytes_sample_buffer: "WritableBytes sample_buffer = 4"
  by (simp_all add: sample_buffer_def WritableBytes_def)

theorem buffer_implements_byte_queue_witness:
  "\<exists>b'. runE buffer_step
          [OpAppend [1, 2, 3, 4, 5, 6], OpRetrieveAsString 2, OpAppend [7, 8], OpRetrieveAllAsString]
          sample_buffer = Inr ([[], [1, 2], [], [3, 4, 5, 6, 7, 8]], b')
        \<and> wf_buffer b' \<and> content b' = []"
  by (rule buffer_implements_byte_queue [OF wf_sample_buffer])
     (simp_all add: content_sample_buffer length_sample_buffer vector_max_size_def)

text \<open>
  C29: \<open>EnsureWritableBytes\<close> keeps the readable bytes and provides the room asked for. If it
  compacts, the vector is not reallocated and \<open>std::copy\<close> is called with its destination
  strictly below the source range, as its precondition demands; it grows the vector only when
  the free space in front of and behind the content together is too small.
\<close>

theorem EnsureWritableBytes_makes_room:
  assumes "wf_buffer b" and "unat (writer_index b) + unat len \<le> vector_max_size"
  shows "\<exists>b'. EnsureWritableBytes len b = Inr b' \<and> wf_buffer b' \<and> content b' = content b
           \<and> unat len \<le> unat (WritableBytes b')
           \<and> (b' \<noteq> b \<longrightarrow>
                (if unat len \<le> unat (reader_index b) - 8 + unat (WritableBytes b)
                 then length (buf_vec b') = length (buf_vec b) \<and> 8 < unat (reader_index b)
                 else length (buf_vec b') = unat (writer_index b) + unat len))"
proof (cases "WritableBytes b < len")
  case short: True
  have slack: "PrependableBytes b + WritableBytes b - kCheapPrepend < len \<longleftrightarrow>
      \<not> unat len \<le> unat (reader_index b) - 8 + unat (WritableBytes b)"
    by (auto simp: word_less_nat_alt unat_slack [OF assms(1)] unat_WritableBytes [OF assms(1)])
  show ?thesis
  proof (cases "PrependableBytes b + WritableBytes b - kCheapPrepend < len")
    case True
    obtain b' where "MakeSpace len b = Inr b'" "wf_buffer b'" "content b' = content b"
      "unat (WritableBytes b') = unat len" "length (buf_vec b') = unat (writer_index b) + unat len"
      using MakeSpace_grow [OF assms(1) True assms(2)] by blast
    then show ?thesis
      using short True [unfolded slack] by (intro exI [of _ b']) (simp add: EnsureWritableBytes_def)
  next
    case False
    obtain b' where "MakeSpace len b = Inr b'" "wf_buffer b'" "content b' = content b"
      "unat len \<le> unat (WritableBytes b')" "length (buf_vec b') = length (buf_vec b)"
      "8 < unat (reader_index b)"
      using MakeSpace_compact [OF assms(1) short False] by blast
    then show ?thesis
      using short False [unfolded slack] by (intro exI [of _ b']) (simp add: EnsureWritableBytes_def)
  qed
next
  case False
  then show ?thesis using assms(1) by (simp add: EnsureWritableBytes_def word_less_nat_alt)
qed

definition shifted_buffer :: buffer where
  "shifted_buffer = \<lparr>buf_vec = replicate 10 0 @ [1, 2, 0], reader_index = 10, writer_index = 12\<rparr>"

theorem EnsureWritableBytes_makes_room_witness:
  "\<exists>b'. EnsureWritableBytes 3 shifted_buffer = Inr b' \<and> content b' = [1, 2]
        \<and> 3 \<le> unat (WritableBytes b')"
proof -
  have wf: "wf_buffer shifted_buffer" and c: "content shifted_buffer = [1, 2]"
    by (simp_all add: shifted_buffer_def wf_buffer_def content_def vector_max_size_def block_def)
  have "unat (writer_index shifted_buffer) + unat (3 :: size_t) \<le> vector_max_size"
    by (simp add: shifted_buffer_def vector_max_size_def)
  from EnsureWritableBytes_makes_room [OF wf this] c show ?thesis by auto
qed

text \<open>
  C21: \<open>ReadFd\<close> loses and reorders nothing. Whatever number of bytes \<open>readv\<close> delivers, whether
  they fit in the writable part of the vector or spill into the stack array, they end up
  behind the old content in the order they arrived; a failed \<open>readv\<close> hands back its errno and
  leaves the buffer as it was.
\<close>

theorem ReadFd_appends_what_arrived:
  assumes "wf_buffer b" and "readv_ok e"
    and "length (buf_vec b) + extrabuf_size \<le> vector_max_size"
  shows "case sys_readv e f (readv_iov b) k of
           (SysErr errno, k') \<Rightarrow> ReadFd e f b k = Inr (SysErr errno, b, k')
         | (SysOk bs, k') \<Rightarrow> \<exists>b'. ReadFd e f b k = Inr (SysOk (length bs), b', k')
                                 \<and> wf_buffer b' \<and> content b' = content b @ bs"
proof -
  obtain r k' where r: "sys_readv e f (readv_iov b) k = (r, k')" by fastforce
  show ?thesis
  proof (cases r)
    case (SysErr n)
    then show ?thesis using r by (simp add: ReadFd_error)
  next
    case (SysOk bs)
    with r have ok: "sys_readv e f (readv_iov b) k = (SysOk bs, k')" by simp
    from assms ok obtain b' where "ReadFd e f b k = Inr (SysOk (length bs), b', k')" "wf_buffer b'" "content b' = content b @ bs"
      by (rule ReadFd_appends)
    with ok show ?thesis by simp
  qed
qed

theorem ReadFd_appends_what_arrived_witness:
  "\<exists>b' k'. ReadFd test_env 7 sample_buffer test_kernel0 = Inr (SysOk 6, b', k')
           \<and> content b' = [1, 2, 3, 4, 5, 6]"
proof -
  have "length (buf_vec sample_buffer) + extrabuf_size \<le> vector_max_size"
    by (simp add: length_sample_buffer extrabuf_size_def vector_max_size_def)
  from ReadFd_appends_what_arrived [OF wf_sample_buffer test_env_ok(2) this, of 7 test_kernel0]
  show ?thesis
    by (auto simp: test_env_def test_kernel0_def content_sample_buffer readv_iov_def
        WritableBytes_sample_buffer extrabuf_size_def)
qed

text \<open>
  C30: \<open>WriteFd\<close> hands the kernel the whole readable content and drops exactly the bytes the
  kernel took: what was written followed by what is left is the old content. A failed
  \<open>write\<close> hands back its errno and changes nothing.
\<close>

theorem WriteFd_drops_what_was_written:
  assumes "wf_buffer b" and "write_ok e"
  shows "case sys_write e f (content b) k of
           (SysErr errno, k') \<Rightarrow> WriteFd e f b k = Inr (SysErr errno, [], b, k')
         | (SysOk n, k') \<Rightarrow> \<exists>b' ws. WriteFd e f b k = Inr (SysOk n, ws, b', k') \<and> length ws = n
                                 \<and> wf_buffer b' \<and> ws @ content b' = content b"
proof -
  obtain r k' where r: "sys_write e f (content b) k = (r, k')" by fastforce
  show ?thesis
  proof (cases r)
    case (SysErr n)
    then show ?thesis using r assms(1) by (simp add: WriteFd_error)
  next
    case (SysOk n)
    with r have w: "sys_write e f (content b) k = (SysOk n, k')" by simp
    note ok = WriteFd_wrote [OF assms w]
    show ?thesis unfolding w using ok assms(1) by auto
  qed
qed

theorem WriteFd_drops_what_was_written_witness:
  "\<exists>b' ws k'. WriteFd test_env 7 shifted_buffer (test_kernel0\<lparr>tk_accept := 1\<rparr>) = Inr (SysOk 1, ws, b', k')
              \<and> ws @ content b' = [1, 2] \<and> length ws = 1"
proof -
  have wf: "wf_buffer shifted_buffer" and c: "content shifted_buffer = [1, 2]"
    by (simp_all add: shifted_buffer_def wf_buffer_def content_def vector_max_size_def block_def)
  from WriteFd_drops_what_was_written [OF wf test_env_ok(1), of 7 "test_kernel0\<lparr>tk_accept := 1\<rparr>"]
  show ?thesis by (auto simp: test_env_def test_kernel0_def c)
qed

text \<open>
  C35: \<open>FindCRLF\<close> finds the first line end of the readable bytes and nothing else: a null result
  means there is no \<open>CR LF\<close> in the content, and a pointer \<open>p\<close> names an occurrence with none
  before it, so that \<open>RetrieveUntil(p)\<close> consumes exactly the line in front of it.
\<close>

theorem FindCRLF_finds_first_line_end:
  assumes "wf_buffer b"
  shows "case FindCRLF b of
           Inl _ \<Rightarrow> False
         | Inr None \<Rightarrow> (\<forall>i. \<not> occurs_at kCRLF (content b) i)
         | Inr (Some p) \<Rightarrow> \<exists>line rest. content b = line @ kCRLF @ rest
                            \<and> p = Peek b + of_nat (length line)
                            \<and> (\<forall>i < length line. \<not> occurs_at kCRLF (content b) i)
                            \<and> content (RetrieveUntil p b) = kCRLF @ rest"
proof -
  let ?i = "std_search (content b) kCRLF"
  have ne: "kCRLF \<noteq> []" by (simp add: kCRLF_def)
  note first = std_search_first [OF ne, where s = "content b"]
  show ?thesis
  proof (cases "?i = length (content b)")
    case True
    have "\<not> occurs_at kCRLF (content b) i" for i
      using first(3) [of i] True by (cases "i < ?i") (auto simp: occurs_at_def kCRLF_def)
    with True show ?thesis by (simp add: FindCRLF_search [OF assms])
  next
    case False
    then have lt: "?i < length (content b)" using first(1) by simp
    have occ: "take (length kCRLF) (drop ?i (content b)) = kCRLF"
      using first(2) [OF lt] by (simp add: occurs_at_def)
    have split: "content b = take ?i (content b) @ kCRLF @ drop (length kCRLF) (drop ?i (content b))"
      by (metis occ append_take_drop_id)
    have "?i < 18446744073709551616"
      using lt unfolding length_content [OF assms] by (rule order_less_trans) (rule size_t_bound)
    then have u: "unat (of_nat ?i :: size_t) = ?i"
      by (intro unat_of_nat_size_t) simp
    have drop: "content (RetrieveUntil (Peek b + of_nat ?i) b) = drop ?i (content b)"
      using assms u by (simp add: RetrieveUntil_def content_Retrieve)
    have hit: "FindCRLF b = Inr (Some (Peek b + of_nat ?i))"
      using False by (simp add: FindCRLF_search [OF assms])
    have line: "length (take ?i (content b)) = ?i" using lt by simp
    have rest: "drop ?i (content b) = kCRLF @ drop (length kCRLF) (drop ?i (content b))"
      by (metis occ append_take_drop_id)
    have none: "\<forall>i < ?i. \<not> occurs_at kCRLF (content b) i" using first(3) by blast
    show ?thesis
      unfolding hit sum.case option.case
      by (rule exI [of _ "take ?i (content b)"], rule exI [of _ "drop (length kCRLF) (drop ?i (content b))"])
         (use split line rest drop none in \<open>simp only: simp_thms\<close>)
  qed
qed

definition line_buffer :: buffer where
  "line_buffer = \<lparr>buf_vec = replicate 8 0 @ [71, 13, 10, 72], reader_index = 8, writer_index = 12\<rparr>"

theorem FindCRLF_finds_first_line_end_witness:
  "\<exists>p. FindCRLF line_buffer = Inr (Some p) \<and> content (RetrieveUntil p line_buffer) = [13, 10, 72]"
proof -
  have wf: "wf_buffer line_buffer" and c: "content line_buffer = [71, 13, 10, 72]"
    by (simp_all add: line_buffer_def wf_buffer_def content_def vector_max_size_def block_def)
  have "FindCRLF line_buffer = Inr (Some 9)"
    by (simp add: FindCRLF_search [OF wf] c kCRLF_def Peek_def) (simp add: line_buffer_def)
  moreover from FindCRLF_finds_first_line_end [OF wf] this
  have "content (RetrieveUntil 9 line_buffer) = [13, 10, 72]"
    by (auto simp: c kCRLF_def Cons_eq_append_conv)
  ultimately show ?thesis by blast
qed

text \<open>
  C37: the size computation of \<open>MakeSpace\<close> can wrap around. For a request \<open>len\<close> with
  \<open>writer_index_ + len = 2^64\<close>, \<open>resize(writer_index_ + len)\<close> empties the vector, so a
  successful \<open>EnsureWritableBytes\<close> returns a buffer whose write index lies outside it.
\<close>

theorem EnsureWritableBytes_wraps_around:
  assumes "wf_buffer b"
  shows "\<exists>b'. EnsureWritableBytes (- writer_index b) b = Inr b' \<and> buf_vec b' = []
           \<and> writer_index b' = writer_index b \<and> \<not> wf_buffer b'"
proof -
  note d = wf_bufferD [OF assms]
  have nz: "writer_index b \<noteq> 0" using d by auto
  have u: "unat (- writer_index b) = 2 ^ 64 - unat (writer_index b)"
    using nz by (rule unat_uminus_size_t)
  have short: "WritableBytes b < - writer_index b"
    using d by (simp add: word_less_nat_alt u unat_WritableBytes [OF assms])
  have grow: "PrependableBytes b + WritableBytes b - kCheapPrepend < - writer_index b"
    using d by (simp add: word_less_nat_alt u unat_slack [OF assms])
  have "EnsureWritableBytes (- writer_index b) b = Inr (b\<lparr>buf_vec := []\<rparr>)"
    using short grow by (simp add: EnsureWritableBytes_def MakeSpace_def vector_resize_def)
  then show ?thesis using d by (auto simp: wf_buffer_def)
qed

theorem EnsureWritableBytes_wraps_around_witness:
  "\<exists>b'. EnsureWritableBytes (- 8) sample_buffer = Inr b' \<and> buf_vec b' = [] \<and> \<not> wf_buffer b'"
  using EnsureWritableBytes_wraps_around [OF wf_sample_buffer] by (auto simp: sample_buffer_def)

text \<open>
  C38: \<open>RetrieveAsString(len)\<close> does not check \<open>len\<close> against the readable bytes. Asked for more
  than is readable, it returns the readable bytes followed by whatever lies behind them in the
  vector, and reads outside the vector when \<open>len\<close> reaches past its end.
\<close>

theorem RetrieveAsString_reads_past_content:
  assumes "wf_buffer b" and "length (content b) < unat len"
  shows "RetrieveAsString len b =
           (if unat (reader_index b) + unat len \<le> length (buf_vec b)
            then Inr (content b @ block (unat (writer_index b)) (unat (reader_index b) + unat len) (buf_vec b),
                      RetrieveAll b)
            else Inl OutOfBounds)"
proof -
  note d = wf_bufferD [OF assms(1)]
  have over: "\<not> len < ReadableBytes b"
    using assms by (simp add: word_less_nat_alt length_content)
  have "block (unat (reader_index b)) (unat (reader_index b) + unat len) (buf_vec b) =
      content b @ block (unat (writer_index b)) (unat (reader_index b) + unat len) (buf_vec b)"
    if "unat (reader_index b) + unat len \<le> length (buf_vec b)"
    using d assms that unfolding content_def
    by (intro block_split) (simp_all add: length_content [OF assms(1)] unat_ReadableBytes [OF assms(1)])
  then show ?thesis
    using over by (auto simp: RetrieveAsString_def read_bytes_def Peek_def Retrieve_def)
qed

theorem RetrieveAsString_reads_past_content_witness:
  "RetrieveAsString 3 shifted_buffer = Inr ([1, 2, 0], RetrieveAll shifted_buffer)"
proof -
  have wf: "wf_buffer shifted_buffer" and c: "content shifted_buffer = [1, 2]"
    by (simp_all add: shifted_buffer_def wf_buffer_def content_def vector_max_size_def block_def)
  have "length (content shifted_buffer) < unat (3 :: size_t)" by (simp add: c)
  from RetrieveAsString_reads_past_content [OF wf this] show ?thesis
    by (simp add: c) (simp add: shifted_buffer_def block_def)
qed

end
