(* ===== verification/Printing.thy ===== *)
theory Printing
  imports Prelude
begin

text \<open>
  The parts of \<open>snprintf\<close> the library uses to build names and addresses: decimal conversion
  (\<open>%d\<close>, \<open>%u\<close>) and truncation to the buffer, with the facts that make the names distinct.
\<close>

definition digit :: "nat \<Rightarrow> char" where
  "digit n = char_of (48 + n)"

fun show_nat :: "nat \<Rightarrow> string" where
  "show_nat n = (if n < 10 then [digit n] else show_nat (n div 10) @ [digit (n mod 10)])"

declare show_nat.simps [simp del]

definition show_int :: "int \<Rightarrow> string" where
  "show_int i = (if i < 0 then CHR ''-'' # show_nat (nat (- i)) else show_nat (nat i))"

definition read_nat :: "string \<Rightarrow> nat" where
  "read_nat s = foldl (\<lambda>a c. 10 * a + (of_char c - 48)) 0 s"

definition is_digit :: "char \<Rightarrow> bool" where
  "is_digit c \<longleftrightarrow> 48 \<le> (of_char c :: nat) \<and> (of_char c :: nat) < 58"

text \<open>\<open>snprintf(buf, n, ...)\<close> keeps at most \<open>n - 1\<close> characters and the terminating NUL.\<close>

definition snprintf :: "nat \<Rightarrow> string \<Rightarrow> string" where
  "snprintf n s = take (n - 1) s"

text \<open>The C string of a \<open>std::string\<close>: up to the first NUL.\<close>

definition c_str :: "string \<Rightarrow> string" where
  "c_str s = takeWhile (\<lambda>c. c \<noteq> char_of (0 :: nat)) s"

lemma of_char_digit [simp]: "n < 10 \<Longrightarrow> (of_char (digit n) :: nat) = 48 + n"
  by (simp add: digit_def)

lemma show_nat_ne [simp]: "show_nat n \<noteq> []"
  by (subst show_nat.simps) simp

lemma digits_show_nat: "c \<in> set (show_nat n) \<Longrightarrow> is_digit c"
proof (induction n rule: show_nat.induct)
  case (1 n)
  then show ?case
    using show_nat.simps [of n] by (cases "n < 10") (auto simp: is_digit_def)
qed

lemma read_show_nat [simp]: "read_nat (show_nat n) = n"
proof (induction n rule: show_nat.induct)
  case (1 n)
  show ?case
  proof (cases "n < 10")
    case True
    then show ?thesis by (subst show_nat.simps) (simp add: read_nat_def)
  next
    case False
    then have "read_nat (show_nat n) = 10 * read_nat (show_nat (n div 10)) + n mod 10"
      by (subst show_nat.simps) (simp add: read_nat_def)
    then show ?thesis using 1 False by simp
  qed
qed

lemma show_nat_inj [simp]: "show_nat m = show_nat n \<longleftrightarrow> m = n"
  by (metis read_show_nat)

lemma minus_not_digit: "\<not> is_digit (CHR ''-'')"
  by (simp add: is_digit_def)

lemma show_int_inj [simp]: "show_int i = show_int j \<longleftrightarrow> i = j"
proof -
  have "CHR ''-'' \<notin> set (show_nat n)" for n using digits_show_nat minus_not_digit by blast
  then have "CHR ''-'' # s \<noteq> show_nat n" for s n by (metis list.set_intros(1))
  then show ?thesis by (auto simp: show_int_def split: if_splits) metis
qed

lemma length_show_nat: "n < 10 ^ k \<Longrightarrow> 0 < k \<Longrightarrow> length (show_nat n) \<le> k"
proof (induction k arbitrary: n)
  case (Suc k)
  show ?case
  proof (cases "n < 10")
    case True
    then show ?thesis by (subst show_nat.simps) simp
  next
    case False
    then have "k \<noteq> 0" "n div 10 < 10 ^ k" using Suc.prems by (auto intro: ccontr)
    then have "length (show_nat (n div 10)) \<le> k" using Suc.IH by simp
    then show ?thesis using False by (subst show_nat.simps) simp
  qed
qed simp

lemma snprintf_fits [simp]: "length s < n \<Longrightarrow> snprintf n s = s"
  by (simp add: snprintf_def)

text \<open>Two strings that end in different numbers after a character that is not a digit differ.\<close>

lemma takeWhile_digits:
  assumes "\<And>c. c \<in> set xs \<Longrightarrow> is_digit c" and "\<not> is_digit d"
  shows "takeWhile is_digit (xs @ d # ys) = xs" and "dropWhile is_digit (xs @ d # ys) = d # ys"
  using assms by (simp_all add: takeWhile_append dropWhile_append)

lemma digits_separator_inj:
  assumes "show_nat m @ d # xs = show_nat n @ d # ys" and "\<not> is_digit d"
  shows "m = n" and "xs = ys"
  using arg_cong [OF assms(1), of "takeWhile is_digit"] arg_cong [OF assms(1), of "dropWhile is_digit"] assms(2)
  by (simp_all add: takeWhile_digits digits_show_nat)


lemma separator_inj:
  assumes "xs @ d # us = ys @ d # vs" and "d \<notin> set xs" and "d \<notin> set ys"
  shows "xs = ys \<and> us = vs"
proof -
  have take: "takeWhile (\<lambda>c. c \<noteq> d) (zs @ d # ws) = zs" if "d \<notin> set zs" for zs ws
    using that by (induction zs) auto
  from arg_cong [OF assms(1), of "takeWhile (\<lambda>c. c \<noteq> d)"] have "xs = ys"
    using take assms(2,3) by simp
  with assms(1) show ?thesis by simp
qed

end
