(* ===== verification/Inet_Socket.thy ===== *)
theory Inet_Socket
  imports Printing Channel
begin

text \<open>
  The classes \<open>InetAddress\<close> (src/inet_address.cpp), a wrapper of \<open>sockaddr_in\<close>, and \<open>Socket\<close>
  (src/socket.cpp), a wrapper of a descriptor. The conversions \<open>inet_pton\<close> and \<open>inet_ntop\<close> are
  parameters, the record \<open>inet\<close>, with the law \<open>inet_ok\<close> of their manual pages.
\<close>

section \<open>InetAddress\<close>

record inet =
  inet_pton :: "string \<Rightarrow> bits32 option"
  inet_ntop :: "bits32 \<Rightarrow> string"

text \<open>
  \<open>inet_ntop(3)\<close> prints an IPv4 address in dotted-decimal notation into at most
  \<open>INET_ADDRSTRLEN\<close> = 16 bytes, and \<open>inet_pton(3)\<close> reads that notation back.
\<close>

definition inet_ok :: "inet \<Rightarrow> bool" where
  "inet_ok p \<longleftrightarrow> (\<forall>a. inet_pton p (inet_ntop p a) = Some a \<and> length (inet_ntop p a) \<le> 15
      \<and> (\<forall>c \<in> set (inet_ntop p a). is_digit c \<or> c = CHR ''.''))"

definition AF_INET :: int where "AF_INET = 2"

definition htons :: "16 word \<Rightarrow> 16 word" where
  "htons x = push_bit 8 x OR drop_bit 8 x"

type_synonym InetAddress = sockaddr_in

text \<open>
  The constructor: when \<open>inet_pton\<close> rejects the text, \<open>sin_addr\<close> keeps what the memory held
  before, the argument \<open>junk\<close>.
\<close>

definition new_InetAddress :: "inet \<Rightarrow> InetAddress \<Rightarrow> 16 word \<Rightarrow> string \<Rightarrow> InetAddress" where
  "new_InetAddress p junk port ip =
     \<lparr>sin_family = AF_INET, sin_port = htons port,
      sin_addr = (case inet_pton p (c_str ip) of None \<Rightarrow> sin_addr junk | Some a \<Rightarrow> a)\<rparr>"

definition InetAddress_of :: "sockaddr_in \<Rightarrow> InetAddress" where
  "InetAddress_of addr = addr"

definition ToIp :: "inet \<Rightarrow> InetAddress \<Rightarrow> string" where
  "ToIp p a = snprintf 64 (inet_ntop p (sin_addr a))"

definition ToPort :: "InetAddress \<Rightarrow> 16 word" where
  "ToPort a = htons (sin_port a)"

definition ToIpPort :: "inet \<Rightarrow> InetAddress \<Rightarrow> string" where
  "ToIpPort p a =
     (let buf = snprintf 64 (inet_ntop p (sin_addr a));
          port = htons (sin_port a)
      in buf @ snprintf (64 - length buf) (CHR '':'' # show_nat (unat port)))"

definition GetSockAddr :: "InetAddress \<Rightarrow> sockaddr_in" where
  "GetSockAddr a = a"

definition SetSockAddr :: "sockaddr_in \<Rightarrow> InetAddress \<Rightarrow> InetAddress" where
  "SetSockAddr addr a = addr"

section \<open>Socket\<close>

type_synonym ('k, 'cb, 'm) sock_op =
  "fd \<Rightarrow> ('k, 'cb, 'm) chan_world_scheme \<Rightarrow> ('k, 'cb, 'm) chan_world_scheme"

text \<open>A \<open>Socket\<close> is nothing but the descriptor it was constructed with.\<close>

definition new_Socket :: "fd \<Rightarrow> fd" where
  "new_Socket sockfd = sockfd"

definition Socket_sockfd :: "fd \<Rightarrow> fd" where
  "Socket_sockfd s = s"

definition delete_Socket :: "'k env \<Rightarrow> ('k, 'cb, 'm) sock_op" where
  "delete_Socket e sockfd w = w\<lparr>kern := sys_close e sockfd (kern w), trace := trace w @ [Closed sockfd]\<rparr>"

definition BindAddress :: "'k env \<Rightarrow> InetAddress \<Rightarrow> ('k, 'cb, 'm) sock_op" where
  "BindAddress e localaddr sockfd w =
     (case sys_bind e sockfd localaddr (kern w) of
        (SysErr errno, k) \<Rightarrow> w\<lparr>kern := k, trace := trace w @ [LogError ''bind error'']\<rparr>
      | (SysOk _, k) \<Rightarrow> w\<lparr>kern := k\<rparr>)"

definition Socket_Listen :: "'k env \<Rightarrow> ('k, 'cb, 'm) sock_op" where
  "Socket_Listen e sockfd w =
     (case sys_listen e sockfd 1024 (kern w) of
        (SysErr errno, k) \<Rightarrow> w\<lparr>kern := k, trace := trace w @ [LogError ''listen error'']\<rparr>
      | (SysOk _, k) \<Rightarrow> w\<lparr>kern := k\<rparr>)"

text \<open>\<open>Accept\<close> returns the descriptor and the peer's address, or the error and the address it was given.\<close>

definition Accept ::
  "'k env \<Rightarrow> InetAddress \<Rightarrow> fd \<Rightarrow> ('k, 'cb, 'm) chan_world_scheme \<Rightarrow>
   fd sysres \<times> InetAddress \<times> ('k, 'cb, 'm) chan_world_scheme" where
  "Accept e peeraddr sockfd w =
     (case sys_accept4 e sockfd (kern w) of
        (SysErr errno, k) \<Rightarrow> (SysErr errno, peeraddr, w\<lparr>kern := k\<rparr>)
      | (SysOk (connfd, addr), k) \<Rightarrow> (SysOk connfd, SetSockAddr addr peeraddr, w\<lparr>kern := k\<rparr>))"

definition ShutdownWrite :: "'k env \<Rightarrow> ('k, 'cb, 'm) sock_op" where
  "ShutdownWrite e sockfd w =
     (case sys_shutdown e sockfd (kern w) of
        (SysErr errno, k) \<Rightarrow> w\<lparr>kern := k, trace := trace w @ [LogError ''shutdown error'']\<rparr>
      | (SysOk _, k) \<Rightarrow> w\<lparr>kern := k, trace := trace w @ [ShutdownWr sockfd]\<rparr>)"

definition SetTcpNoDelay :: "'k env \<Rightarrow> bool \<Rightarrow> ('k, 'cb, 'm) sock_op" where
  "SetTcpNoDelay e on sockfd w = w\<lparr>kern := sys_setsockopt e sockfd TCP_NODELAY (if on then 1 else 0) (kern w)\<rparr>"

definition SetReuseAddr :: "'k env \<Rightarrow> bool \<Rightarrow> ('k, 'cb, 'm) sock_op" where
  "SetReuseAddr e on sockfd w = w\<lparr>kern := sys_setsockopt e sockfd SO_REUSEADDR (if on then 1 else 0) (kern w)\<rparr>"

definition SetReusePort :: "'k env \<Rightarrow> bool \<Rightarrow> ('k, 'cb, 'm) sock_op" where
  "SetReusePort e on sockfd w = w\<lparr>kern := sys_setsockopt e sockfd SO_REUSEPORT (if on then 1 else 0) (kern w)\<rparr>"

definition SetKeepAlive :: "'k env \<Rightarrow> bool \<Rightarrow> ('k, 'cb, 'm) sock_op" where
  "SetKeepAlive e on sockfd w = w\<lparr>kern := sys_setsockopt e sockfd SO_KEEPALIVE (if on then 1 else 0) (kern w)\<rparr>"

section \<open>Facts\<close>

lemma length_port: "length (show_nat (unat (port :: 16 word))) \<le> 5"
proof -
  have "unat port < 2 ^ LENGTH(16)" by (rule unsigned_less)
  then show ?thesis by (intro length_show_nat) simp_all
qed

lemma sock_op_frame [simp, frame_simps]:
  "chans (delete_Socket e s w) = chans w" "chan_world.more (delete_Socket e s w) = chan_world.more w"
  "chans (BindAddress e a s w) = chans w" "chan_world.more (BindAddress e a s w) = chan_world.more w"
  "chans (Socket_Listen e s w) = chans w" "chan_world.more (Socket_Listen e s w) = chan_world.more w"
  "chans (ShutdownWrite e s w) = chans w" "chan_world.more (ShutdownWrite e s w) = chan_world.more w"
  "chans (SetReuseAddr e b s w) = chans w" "chan_world.more (SetReuseAddr e b s w) = chan_world.more w"
  "chans (SetReusePort e b s w) = chans w" "chan_world.more (SetReusePort e b s w) = chan_world.more w"
  "chans (SetKeepAlive e b s w) = chans w" "chan_world.more (SetKeepAlive e b s w) = chan_world.more w"
  "trace (SetKeepAlive e b s w) = trace w"
  by (simp_all add: delete_Socket_def BindAddress_def Socket_Listen_def ShutdownWrite_def SetReuseAddr_def
      SetReusePort_def SetKeepAlive_def split: prod.split sysres.split)

lemma htons_involution [simp]: "htons (htons x) = x"
proof (rule bit_word_eqI)
  fix n assume "n < LENGTH(16)"
  then show "bit (htons (htons x)) n \<longleftrightarrow> bit x n"
    by (auto simp: htons_def bit_simps)
qed

lemma htons_inj [simp]: "htons x = htons y \<longleftrightarrow> x = y"
  by (metis htons_involution)

lemma dotted_no_nul: "is_digit c \<or> c = CHR ''.'' \<Longrightarrow> c \<noteq> char_of (0 :: nat)"
proof
  assume "is_digit c \<or> c = CHR ''.''"
  then have "(of_char c :: nat) \<noteq> 0" by (auto simp: is_digit_def)
  moreover assume "c = char_of (0 :: nat)"
  ultimately show False by simp
qed

lemma c_str_id: "(\<And>c. c \<in> set s \<Longrightarrow> c \<noteq> char_of (0 :: nat)) \<Longrightarrow> c_str s = s"
  by (simp add: c_str_def takeWhile_eq_all_conv)

lemma ntop_facts:
  assumes "inet_ok p"
  shows "snprintf 64 (inet_ntop p a) = inet_ntop p a" and "c_str (inet_ntop p a) = inet_ntop p a"
    and "CHR '':'' \<notin> set (inet_ntop p a)" and "length (inet_ntop p a) \<le> 15"
proof -
  have digits: "\<forall>c \<in> set (inet_ntop p a). is_digit c \<or> c = CHR ''.''"
    using assms by (simp add: inet_ok_def)
  show "length (inet_ntop p a) \<le> 15" using assms by (simp add: inet_ok_def)
  then show "snprintf 64 (inet_ntop p a) = inet_ntop p a" by simp
  show "c_str (inet_ntop p a) = inet_ntop p a" using digits dotted_no_nul by (intro c_str_id) blast
  show "CHR '':'' \<notin> set (inet_ntop p a)" using digits by (auto simp: is_digit_def)
qed

lemma ToIpPort_eq:
  assumes "inet_ok p"
  shows "ToIpPort p a = inet_ntop p (sin_addr a) @ CHR '':'' # show_nat (unat (ToPort a))"
proof -
  from length_port [of "ToPort a"] show ?thesis
    using ntop_facts(1,4) [OF assms, of "sin_addr a"] by (simp add: ToIpPort_def Let_def ToPort_def)
qed

lemma length_ToIpPort: "inet_ok p \<Longrightarrow> length (ToIpPort p a) \<le> 21"
  using length_port [of "ToPort a"] ntop_facts(4) [of p "sin_addr a"] by (simp add: ToIpPort_eq)

section \<open>Properties\<close>

text \<open>
  C27: addresses survive printing. The port and the dotted text an \<open>InetAddress\<close> prints give
  back the same address through the constructor, whatever the memory held before; and
  \<open>ToIpPort\<close> is never cut off by its 64-byte buffer and tells any two different addresses or
  ports apart.
\<close>

theorem InetAddress_roundtrip:
  assumes "inet_ok p" and "sin_family a = AF_INET"
  shows "new_InetAddress p junk (ToPort a) (ToIp p a) = a
    \<and> (ToIpPort p a = ToIpPort p b \<longrightarrow> sin_addr a = sin_addr b \<and> sin_port a = sin_port b)
    \<and> length (ToIpPort p a) \<le> 21"
proof (intro conjI impI)
  show "new_InetAddress p junk (ToPort a) (ToIp p a) = a"
    using assms ntop_facts [OF assms(1)]
    by (simp add: new_InetAddress_def ToPort_def ToIp_def inet_ok_def)
  have unat_inj: "unat x = unat y \<Longrightarrow> x = y" for x y :: "16 word" by (simp add: word_unat_eq_iff)
  assume "ToIpPort p a = ToIpPort p b"
  then have eq: "inet_ntop p (sin_addr a) = inet_ntop p (sin_addr b)" "unat (ToPort a) = unat (ToPort b)"
    unfolding ToIpPort_eq [OF assms(1)]
    using separator_inj [OF _ ntop_facts(3) [OF assms(1)] ntop_facts(3) [OF assms(1)]] by (blast, fastforce)
  show "sin_addr a = sin_addr b" using eq(1) assms(1) by (metis inet_ok_def option.inject)
  show "sin_port a = sin_port b" using unat_inj [OF eq(2)] by (simp add: ToPort_def)
qed (rule length_ToIpPort [OF assms(1)])


text \<open>Dotted-decimal conversion of the four bytes of an address in memory order.\<close>

definition dotted_ntop :: "bits32 \<Rightarrow> string" where
  "dotted_ntop a = show_nat (unat a mod 256) @ CHR ''.'' # show_nat (unat a div 256 mod 256) @ CHR ''.'' #
     show_nat (unat a div 65536 mod 256) @ CHR ''.'' # show_nat (unat a div 16777216)"

definition next_part :: "string \<Rightarrow> nat \<times> string" where
  "next_part s = (read_nat (takeWhile is_digit s), drop 1 (dropWhile is_digit s))"

definition dotted_pton :: "string \<Rightarrow> bits32 option" where
  "dotted_pton s =
     (let (a, s) = next_part s; (b, s) = next_part s; (c, s) = next_part s; (d, s) = next_part s
      in if a < 256 \<and> b < 256 \<and> c < 256 \<and> d < 256 \<and> s = []
         then Some (of_nat (a + 256 * b + 65536 * c + 16777216 * d)) else None)"

definition dotted_inet :: inet where
  "dotted_inet = \<lparr>inet_pton = dotted_pton, inet_ntop = dotted_ntop\<rparr>"

lemma dot_not_digit [simp]: "\<not> is_digit (CHR ''.'')"
  by (simp add: is_digit_def)

lemma next_part_show [simp]: "next_part (show_nat n @ CHR ''.'' # s) = (n, s)" "next_part (show_nat n) = (n, [])"
proof -
  have all: "takeWhile is_digit (show_nat n) = show_nat n" "dropWhile is_digit (show_nat n) = []"
    using digits_show_nat [of _ n] by (auto simp: takeWhile_eq_all_conv)
  show "next_part (show_nat n) = (n, [])" unfolding next_part_def all by simp
  show "next_part (show_nat n @ CHR ''.'' # s) = (n, s)"
    by (simp add: next_part_def takeWhile_digits digits_show_nat)
qed

lemma four_bytes: "n mod 256 + 256 * (n div 256 mod 256) + 65536 * (n div 65536 mod 256) + 16777216 * (n div 16777216) = (n :: nat)"
proof -
  have split: "m = m mod 256 + 256 * (m div 256)" for m :: nat by simp
  have sum: "a + 256 * b + 65536 * c + 16777216 * d = m" if "m = a + 256 * q" "q = b + 256 * r" "r = c + 256 * d"
    for a b c d m q r :: nat using that by simp
  have eqs: "n div 65536 = n div 256 div 256" "n div 16777216 = n div 256 div 256 div 256"
    by (simp_all only: div_mult2_eq [symmetric] numeral_times_numeral semiring_norm)
  show ?thesis unfolding eqs by (rule sum [OF split split split])
qed

lemma dotted_inet_ok: "inet_ok dotted_inet"
proof -
  have top: "unat a div 16777216 < 256" for a :: bits32
  proof -
    have "unat a < 2 ^ LENGTH(32)" by (rule unsigned_less)
    then show ?thesis by (simp add: less_mult_imp_div_less)
  qed
  have "dotted_pton (dotted_ntop a) = Some a" for a
    using four_bytes [of "unat a"] top [of a] by (simp add: dotted_pton_def dotted_ntop_def Let_def del: of_nat_add of_nat_mult)
  moreover have three: "length (show_nat n) \<le> 3" if "n < 256" for n
    using that by (intro length_show_nat) simp_all
  have "length (dotted_ntop a) \<le> 15" for a
    using three [of "unat a mod 256"] three [of "unat a div 256 mod 256"] three [of "unat a div 65536 mod 256"]
      three [OF top [of a]] by (simp add: dotted_ntop_def)
  ultimately show ?thesis
    by (auto simp: inet_ok_def dotted_inet_def dotted_ntop_def dest: digits_show_nat)
qed

theorem InetAddress_roundtrip_witness:
  "new_InetAddress dotted_inet \<lparr>sin_family = 0, sin_port = 0, sin_addr = 5\<rparr>
     (ToPort \<lparr>sin_family = AF_INET, sin_port = 80, sin_addr = 16777343\<rparr>)
     (ToIp dotted_inet \<lparr>sin_family = AF_INET, sin_port = 80, sin_addr = 16777343\<rparr>)
   = \<lparr>sin_family = AF_INET, sin_port = 80, sin_addr = 16777343\<rparr>"
  using InetAddress_roundtrip [OF dotted_inet_ok, of "\<lparr>sin_family = AF_INET, sin_port = 80, sin_addr = 16777343\<rparr>"]
  by simp

end
