(* ===== verification/Tcp_Connection.thy ===== *)
theory Tcp_Connection
  imports Byte_Buffer Inet_Socket Event_Loop
begin

text \<open>
  The class \<open>TcpConnection\<close> (include/cutemuduo/tcp_connection.hpp, src/tcp_connection.cpp).
  Connections live in a store from pointers to objects, a new part of the program state. The
  application's callbacks are functions of the environment that return the library calls they
  make; \<open>perform\<close> makes such a call. The close callback belongs to \<open>TcpServer\<close>, so what it does
  is an argument of the operations that call it.
\<close>

section \<open>State\<close>

datatype StateE = kConnecting | kConnected | kDisconnecting | kDisconnected

text \<open>
  A slot for an application callback records whether it was set. The slot of the close callback
  holds what the closure of \<open>TcpServer::NewConnection\<close> captures: the server and the connection.
  \<open>context_\<close> is a \<open>std::any\<close>: empty, or a value of the application, identified by a number.
\<close>

record tcp_connection =
  tc_loop :: ptr
  tc_name :: string
  tc_state :: StateE
  tc_reading :: bool
  tc_socket :: fd
  tc_channel :: ptr
  tc_local_addr :: InetAddress
  tc_peer_addr :: InetAddress
  tc_connection_callback :: bool
  tc_close_callback :: "(ptr \<times> ptr) option"
  tc_message_callback :: bool
  tc_write_complete_callback :: bool
  tc_high_water_mark :: size_t
  tc_high_water_mark_callback :: bool
  tc_input_buffer :: buffer
  tc_output_buffer :: buffer
  tc_context :: "nat option"

record 'k tcp_world = "'k loop_world" +
  conns :: "ptr \<Rightarrow> tcp_connection"

type_synonym ('k, 'm) tcp_op = "('k, 'm) tcp_world_scheme \<Rightarrow> ('k, 'm) tcp_world_scheme result"

definition on_conn ::
  "(tcp_connection \<Rightarrow> tcp_connection) \<Rightarrow> ptr \<Rightarrow> ('k, 'm) tcp_world_scheme \<Rightarrow> ('k, 'm) tcp_world_scheme" where
  "on_conn f c w = w\<lparr>conns := (conns w)(c := f (conns w c))\<rparr>"

definition conn_chan :: "('k, 'm) tcp_world_scheme \<Rightarrow> ptr \<Rightarrow> callback channel" where
  "conn_chan w c = chans w (tc_channel (conns w c))"

definition log_error :: "string \<Rightarrow> ('k, 'm) tcp_world_scheme \<Rightarrow> ('k, 'm) tcp_world_scheme" where
  "log_error msg w = w\<lparr>trace := trace w @ [LogError msg]\<rparr>"

section \<open>Construction\<close>

definition CheckLoopNotNull :: "ptr option \<Rightarrow> ptr result" where
  "CheckLoopNotNull loop = (case loop of None \<Rightarrow> Inl LogFatal | Some l \<Rightarrow> Inr l)"

text \<open>The object is allocated at \<open>c\<close> and its channel at \<open>ch\<close>.\<close>

definition new_TcpConnection ::
  "'k env \<Rightarrow> ptr option \<Rightarrow> ptr \<Rightarrow> ptr \<Rightarrow> string \<Rightarrow> fd \<Rightarrow> InetAddress \<Rightarrow> InetAddress \<Rightarrow> ('k, 'm) tcp_op" where
  "new_TcpConnection e loop c ch name_arg sockfd local_addr peer_addr w =
     andThen (CheckLoopNotNull loop) (\<lambda>l.
     andThen (new_Buffer kInitialSize) (\<lambda>b.
       let conn = \<lparr>tc_loop = l, tc_name = name_arg, tc_state = kConnecting, tc_reading = True,
                   tc_socket = sockfd, tc_channel = ch, tc_local_addr = local_addr, tc_peer_addr = peer_addr,
                   tc_connection_callback = False, tc_close_callback = None, tc_message_callback = False,
                   tc_write_complete_callback = False, tc_high_water_mark = 64 * 1024 * 1024,
                   tc_high_water_mark_callback = False, tc_input_buffer = b, tc_output_buffer = b,
                   tc_context = None\<rparr>;
           chan = SetErrorCallback (ConnHandleError c) (SetCloseCallback (ConnHandleClose c)
                    (SetWriteCallback (ConnHandleWrite c) (SetReadCallback (ConnHandleRead c) (new_Channel l sockfd))));
           w = w\<lparr>chans := (chans w)(ch := chan), conns := (conns w)(c := conn)\<rparr>
       in Inr (SetKeepAlive e True sockfd w)))"

text \<open>The destructor of a connection destroys its \<open>Socket\<close>, which closes the descriptor.\<close>

definition delete_TcpConnection :: "'k env \<Rightarrow> ptr \<Rightarrow> ('k, 'm) tcp_world_scheme \<Rightarrow> ('k, 'm) tcp_world_scheme" where
  "delete_TcpConnection e c w = delete_Socket e (tc_socket (conns w c)) w"

definition SetState :: "StateE \<Rightarrow> tcp_connection \<Rightarrow> tcp_connection" where
  "SetState new_s conn = conn\<lparr>tc_state := new_s\<rparr>"

definition SetConnectionCallback :: "bool \<Rightarrow> tcp_connection \<Rightarrow> tcp_connection" where
  "SetConnectionCallback cb conn = conn\<lparr>tc_connection_callback := cb\<rparr>"

definition Conn_SetCloseCallback :: "ptr \<times> ptr \<Rightarrow> tcp_connection \<Rightarrow> tcp_connection" where
  "Conn_SetCloseCallback cb conn = conn\<lparr>tc_close_callback := Some cb\<rparr>"

definition SetMessageCallback :: "bool \<Rightarrow> tcp_connection \<Rightarrow> tcp_connection" where
  "SetMessageCallback cb conn = conn\<lparr>tc_message_callback := cb\<rparr>"

definition SetWriteCompleteCallback :: "bool \<Rightarrow> tcp_connection \<Rightarrow> tcp_connection" where
  "SetWriteCompleteCallback cb conn = conn\<lparr>tc_write_complete_callback := cb\<rparr>"

definition SetHighWaterMarkCallback :: "bool \<Rightarrow> size_t \<Rightarrow> tcp_connection \<Rightarrow> tcp_connection" where
  "SetHighWaterMarkCallback cb high_water_mark conn =
     conn\<lparr>tc_high_water_mark_callback := cb, tc_high_water_mark := high_water_mark\<rparr>"

definition StateToString :: "tcp_connection \<Rightarrow> string" where
  "StateToString conn = (case tc_state conn of
      kConnecting \<Rightarrow> ''kConnecting'' | kConnected \<Rightarrow> ''kConnected''
    | kDisconnecting \<Rightarrow> ''kDisconnecting'' | kDisconnected \<Rightarrow> ''kDisconnected'')"

definition IsConnected :: "tcp_connection \<Rightarrow> bool" where
  "IsConnected conn \<longleftrightarrow> tc_state conn = kConnected"

definition GetLoop :: "tcp_connection \<Rightarrow> ptr" where
  "GetLoop conn = tc_loop conn"

definition GetName :: "tcp_connection \<Rightarrow> string" where
  "GetName conn = tc_name conn"

definition GetLocalAddress :: "tcp_connection \<Rightarrow> InetAddress" where
  "GetLocalAddress conn = tc_local_addr conn"

definition GetPeerAddress :: "tcp_connection \<Rightarrow> InetAddress" where
  "GetPeerAddress conn = tc_peer_addr conn"

text \<open>The application's own data. \<open>GetMutableContext\<close> hands out a pointer, through which the caller
  replaces the value.\<close>

definition SetContext :: "nat option \<Rightarrow> tcp_connection \<Rightarrow> tcp_connection" where
  "SetContext context conn = conn\<lparr>tc_context := context\<rparr>"

definition GetContext :: "tcp_connection \<Rightarrow> nat option" where
  "GetContext conn = tc_context conn"

definition GetMutableContext :: "(nat option \<Rightarrow> nat option) \<Rightarrow> tcp_connection \<Rightarrow> tcp_connection" where
  "GetMutableContext f conn = conn\<lparr>tc_context := f (tc_context conn)\<rparr>"

section \<open>Sending\<close>

text \<open>
  \<open>SendInLoop(data, len)\<close>, with \<open>data\<close> the \<open>len\<close> bytes at the pointer. The first part tries to
  write at once and returns \<open>nwrote\<close>, \<open>remaining\<close> and \<open>fault_error\<close>; the second part stores the
  rest in the output buffer.
\<close>

definition send_now ::
  "'k env \<Rightarrow> tid \<Rightarrow> ptr \<Rightarrow> byte list \<Rightarrow> ('k, 'm) tcp_world_scheme \<Rightarrow> nat \<times> size_t \<times> bool \<times> ('k, 'm) tcp_world_scheme" where
  "send_now e me c data w =
     (let conn = conns w c; len = of_nat (length data)
      in if \<not> IsWriting (conn_chan w c) \<and> ReadableBytes (tc_output_buffer conn) = 0 then
           (case sys_write e (ch_fd (conn_chan w c)) data (kern w) of
              (SysOk nwrote, k) \<Rightarrow>
                (let remaining = len - of_nat nwrote;
                     w = w\<lparr>kern := k, trace := trace w @ [Wrote (ch_fd (conn_chan w c)) (take nwrote data)]\<rparr>
                 in (nwrote, remaining, False,
                     if remaining = 0 \<and> tc_write_complete_callback conn
                     then QueueInLoop e me (tc_loop conn) (FWriteComplete c) w else w))
            | (SysErr errno, k) \<Rightarrow>
                (let w = w\<lparr>kern := k\<rparr>
                 in if errno \<noteq> EWOULDBLOCK
                    then (0, len, errno = EPIPE \<or> errno = ECONNRESET, log_error ''TcpConnection::sendInLoop'' w)
                    else (0, len, False, w)))
         else (0, len, False, w))"

definition send_rest ::
  "'k env \<Rightarrow> tid \<Rightarrow> ptr \<Rightarrow> byte list \<Rightarrow> size_t \<Rightarrow> ('k, 'm) tcp_op" where
  "send_rest e me c rest remaining w =
     (let conn = conns w c;
          old_len = ReadableBytes (tc_output_buffer conn);
          w = (if old_len + remaining \<ge> tc_high_water_mark conn \<and> old_len < tc_high_water_mark conn
                  \<and> tc_high_water_mark_callback conn
               then QueueInLoop e me (tc_loop conn) (FHighWaterMark c (old_len + remaining)) w else w)
      in andThen (Append rest remaining (tc_output_buffer conn)) (\<lambda>b.
           let w = on_conn (\<lambda>conn. conn\<lparr>tc_output_buffer := b\<rparr>) c w
           in if \<not> IsWriting (conn_chan w c) then EnableWriting (Channel_Update e) (tc_channel conn) w else Inr w))"

definition SendInLoop :: "'k env \<Rightarrow> tid \<Rightarrow> ptr \<Rightarrow> byte list \<Rightarrow> ('k, 'm) tcp_op" where
  "SendInLoop e me c data w =
     (if tc_state (conns w c) = kDisconnected then Inr (log_error ''disconnected, give up writing'' w)
      else case send_now e me c data w of (nwrote, remaining, fault_error, w) \<Rightarrow>
             if \<not> fault_error \<and> remaining > 0 then send_rest e me c (drop nwrote data) remaining w else Inr w)"

definition ShutdownInLoop :: "'k env \<Rightarrow> ptr \<Rightarrow> ('k, 'm) tcp_op" where
  "ShutdownInLoop e c w =
     Inr (if \<not> IsWriting (conn_chan w c) then ShutdownWrite e (tc_socket (conns w c)) w else w)"

definition Send :: "'k env \<Rightarrow> tid \<Rightarrow> ptr \<Rightarrow> byte list \<Rightarrow> ('k, 'm) tcp_op" where
  "Send e me c msg w =
     (if tc_state (conns w c) = kConnected then
        (if IsInLoopThread me (tc_loop (conns w c)) w then SendInLoop e me c msg w
         else RunInLoop e me (\<lambda>_. SendInLoop e me c msg) (tc_loop (conns w c)) (FSendInLoop c msg) w)
      else Inr w)"

text \<open>\<open>Send(Buffer*)\<close> with the input buffer of connection \<open>d\<close>, the one message callbacks receive.\<close>

definition send_buffer_body :: "'k env \<Rightarrow> tid \<Rightarrow> ptr \<Rightarrow> ptr \<Rightarrow> ('k, 'm) tcp_op" where
  "send_buffer_body e me c d w =
     (let b = tc_input_buffer (conns w d)
      in andThen (read_bytes (Peek b) (ReadableBytes b) b) (\<lambda>data.
         andThen (SendInLoop e me c data w) (\<lambda>w.
           Inr (on_conn (\<lambda>conn. conn\<lparr>tc_input_buffer := RetrieveAll (tc_input_buffer conn)\<rparr>) d w))))"

definition Send_Buffer :: "'k env \<Rightarrow> tid \<Rightarrow> ptr \<Rightarrow> ptr \<Rightarrow> ('k, 'm) tcp_op" where
  "Send_Buffer e me c d w =
     (if tc_state (conns w c) = kConnected then
        (if IsInLoopThread me (tc_loop (conns w c)) w then send_buffer_body e me c d w
         else RunInLoop e me (\<lambda>_. send_buffer_body e me c d) (tc_loop (conns w c)) (FSendBuffer c d) w)
      else Inr w)"

definition Shutdown :: "'k env \<Rightarrow> tid \<Rightarrow> ptr \<Rightarrow> ('k, 'm) tcp_op" where
  "Shutdown e me c w =
     (if tc_state (conns w c) = kConnected
      then RunInLoop e me (\<lambda>_. ShutdownInLoop e c) (tc_loop (conns w c)) (FShutdownInLoop c)
             (on_conn (SetState kDisconnecting) c w)
      else Inr w)"

section \<open>Application callbacks\<close>

text \<open>
  One library call of an application callback; \<open>buf\<close> is the connection whose input buffer the
  callback was handed, if any.
\<close>

definition perform :: "'k env \<Rightarrow> tid \<Rightarrow> ptr option \<Rightarrow> action \<Rightarrow> ('k, 'm) tcp_op" where
  "perform e me buf a w = (case a of
      DoSend c bs \<Rightarrow> Send e me c bs w
    | DoSendBuffer c \<Rightarrow> (case buf of None \<Rightarrow> Inr w | Some d \<Rightarrow> Send_Buffer e me c d w)
    | DoShutdown c \<Rightarrow> Shutdown e me c w
    | DoRetrieve n \<Rightarrow> (case buf of None \<Rightarrow> Inr w
        | Some d \<Rightarrow> Inr (on_conn (\<lambda>conn. conn\<lparr>tc_input_buffer := Retrieve n (tc_input_buffer conn)\<rparr>) d w))
    | DoRetrieveAll \<Rightarrow> (case buf of None \<Rightarrow> Inr w
        | Some d \<Rightarrow> Inr (on_conn (\<lambda>conn. conn\<lparr>tc_input_buffer := RetrieveAll (tc_input_buffer conn)\<rparr>) d w))
    | DoQueueInLoop l n \<Rightarrow> Inr (QueueInLoop e me l (FUser n) w)
    | DoSetContext c v \<Rightarrow> Inr (on_conn (SetContext v) c w)
    | DoQuit l \<Rightarrow> Inr (Quit e me l w))"

definition connection_callback :: "'k env \<Rightarrow> tid \<Rightarrow> ptr \<Rightarrow> ('k, 'm) tcp_op" where
  "connection_callback e me c w =
     (if tc_connection_callback (conns w c) then
        (case on_connection e c (IsConnected (conns w c)) (kern w) of (acts, k) \<Rightarrow>
           foldE (perform e me None) acts
             (w\<lparr>kern := k, trace := trace w @ [ConnectionCb c (IsConnected (conns w c))]\<rparr>))
      else Inl BadFunctionCall)"

definition message_callback :: "'k env \<Rightarrow> tid \<Rightarrow> int \<Rightarrow> ptr \<Rightarrow> ('k, 'm) tcp_op" where
  "message_callback e me t c w =
     (if tc_message_callback (conns w c) then
        (let bs = content (tc_input_buffer (conns w c))
         in case on_message e c bs t (kern w) of (acts, k) \<Rightarrow>
              foldE (perform e me (Some c)) acts (w\<lparr>kern := k, trace := trace w @ [MessageCb c bs]\<rparr>))
      else Inl BadFunctionCall)"

definition write_complete_callback :: "'k env \<Rightarrow> tid \<Rightarrow> ptr \<Rightarrow> ('k, 'm) tcp_op" where
  "write_complete_callback e me c w =
     (if tc_write_complete_callback (conns w c) then
        (case on_write_complete e c (kern w) of (acts, k) \<Rightarrow>
           foldE (perform e me None) acts (w\<lparr>kern := k, trace := trace w @ [WriteCompleteCb c]\<rparr>))
      else Inl BadFunctionCall)"

definition high_water_mark_callback :: "'k env \<Rightarrow> tid \<Rightarrow> ptr \<Rightarrow> size_t \<Rightarrow> ('k, 'm) tcp_op" where
  "high_water_mark_callback e me c n w =
     (if tc_high_water_mark_callback (conns w c) then
        (case on_high_water_mark e c n (kern w) of (acts, k) \<Rightarrow>
           foldE (perform e me None) acts (w\<lparr>kern := k, trace := trace w @ [HighWaterMarkCb c n]\<rparr>))
      else Inl BadFunctionCall)"

section \<open>Handlers\<close>

text \<open>\<open>close srv captured\<close> is the body of the close callback, \<open>RemoveConnection(conn_ptr)\<close>.\<close>

definition HandleClose ::
  "'k env \<Rightarrow> tid \<Rightarrow> (ptr \<Rightarrow> ptr \<Rightarrow> ('k, 'm) tcp_op) \<Rightarrow> ptr \<Rightarrow> ('k, 'm) tcp_op" where
  "HandleClose e me close c w =
     andThen (DisableAll (Channel_Update e) (tc_channel (conns w c)) (on_conn (SetState kDisconnected) c w)) (\<lambda>w.
     andThen (connection_callback e me c w) (\<lambda>w.
       case tc_close_callback (conns w c) of None \<Rightarrow> Inl BadFunctionCall
       | Some (srv, captured) \<Rightarrow> close srv captured w))"

definition HandleError :: "'k env \<Rightarrow> ptr \<Rightarrow> ('k, 'm) tcp_world_scheme \<Rightarrow> ('k, 'm) tcp_world_scheme" where
  "HandleError e c w =
     (case sys_getsockopt_error e (ch_fd (conn_chan w c)) (kern w) of (r, k) \<Rightarrow>
        let err = (case r of SysErr errno \<Rightarrow> errno | SysOk optval \<Rightarrow> optval)
        in log_error (''TcpConnection::HandleError name:'' @ tc_name (conns w c) @ '' - SO_ERROR:'' @ show_int err)
             (w\<lparr>kern := k\<rparr>))"

definition Conn_HandleRead ::
  "'k env \<Rightarrow> tid \<Rightarrow> (ptr \<Rightarrow> ptr \<Rightarrow> ('k, 'm) tcp_op) \<Rightarrow> int \<Rightarrow> ptr \<Rightarrow> ('k, 'm) tcp_op" where
  "Conn_HandleRead e me close receive_time c w =
     andThen (ReadFd e (ch_fd (conn_chan w c)) (tc_input_buffer (conns w c)) (kern w)) (\<lambda>(r, b, k).
       let w = on_conn (\<lambda>conn. conn\<lparr>tc_input_buffer := b\<rparr>) c (w\<lparr>kern := k\<rparr>)
       in case r of
            SysOk n \<Rightarrow> if n > 0 then message_callback e me receive_time c w else HandleClose e me close c w
          | SysErr savedErrno \<Rightarrow> Inr (HandleError e c (log_error ''TcpConnection::handleRead'' w)))"

definition HandleWrite :: "'k env \<Rightarrow> tid \<Rightarrow> ptr \<Rightarrow> ('k, 'm) tcp_op" where
  "HandleWrite e me c w =
     (if IsWriting (conn_chan w c) then
        andThen (WriteFd e (ch_fd (conn_chan w c)) (tc_output_buffer (conns w c)) (kern w)) (\<lambda>(r, wrote, b, k).
          let f = ch_fd (conn_chan w c);
              w = on_conn (\<lambda>conn. conn\<lparr>tc_output_buffer := b\<rparr>) c
                    (w\<lparr>kern := k, trace := (case r of SysErr _ \<Rightarrow> trace w | SysOk _ \<Rightarrow> trace w @ [Wrote f wrote])\<rparr>)
          in if (case r of SysErr _ \<Rightarrow> False | SysOk n \<Rightarrow> n > 0) then
               (if ReadableBytes (tc_output_buffer (conns w c)) = 0 then
                  andThen (DisableWriting (Channel_Update e) (tc_channel (conns w c)) w) (\<lambda>w.
                    let w = (if tc_write_complete_callback (conns w c)
                             then QueueInLoop e me (tc_loop (conns w c)) (FWriteComplete c) w else w)
                    in if tc_state (conns w c) = kDisconnecting then ShutdownInLoop e c w else Inr w)
                else Inr (log_error ''TcpConnection::HandleWrite'' w))
             else Inr (log_error ''TcpConnection is down, no more writing'' w))
      else Inr w)"

section \<open>Establishing and destroying\<close>

definition ConnectEstablished :: "'k env \<Rightarrow> tid \<Rightarrow> ptr \<Rightarrow> ('k, 'm) tcp_op" where
  "ConnectEstablished e me c w =
     (let ch = tc_channel (conns w c);
          w = on_chan (Tie c) ch (on_conn (SetState kConnected) c w)
      in andThen (EnableReading (Channel_Update e) ch w) (connection_callback e me c))"

definition ConnectDestroyed :: "'k env \<Rightarrow> tid \<Rightarrow> ptr \<Rightarrow> ('k, 'm) tcp_op" where
  "ConnectDestroyed e me c w =
     andThen
       (if tc_state (conns w c) = kConnected then
          andThen (DisableAll (Channel_Update e) (tc_channel (conns w c)) (on_conn (SetState kDisconnected) c w))
            (connection_callback e me c)
        else Inr w)
       (\<lambda>w. Channel_Remove e (tc_channel (conns w c)) w)"


section \<open>Frames\<close>

lemma on_conn_sel [simp, frame_simps]:
  "kern (on_conn f c w) = kern w" "trace (on_conn f c w) = trace w" "chans (on_conn f c w) = chans w"
  "pollers (on_conn f c w) = pollers w" "loops (on_conn f c w) = loops w"
  "loop_in_this_thread (on_conn f c w) = loop_in_this_thread w"
  "tcp_world.more (on_conn f c w) = tcp_world.more w"
  "conns (on_conn f c w) d = (if d = c then f (conns w c) else conns w d)"
  by (simp_all add: on_conn_def)

lemma conns_kept [simp, frame_simps]:
  "conns (on_chan g ch w) = conns w" "conns (on_loop h l w) = conns w" "conns (Wakeup e l w) = conns w"
  "conns (QueueInLoop e me l cb w) = conns w" "conns (Quit e me l w) = conns w"
  "conns (ShutdownWrite e f w) = conns w" "conns (log_error msg w) = conns w"
  by (simp_all add: on_chan_def on_loop_def Wakeup_def QueueInLoop_def Quit_def Let_def ShutdownWrite_def
      log_error_def split: prod.split sysres.split)

lemma tcp_more_kept [simp, frame_simps]:
  "tcp_world.more (on_chan g ch w) = tcp_world.more w" "tcp_world.more (on_loop h l w) = tcp_world.more w"
  "tcp_world.more (Wakeup e l w) = tcp_world.more w" "tcp_world.more (QueueInLoop e me l cb w) = tcp_world.more w"
  "tcp_world.more (Quit e me l w) = tcp_world.more w" "tcp_world.more (ShutdownWrite e f w) = tcp_world.more w"
  "tcp_world.more (log_error msg w) = tcp_world.more w"
  by (simp_all add: on_chan_def on_loop_def Wakeup_def QueueInLoop_def Quit_def Let_def ShutdownWrite_def
      log_error_def split: prod.split sysres.split)

lemma log_error_sel [simp, frame_simps]:
  "kern (log_error msg w) = kern w" "chans (log_error msg w) = chans w" "pollers (log_error msg w) = pollers w"
  "loops (log_error msg w) = loops w" "loop_in_this_thread (log_error msg w) = loop_in_this_thread w"
  "trace (log_error msg w) = trace w @ [LogError msg]"
  by (simp_all add: log_error_def)

lemma ShutdownWrite_sel [simp, frame_simps]:
  "chans (ShutdownWrite e f w) = chans w" "pollers (ShutdownWrite e f w) = pollers w"
  "loops (ShutdownWrite e f w) = loops w" "loop_in_this_thread (ShutdownWrite e f w) = loop_in_this_thread w"
  by (simp_all add: ShutdownWrite_def split: prod.split sysres.split)

lemma more_conns:
  assumes "loop_world.more w' = loop_world.more w"
  shows "conns w' = conns w" and "tcp_world.more w' = tcp_world.more w"
  using assms by (cases w; cases w'; simp)+

lemma Channel_Update_conns:
  "Channel_Update e ch w = Inr w' \<Longrightarrow> conns w' = conns w"
  "Channel_Update e ch w = Inr w' \<Longrightarrow> tcp_world.more w' = tcp_world.more w"
  using more_conns Channel_Update_frame(3) by blast+

lemma Channel_Remove_conns:
  "Channel_Remove e ch w = Inr w' \<Longrightarrow> conns w' = conns w"
  "Channel_Remove e ch w = Inr w' \<Longrightarrow> tcp_world.more w' = tcp_world.more w"
  using more_conns Channel_Remove_frame(3) by blast+

section \<open>The loop behind a connection\<close>

text \<open>
  \<open>host_ok\<close>: the poller of the connection's loop, its channel and the kernel agree, and the
  environment keeps to its manual pages.
\<close>

definition host_ok :: "'k env \<Rightarrow> 'k interest \<Rightarrow> ptr \<Rightarrow> ('k, 'm) tcp_world_scheme \<Rightarrow> bool" where
  "host_ok e ints c w \<longleftrightarrow>
     epoll_inv e ints (tc_loop (conns w c)) w \<and> io_keeps e ints
     \<and> index_ok (tc_loop (conns w c)) (tc_channel (conns w c)) w
     \<and> ch_loop (conn_chan w c) = tc_loop (conns w c)"

lemma host_ok_cong:
  assumes "host_ok e ints c w" and "ints (kern w') = ints (kern w)" and "pollers w' = pollers w"
    and "chans w' = chans w" and "tc_loop (conns w' c) = tc_loop (conns w c)"
    and "tc_channel (conns w' c) = tc_channel (conns w c)"
  shows "host_ok e ints c w'"
  using assms poller_inv_cong [of ints "tc_loop (conns w c)" w w']
  by (auto simp: host_ok_def epoll_inv_def index_ok_def HasChannel_def conn_chan_def split: if_splits)

lemma Wakeup_ints: "io_keeps e ints \<Longrightarrow> ints (kern (Wakeup e l w)) = ints (kern w)"
  by (auto simp: Wakeup_def io_keeps_def split: prod.split) (metis snd_conv)+

lemma QueueInLoop_ints: "io_keeps e ints \<Longrightarrow> ints (kern (QueueInLoop e me l cb w)) = ints (kern w)"
  by (simp add: QueueInLoop_def Let_def Wakeup_ints)

lemma host_ok_QueueInLoop:
  assumes "host_ok e ints c w"
  shows "host_ok e ints c (QueueInLoop e me l cb w)"
  by (rule host_ok_cong [OF assms]) (use assms in \<open>simp_all add: QueueInLoop_ints host_ok_def\<close>)

lemma interest_set:
  assumes ok: "host_ok e ints c w"
  obtains w' i where "set_interest e (tc_loop (conns w c)) ev (tc_channel (conns w c)) w = Inr w'"
    and "host_ok e ints c w'" and "trace w' = trace w" and "conns w' = conns w" and "loops w' = loops w"
    and "chans w' = (chans w)(tc_channel (conns w c) := SetIndex i (SetEvents ev (conn_chan w c)))"
proof -
  let ?l = "tc_loop (conns w c)" and ?ch = "tc_channel (conns w c)"
  have inv: "epoll_ctl_ok e ints" "epoll_ctl_accepts e ints" "poller_inv ints ?l w" "index_ok ?l ?ch w"
    "io_keeps e ints" "ch_loop (chans w ?ch) = ?l"
    using ok by (simp_all add: host_ok_def epoll_inv_def conn_chan_def)
  obtain w' where w': "set_interest e ?l ev ?ch w = Inr w'" "poller_inv ints ?l w'" "index_ok ?l ?ch w'"
    "trace w' = trace w"
    by (rule set_interest_registers [OF inv(1-4), of ev])
  have up: "Channel_Update e ?ch (on_chan (SetEvents ev) ?ch w) = Inr w'"
    using w'(1) inv(6) by (simp add: set_interest_def Channel_Update_def EventLoop_UpdateChannel_def)
  note fr = Channel_Update_frame [OF up] and con = Channel_Update_conns(1) [OF up]
  from fr(4) obtain i where i: "chans w' = (chans w)(?ch := SetIndex i (SetEvents ev (chans w ?ch)))" by auto
  have "host_ok e ints c w'"
    using inv w' con i by (simp add: host_ok_def epoll_inv_def conn_chan_def)
  then show ?thesis using w' con fr(1) i by (intro that [of w' i]) (simp_all add: conn_chan_def)
qed


section \<open>The outgoing stream\<close>

text \<open>The bytes the kernel has accepted for a descriptor.\<close>

definition sent_part :: "fd \<Rightarrow> obs \<Rightarrow> byte list" where
  "sent_part f x = (case x of Wrote g bs \<Rightarrow> if g = f then bs else [] | _ \<Rightarrow> [])"

definition sent :: "fd \<Rightarrow> obs list \<Rightarrow> byte list" where
  "sent f tr = concat (map (sent_part f) tr)"

lemma sent_Nil [simp]: "sent f [] = []"
  by (simp add: sent_def)

lemma sent_append [simp]: "sent f (tr @ tr') = sent f tr @ sent f tr'"
  by (simp add: sent_def)

lemma sent_single [simp]:
  "sent f [Wrote g bs] = (if g = f then bs else [])" "sent f [ShutdownWr g] = []" "sent f [LogError m] = []"
  "sent f [ConnectionCb c up] = []" "sent f [MessageCb c bs] = []" "sent f [WriteCompleteCb c] = []"
  "sent f [HighWaterMarkCb c n] = []" "sent f [FunctorCb k] = []" "sent f [Closed g] = []"
  by (simp_all add: sent_def sent_part_def)

lemma Wakeup_trace: "\<exists>xs. trace (Wakeup e l w) = trace w @ map LogError xs"
  by (auto simp: Wakeup_def intro: exI [of _ "[]"] exI [of _ "[_]"] split: prod.split)

lemma QueueInLoop_trace: "\<exists>xs. trace (QueueInLoop e me l cb w) = trace w @ map LogError xs"
  using Wakeup_trace [of e l "on_loop (\<lambda>lp. lp\<lparr>el_pending_functors := el_pending_functors lp @ [cb]\<rparr>) l w"]
  by (auto simp: QueueInLoop_def Let_def intro: exI [of _ "[]"])

lemma sent_LogErrors [simp]: "sent f (map LogError xs) = []"
  by (induction xs) (simp_all add: sent_def sent_part_def)

lemma QueueInLoop_sent [simp]: "sent f (trace (QueueInLoop e me l cb w)) = sent f (trace w)"
  using QueueInLoop_trace [of e me l cb w] by auto

text \<open>Everything the connection has been given to send and has not dropped: accepted, then waiting.\<close>

definition out_stream :: "ptr \<Rightarrow> ('k, 'm) tcp_world_scheme \<Rightarrow> byte list" where
  "out_stream c w = sent (tc_socket (conns w c)) (trace w) @ content (tc_output_buffer (conns w c))"

text \<open>
  The connection's invariant: well-formed buffers, a channel for its own descriptor, and, until
  it is disconnected, interest in writing exactly when there is something to write.
\<close>

definition conn_ok :: "ptr \<Rightarrow> ('k, 'm) tcp_world_scheme \<Rightarrow> bool" where
  "conn_ok c w \<longleftrightarrow>
     wf_buffer (tc_input_buffer (conns w c)) \<and> wf_buffer (tc_output_buffer (conns w c))
     \<and> valid_events (ch_events (conn_chan w c)) \<and> ch_fd (conn_chan w c) = tc_socket (conns w c)
     \<and> (tc_state (conns w c) \<noteq> kDisconnected \<longrightarrow>
          (IsWriting (conn_chan w c) \<longleftrightarrow> content (tc_output_buffer (conns w c)) \<noteq> []))"

lemma conn_ok_cong:
  assumes "conn_ok c w" and "conns w' c = conns w c" and "chans w' = chans w"
  shows "conn_ok c w'"
  using assms by (simp add: conn_ok_def conn_chan_def)

lemma interest_of_set [simp]:
  "IsWriting (SetIndex i ch) = IsWriting ch" "IsReading (SetIndex i ch) = IsReading ch"
  "IsWriting (SetEvents ev ch) \<longleftrightarrow> ev AND kWriteEvent \<noteq> 0" "IsReading (SetEvents ev ch) \<longleftrightarrow> ev AND kReadEvent \<noteq> 0"
  "IsWriting (Tie x ch) = IsWriting ch" "IsReading (Tie x ch) = IsReading ch"
  by (simp_all add: IsWriting_def IsReading_def)

lemma send_rest_stream:
  assumes host: "host_ok e ints c w" and ok: "conn_ok c w" and live: "tc_state (conns w c) \<noteq> kDisconnected"
    and room: "length (buf_vec (tc_output_buffer (conns w c))) + length rest \<le> vector_max_size"
    and rest: "rest \<noteq> []"
  obtains w' b where "send_rest e me c rest (of_nat (length rest)) w = Inr w'"
    and "host_ok e ints c w'" and "conn_ok c w'"
    and "conns w' = (conns w)(c := (conns w c)\<lparr>tc_output_buffer := b\<rparr>)"
    and "content b = content (tc_output_buffer (conns w c)) @ rest"
    and "sent f (trace w') = sent f (trace w)"
proof -
  let ?conn = "conns w c"
  have wf: "wf_buffer (tc_output_buffer ?conn)" using ok by (simp add: conn_ok_def)
  have len: "unat (of_nat (length rest) :: size_t) = length rest"
    using room by (intro unat_of_nat_size_t) (simp add: vector_max_size_def)
  have "unat (writer_index (tc_output_buffer ?conn)) + unat (of_nat (length rest) :: size_t) \<le> vector_max_size"
    using room wf_bufferD(3) [OF wf] len by simp
  then obtain b where b: "Append rest (of_nat (length rest)) (tc_output_buffer ?conn) = Inr b" "wf_buffer b"
    "content b = content (tc_output_buffer ?conn) @ rest"
    using Append_content [OF wf, of "of_nat (length rest)" rest] len by auto
  define w1 where "w1 = (if ReadableBytes (tc_output_buffer ?conn) + of_nat (length rest) \<ge> tc_high_water_mark ?conn
      \<and> ReadableBytes (tc_output_buffer ?conn) < tc_high_water_mark ?conn \<and> tc_high_water_mark_callback ?conn
      then QueueInLoop e me (tc_loop ?conn) (FHighWaterMark c (ReadableBytes (tc_output_buffer ?conn) + of_nat (length rest))) w
      else w)"
  define w2 where "w2 = on_conn (\<lambda>conn. conn\<lparr>tc_output_buffer := b\<rparr>) c w1"
  have w1: "host_ok e ints c w1" "conns w1 = conns w" "chans w1 = chans w" "sent f (trace w1) = sent f (trace w)"
    using host by (simp_all add: w1_def host_ok_QueueInLoop)
  have w2: "host_ok e ints c w2" "conns w2 = (conns w)(c := ?conn\<lparr>tc_output_buffer := b\<rparr>)" "chans w2 = chans w"
    "sent f (trace w2) = sent f (trace w)"
    using w1 host_ok_cong [OF w1(1), of w2] by (auto simp: w2_def fun_eq_iff)
  have eq: "send_rest e me c rest (of_nat (length rest)) w =
      (if \<not> IsWriting (conn_chan w2 c) then EnableWriting (Channel_Update e) (tc_channel ?conn) w2 else Inr w2)"
    unfolding send_rest_def Let_def b(1) w1_def [symmetric] by (simp add: w2_def [symmetric])
  show ?thesis
  proof (cases "IsWriting (conn_chan w2 c)")
    case True
    then have "conn_ok c w2" using ok w2 b rest by (simp add: conn_ok_def conn_chan_def)
    with True w2 b(3) eq show ?thesis by (intro that [of w2 b]) simp_all
  next
    case False
    obtain w3 i where w3: "set_interest e (tc_loop (conns w2 c)) (ch_events (conn_chan w2 c) OR kWriteEvent)
        (tc_channel (conns w2 c)) w2 = Inr w3" "host_ok e ints c w3" "trace w3 = trace w2" "conns w3 = conns w2"
      "chans w3 = (chans w2)(tc_channel (conns w2 c) :=
         SetIndex i (SetEvents (ch_events (conn_chan w2 c) OR kWriteEvent) (conn_chan w2 c)))"
      by (rule interest_set [OF w2(1)])
    have "ch_loop (chans w2 (tc_channel ?conn)) = tc_loop ?conn" using host w2 by (simp add: host_ok_def conn_chan_def)
    then have "EnableWriting (Channel_Update e) (tc_channel ?conn) w2 = Inr w3"
      using w3(1) w2(2) by (simp add: channel_interest conn_chan_def)
    moreover have "conn_ok c w3"
      using ok w2 b w3(4,5) rest by (simp add: conn_ok_def conn_chan_def valid_events_masks write_bits)
    ultimately show ?thesis using False w2 w3 b(3) eq by (intro that [of w3 b]) simp_all
  qed
qed


text \<open>The direct write was tried and hit a peer that is gone.\<close>

definition peer_gone :: "'k env \<Rightarrow> ptr \<Rightarrow> byte list \<Rightarrow> ('k, 'm) tcp_world_scheme \<Rightarrow> bool" where
  "peer_gone e c data w \<longleftrightarrow> content (tc_output_buffer (conns w c)) = [] \<and>
     (case fst (sys_write e (tc_socket (conns w c)) data (kern w)) of
        SysErr errno \<Rightarrow> errno = EPIPE \<or> errno = ECONNRESET | SysOk _ \<Rightarrow> False)"

lemma send_now_skips:
  assumes "conn_ok c w" and "content (tc_output_buffer (conns w c)) \<noteq> []"
  shows "send_now e me c data w = (0, of_nat (length data), False, w)"
  using assms by (simp add: send_now_def Let_def conn_ok_def ReadableBytes_0_iff)

lemma send_now_fails:
  assumes "conn_ok c w" and "tc_state (conns w c) \<noteq> kDisconnected" and "content (tc_output_buffer (conns w c)) = []"
    and "sys_write e (tc_socket (conns w c)) data (kern w) = (SysErr n, k)"
  shows "send_now e me c data w = (0, of_nat (length data), n = EPIPE \<or> n = ECONNRESET,
      if n \<noteq> EWOULDBLOCK then log_error ''TcpConnection::sendInLoop'' (w\<lparr>kern := k\<rparr>) else w\<lparr>kern := k\<rparr>)"
  using assms by (simp add: send_now_def Let_def conn_ok_def ReadableBytes_0_iff errno_defs)

lemma send_now_writes:
  assumes "conn_ok c w" and "tc_state (conns w c) \<noteq> kDisconnected" and "content (tc_output_buffer (conns w c)) = []"
    and "sys_write e (tc_socket (conns w c)) data (kern w) = (SysOk n, k)"
    and "write_ok e" and "length data < 2 ^ 64"
  obtains w1 where "send_now e me c data w = (n, of_nat (length (drop n data)), False, w1)"
    and "w1 = w\<lparr>kern := k, trace := trace w @ [Wrote (tc_socket (conns w c)) (take n data)]\<rparr> \<or>
         w1 = QueueInLoop e me (tc_loop (conns w c)) (FWriteComplete c)
                (w\<lparr>kern := k, trace := trace w @ [Wrote (tc_socket (conns w c)) (take n data)]\<rparr>)"
    and "n \<le> length data"
proof -
  have n: "n \<le> length data" using assms(4,5) unfolding write_ok_def by blast
  then have "of_nat (length data) - of_nat n = (of_nat (length (drop n data)) :: size_t)"
    by (simp add: of_nat_diff)
  with assms n show ?thesis
    by (intro that [of "snd (snd (snd (send_now e me c data w)))"])
       (simp_all add: send_now_def Let_def conn_ok_def ReadableBytes_0_iff)
qed

lemma of_nat_size_pos: "n < 2 ^ 64 \<Longrightarrow> (of_nat n :: size_t) > 0 \<longleftrightarrow> n > 0"
  using unat_of_nat_size_t [of n] by (auto simp: word_less_nat_alt)

text \<open>\<open>SendInLoop\<close> returns, keeps the invariants and adds exactly \<open>bytes\<close> to the outgoing stream.\<close>

definition sends ::
  "'k env \<Rightarrow> 'k interest \<Rightarrow> tid \<Rightarrow> ptr \<Rightarrow> byte list \<Rightarrow> byte list \<Rightarrow> ('k, 'm) tcp_world_scheme \<Rightarrow> bool" where
  "sends e ints me c data bytes w \<longleftrightarrow>
     (\<exists>w' b. SendInLoop e me c data w = Inr w' \<and> host_ok e ints c w' \<and> conn_ok c w'
        \<and> conns w' = (conns w)(c := (conns w c)\<lparr>tc_output_buffer := b\<rparr>) \<and> out_stream c w' = out_stream c w @ bytes)"

lemma sends_after_now:
  assumes now: "send_now e me c data w = (n, of_nat (length (drop n data)), False, w1)"
    and live: "tc_state (conns w c) \<noteq> kDisconnected"
    and room: "length (buf_vec (tc_output_buffer (conns w c))) + length data \<le> vector_max_size"
    and w1: "host_ok e ints c w1" "conn_ok c w1" "conns w1 = conns w"
      "sent (tc_socket (conns w c)) (trace w1) = sent (tc_socket (conns w c)) (trace w) @ take n data"
    and content: "take n data \<noteq> [] \<longrightarrow> content (tc_output_buffer (conns w c)) = []"
  shows "sends e ints me c data data w"
proof (cases "drop n data = []")
  case True
  then have "SendInLoop e me c data w = Inr w1" using now live by (simp add: SendInLoop_def)
  with True w1 content show ?thesis
    unfolding sends_def
    by (intro exI [of _ w1] exI [of _ "tc_output_buffer (conns w c)"]) (auto simp: out_stream_def)
next
  case False
  have room1: "length (buf_vec (tc_output_buffer (conns w1 c))) + length (drop n data) \<le> vector_max_size"
    using room w1(3) by simp
  have len: "length (drop n data) < 2 ^ 64" using room by (simp add: vector_max_size_def)
  obtain w2 b where w2: "send_rest e me c (drop n data) (of_nat (length (drop n data))) w1 = Inr w2"
    "host_ok e ints c w2" "conn_ok c w2" "conns w2 = (conns w1)(c := (conns w1 c)\<lparr>tc_output_buffer := b\<rparr>)"
    "content b = content (tc_output_buffer (conns w1 c)) @ drop n data"
    "sent (tc_socket (conns w c)) (trace w2) = sent (tc_socket (conns w c)) (trace w1)"
    by (rule send_rest_stream [OF w1(1,2) _ room1 False]) (use live w1(3) in simp)
  have "SendInLoop e me c data w = Inr w2"
    using now live False of_nat_size_pos [OF len] w2(1) by (simp add: SendInLoop_def)
  moreover have "out_stream c w2 = out_stream c w @ data"
    using w1 w2(4-6) content append_take_drop_id [of n data]
    by (cases "take n data = []") (auto simp: out_stream_def)
  ultimately show ?thesis unfolding sends_def using w1(3) w2(2-4) by auto
qed

lemma sends_on_error:
  assumes host: "host_ok e ints c w" and ok: "conn_ok c w" and live: "tc_state (conns w c) \<noteq> kDisconnected"
    and room: "length (buf_vec (tc_output_buffer (conns w c))) + length data \<le> vector_max_size"
    and empty: "content (tc_output_buffer (conns w c)) = []"
    and r: "sys_write e (tc_socket (conns w c)) data (kern w) = (SysErr n, k)"
  shows "sends e ints me c data (if n = EPIPE \<or> n = ECONNRESET then [] else data) w"
proof -
  let ?w1 = "if n \<noteq> EWOULDBLOCK then log_error ''TcpConnection::sendInLoop'' (w\<lparr>kern := k\<rparr>) else w\<lparr>kern := k\<rparr>"
  have k: "ints k = ints (kern w)" using host r by (auto simp: host_ok_def dest: io_keepsD(1))
  note now = send_now_fails [OF ok live empty r, of me]
  have w1: "host_ok e ints c ?w1"
    by (rule host_ok_cong [OF host]) (simp_all add: k)
  have "conn_ok c ?w1" by (rule conn_ok_cong [OF ok]) simp_all
  note w1 = w1 this
  show ?thesis
  proof (cases "n = EPIPE \<or> n = ECONNRESET")
    case True
    then have "SendInLoop e me c data w = Inr ?w1" using now live by (simp add: SendInLoop_def)
    then show ?thesis unfolding sends_def using True w1
      by (intro exI [of _ ?w1] exI [of _ "tc_output_buffer (conns w c)"]) (auto simp: out_stream_def)
  next
    case False
    then have "sends e ints me c data data w"
      by (intro sends_after_now [of _ _ _ _ _ 0 ?w1] live room w1) (use now in simp_all)
    then show ?thesis using False by simp
  qed
qed

lemma SendInLoop_sends:
  assumes wr: "write_ok e" and host: "host_ok e ints c w" and ok: "conn_ok c w"
    and live: "tc_state (conns w c) \<noteq> kDisconnected"
    and room: "length (buf_vec (tc_output_buffer (conns w c))) + length data \<le> vector_max_size"
  shows "sends e ints me c data (if peer_gone e c data w then [] else data) w"
proof (cases "content (tc_output_buffer (conns w c)) = []")
  case False
  then have "sends e ints me c data data w"
    using send_now_skips [OF ok False, of e me data] host ok live room by (intro sends_after_now [of _ _ _ _ _ 0 w]) simp_all
  then show ?thesis using False by (simp add: peer_gone_def)
next
  case empty: True
  obtain r k where r: "sys_write e (tc_socket (conns w c)) data (kern w) = (r, k)" by fastforce
  show ?thesis
  proof (cases r)
    case (SysErr n)
    then show ?thesis using sends_on_error [OF host ok live room empty, of n k me] r empty by (simp add: peer_gone_def)
  next
    case (SysOk n)
    let ?w0 = "w\<lparr>kern := k, trace := trace w @ [Wrote (tc_socket (conns w c)) (take n data)]\<rparr>"
    have len: "length data < 2 ^ 64" using room by (simp add: vector_max_size_def)
    obtain w1 where now: "send_now e me c data w = (n, of_nat (length (drop n data)), False, w1)"
      and w1: "w1 = ?w0 \<or> w1 = QueueInLoop e me (tc_loop (conns w c)) (FWriteComplete c) ?w0"
      by (rule send_now_writes [OF ok live empty r [unfolded SysOk] wr len, of me])
    have "ints k = ints (kern w)" using host r by (auto simp: host_ok_def dest: io_keepsD(1))
    then have "host_ok e ints c ?w0" "conn_ok c ?w0"
      by (auto intro: host_ok_cong [OF host] conn_ok_cong [OF ok])
    then have "host_ok e ints c w1" "conn_ok c w1"
      using w1 conn_ok_cong [of c ?w0 w1] by (auto simp: host_ok_QueueInLoop)
    moreover have "\<not> peer_gone e c data w" using r SysOk by (simp add: peer_gone_def)
    ultimately show ?thesis using now w1 empty live room by (auto intro!: sends_after_now [OF now])
  qed
qed


section \<open>Draining the output buffer\<close>

lemma ShutdownWrite_ints: "io_keeps e ints \<Longrightarrow> ints (kern (ShutdownWrite e f w)) = ints (kern w)"
  by (auto simp: ShutdownWrite_def split: prod.split sysres.split dest: io_keepsD(3))

lemma ShutdownWrite_sent [simp]: "sent f (trace (ShutdownWrite e g w)) = sent f (trace w)"
  by (simp add: ShutdownWrite_def split: prod.split sysres.split)

lemma ShutdownInLoop_keeps:
  assumes "host_ok e ints c w" and "conn_ok c w"
  obtains w' where "ShutdownInLoop e c w = Inr w'" and "host_ok e ints c w'" and "conn_ok c w'"
    and "conns w' = conns w" and "sent f (trace w') = sent f (trace w)" and "loops w' = loops w"
proof -
  have keeps: "io_keeps e ints" using assms(1) by (simp add: host_ok_def)
  let ?w' = "if \<not> IsWriting (conn_chan w c) then ShutdownWrite e (tc_socket (conns w c)) w else w"
  have "host_ok e ints c ?w'"
    by (rule host_ok_cong [OF assms(1)]) (simp_all add: ShutdownWrite_ints [OF keeps])
  moreover have "conn_ok c ?w'" by (rule conn_ok_cong [OF assms(2)]) simp_all
  ultimately show ?thesis by (intro that [of ?w']) (simp_all add: ShutdownInLoop_def)
qed

text \<open>The last lines of \<open>HandleWrite\<close>, once everything has been written.\<close>

definition drained :: "'k env \<Rightarrow> tid \<Rightarrow> ptr \<Rightarrow> ('k, 'm) tcp_op" where
  "drained e me c w =
     andThen (DisableWriting (Channel_Update e) (tc_channel (conns w c)) w) (\<lambda>w.
       let w = (if tc_write_complete_callback (conns w c)
                then QueueInLoop e me (tc_loop (conns w c)) (FWriteComplete c) w else w)
       in if tc_state (conns w c) = kDisconnecting then ShutdownInLoop e c w else Inr w)"

lemma drained_stops_writing:
  assumes host: "host_ok e ints c w" and wf: "wf_buffer (tc_input_buffer (conns w c))" "wf_buffer (tc_output_buffer (conns w c))"
    and ev: "valid_events (ch_events (conn_chan w c))" "ch_fd (conn_chan w c) = tc_socket (conns w c)"
    and empty: "content (tc_output_buffer (conns w c)) = []"
  obtains w2 w' where "drained e me c w = Inr w'" and "host_ok e ints c w'" and "conn_ok c w'" and "conns w' = conns w"
    and "\<not> IsWriting (conn_chan w' c)" and "sent f (trace w') = sent f (trace w)"
    and "if tc_state (conns w c) = kDisconnecting then w' = ShutdownWrite e (tc_socket (conns w c)) w2 else w' = w2"
    and "el_pending_functors (loops w' (tc_loop (conns w c))) = el_pending_functors (loops w (tc_loop (conns w c)))
           @ (if tc_write_complete_callback (conns w c) then [FWriteComplete c] else [])"
proof -
  let ?l = "tc_loop (conns w c)"
  obtain w1 i where w1: "set_interest e ?l (ch_events (conn_chan w c) AND NOT kWriteEvent)
      (tc_channel (conns w c)) w = Inr w1" "host_ok e ints c w1" "trace w1 = trace w" "conns w1 = conns w"
    "loops w1 = loops w" "chans w1 = (chans w)(tc_channel (conns w c) :=
       SetIndex i (SetEvents (ch_events (conn_chan w c) AND NOT kWriteEvent) (conn_chan w c)))"
    by (rule interest_set [OF host])
  let ?w2 = "if tc_write_complete_callback (conns w c) then QueueInLoop e me ?l (FWriteComplete c) w1 else w1"
  have "ch_loop (chans w (tc_channel (conns w c))) = ?l" using host by (simp add: host_ok_def conn_chan_def)
  then have dis: "DisableWriting (Channel_Update e) (tc_channel (conns w c)) w = Inr w1"
    using w1(1) by (simp add: channel_interest conn_chan_def)
  have ok: "conn_ok c w1" "\<not> IsWriting (conn_chan w1 c)"
    using wf ev empty w1(4,6) by (simp_all add: conn_ok_def conn_chan_def valid_events_masks write_bits)
  have w2: "host_ok e ints c ?w2" "conn_ok c ?w2" "conns ?w2 = conns w" "chans ?w2 = chans w1"
    "sent f (trace ?w2) = sent f (trace w)"
    using w1 ok conn_ok_cong [OF ok(1), of ?w2] by (simp_all add: host_ok_QueueInLoop)
  have not: "\<not> IsWriting (conn_chan ?w2 c)" using ok(2) w2(3,4) w1(4) by (simp add: conn_chan_def)
  obtain w3 where w3: "ShutdownInLoop e c ?w2 = Inr w3" "host_ok e ints c w3" "conn_ok c w3" "conns w3 = conns ?w2"
    "sent f (trace w3) = sent f (trace ?w2)" "loops w3 = loops ?w2"
    by (rule ShutdownInLoop_keeps [OF w2(1,2)])
  have eq3: "w3 = ShutdownWrite e (tc_socket (conns w c)) ?w2"
    using w3(1) not w2(3) by (simp add: ShutdownInLoop_def)
  have eq: "drained e me c w = Inr (if tc_state (conns w c) = kDisconnecting then w3 else ?w2)"
    using dis w3(1) w1(4) by (simp add: drained_def Let_def split: if_splits)
  have pend: "el_pending_functors (loops ?w2 ?l) = el_pending_functors (loops w ?l)
      @ (if tc_write_complete_callback (conns w c) then [FWriteComplete c] else [])"
    using w1(5) by simp
  show ?thesis
  proof (rule that [of "if tc_state (conns w c) = kDisconnecting then w3 else ?w2" ?w2])
    show "\<not> IsWriting (conn_chan (if tc_state (conns w c) = kDisconnecting then w3 else ?w2) c)"
      using not eq3 by (simp add: conn_chan_def)
  qed (use eq w2 w3 eq3 pend w1(5) in simp_all)
qed


lemma HandleWrite_cases:
  assumes wr: "write_ok e" and ok: "conn_ok c w" and writing: "IsWriting (conn_chan w c)"
  obtains (failed) n k where "sys_write e (tc_socket (conns w c)) (content (tc_output_buffer (conns w c))) (kern w) = (SysErr n, k)"
    and "HandleWrite e me c w = Inr (log_error ''TcpConnection is down, no more writing'' (on_conn id c (w\<lparr>kern := k\<rparr>)))"
  | (wrote) n k b w1 where "sys_write e (tc_socket (conns w c)) (content (tc_output_buffer (conns w c))) (kern w) = (SysOk n, k)"
    and "wf_buffer b" and "content b = drop n (content (tc_output_buffer (conns w c)))"
    and "w1 = on_conn (\<lambda>conn. conn\<lparr>tc_output_buffer := b\<rparr>) c (w\<lparr>kern := k,
           trace := trace w @ [Wrote (tc_socket (conns w c)) (take n (content (tc_output_buffer (conns w c))))]\<rparr>)"
    and "HandleWrite e me c w = (if n = 0 then Inr (log_error ''TcpConnection is down, no more writing'' w1)
           else if content b = [] then drained e me c w1 else Inr (log_error ''TcpConnection::HandleWrite'' w1))"
proof -
  let ?f = "tc_socket (conns w c)" and ?b = "tc_output_buffer (conns w c)"
  have wf: "wf_buffer ?b" and fd: "ch_fd (conn_chan w c) = ?f" using ok by (simp_all add: conn_ok_def)
  obtain r k where r: "sys_write e ?f (content ?b) (kern w) = (r, k)" by fastforce
  show ?thesis
  proof (cases r)
    case (SysErr n)
    have "on_conn (\<lambda>conn. conn\<lparr>tc_output_buffer := ?b\<rparr>) c (w\<lparr>kern := k\<rparr>) = on_conn id c (w\<lparr>kern := k\<rparr>)"
      by (simp add: on_conn_def)
    then show ?thesis
      using r SysErr writing fd WriteFd_error [OF wf, of e ?f "kern w" n k]
      by (intro failed [of n k]) (simp_all add: HandleWrite_def Let_def)
  next
    case (SysOk n)
    note wf_wrote = WriteFd_wrote [OF wf wr r [unfolded SysOk]]
    have wfr: "wf_buffer (Retrieve (of_nat n) ?b)" using wf by (rule wf_Retrieve)
    show ?thesis
      using r SysOk writing fd wf_wrote wfr
      by (intro wrote [of n k "Retrieve (of_nat n) ?b"])
         (auto simp: HandleWrite_def Let_def ReadableBytes_0_iff drained_def)
  qed
qed

lemma HandleWrite_keeps:
  assumes wr: "write_ok e" and host: "host_ok e ints c w" and ok: "conn_ok c w"
    and live: "tc_state (conns w c) \<noteq> kDisconnected"
  obtains w' b where "HandleWrite e me c w = Inr w'" and "host_ok e ints c w'" and "conn_ok c w'"
    and "conns w' = (conns w)(c := (conns w c)\<lparr>tc_output_buffer := b\<rparr>)"
    and "out_stream c w' = out_stream c w"
proof (cases "IsWriting (conn_chan w c)")
  case False
  then show ?thesis using host ok by (intro that [of w "tc_output_buffer (conns w c)"]) (simp_all add: HandleWrite_def)
next
  case writing: True
  have keeps: "io_keeps e ints" using host by (simp add: host_ok_def)
  from wr ok writing show ?thesis
  proof (cases rule: HandleWrite_cases [where me = me])
    case (failed n k)
    let ?w' = "log_error ''TcpConnection is down, no more writing'' (on_conn id c (w\<lparr>kern := k\<rparr>))"
    have "host_ok e ints c ?w'"
      by (rule host_ok_cong [OF host]) (simp_all add: io_keepsD(1) [OF keeps failed(1)])
    moreover have "conn_ok c ?w'" by (rule conn_ok_cong [OF ok]) simp_all
    ultimately show ?thesis using failed(2)
      by (intro that [of ?w' "tc_output_buffer (conns w c)"]) (auto simp: out_stream_def)
  next
    case (wrote n k b w1)
    have host1: "host_ok e ints c w1"
      by (rule host_ok_cong [OF host]) (simp_all add: wrote(4) io_keepsD(1) [OF keeps wrote(1)])
    have w1: "conns w1 = (conns w)(c := (conns w c)\<lparr>tc_output_buffer := b\<rparr>)" "chans w1 = chans w"
      "out_stream c w1 = out_stream c w"
      using wrote(3,4) by (auto simp: out_stream_def)
    have parts: "wf_buffer (tc_input_buffer (conns w1 c))" "wf_buffer (tc_output_buffer (conns w1 c))"
      "valid_events (ch_events (conn_chan w1 c))" "ch_fd (conn_chan w1 c) = tc_socket (conns w1 c)"
      using ok wrote(2) w1 by (simp_all add: conn_ok_def conn_chan_def)
    show ?thesis
    proof (cases "n \<noteq> 0 \<and> content b = []")
      case True
      then have empty: "content (tc_output_buffer (conns w1 c)) = []" using w1(1) by simp
      obtain w2 w' where w': "drained e me c w1 = Inr w'" "host_ok e ints c w'" "conn_ok c w'" "conns w' = conns w1"
        "sent (tc_socket (conns w c)) (trace w') = sent (tc_socket (conns w c)) (trace w1)"
        by (rule drained_stops_writing [OF host1 parts empty])
      show ?thesis using True w' w1 wrote(5) by (intro that [of w' b]) (simp_all add: out_stream_def)
    next
      case False
      then have ne: "content b \<noteq> []" using wrote(3) ok live writing by (auto simp: conn_ok_def)
      then have ok1: "conn_ok c w1" using parts writing w1 live by (simp add: conn_ok_def conn_chan_def)
      let ?w' = "log_error (if n = 0 then ''TcpConnection is down, no more writing'' else ''TcpConnection::HandleWrite'') w1"
      have "HandleWrite e me c w = Inr ?w'" using wrote(5) False ne by simp
      moreover have "host_ok e ints c ?w'" by (rule host_ok_cong [OF host1]) simp_all
      moreover have "conn_ok c ?w'" by (rule conn_ok_cong [OF ok1]) simp_all
      ultimately show ?thesis using w1 by (intro that [of ?w' b]) (simp_all add: out_stream_def)
    qed
  qed
qed


section \<open>What every operation keeps\<close>

text \<open>
  The states of a connection are ordered; the operations keep a connection's identity (its
  loop, descriptor, channel, name and callback slots) and move its state forward only.
\<close>

definition rank :: "StateE \<Rightarrow> nat" where
  "rank st = (case st of kConnecting \<Rightarrow> 0 | kConnected \<Rightarrow> 1 | kDisconnecting \<Rightarrow> 2 | kDisconnected \<Rightarrow> 3)"

lemma rank_simps [simp]:
  "rank kConnecting = 0" "rank kConnected = 1" "rank kDisconnecting = 2" "rank kDisconnected = 3" "rank st \<le> 3"
  by (simp_all add: rank_def split: StateE.split)

lemma rank_inj: "rank a = rank b \<longleftrightarrow> a = b"
  by (cases a; cases b) simp_all

instantiation StateE :: linorder
begin

definition less_eq_StateE :: "StateE \<Rightarrow> StateE \<Rightarrow> bool" where
  "less_eq_StateE a b \<longleftrightarrow> rank a \<le> rank b"

definition less_StateE :: "StateE \<Rightarrow> StateE \<Rightarrow> bool" where
  "less_StateE a b \<longleftrightarrow> rank a < rank b"

instance
  by standard (auto simp: less_eq_StateE_def less_StateE_def rank_inj)

end

definition same_conn :: "tcp_connection \<Rightarrow> tcp_connection \<Rightarrow> bool" where
  "same_conn a b \<longleftrightarrow> b = a\<lparr>tc_state := tc_state b, tc_input_buffer := tc_input_buffer b, tc_output_buffer := tc_output_buffer b,
     tc_context := tc_context b\<rparr>"

definition kept :: "('k, 'm) tcp_world_scheme \<Rightarrow> ('k, 'm) tcp_world_scheme \<Rightarrow> bool" where
  "kept w w' \<longleftrightarrow> loops_kept w w' \<and> tcp_world.more w' = tcp_world.more w \<and> (\<forall>c. same_conn (conns w c) (conns w' c))"

definition kept_fwd :: "('k, 'm) tcp_world_scheme \<Rightarrow> ('k, 'm) tcp_world_scheme \<Rightarrow> bool" where
  "kept_fwd w w' \<longleftrightarrow> kept w w' \<and> (\<forall>c. rank (tc_state (conns w c)) \<le> rank (tc_state (conns w' c)))"

lemma same_conn_refl [simp, intro]: "same_conn a a"
  by (simp add: same_conn_def)

lemma same_conn_trans: "same_conn a b \<Longrightarrow> same_conn b c \<Longrightarrow> same_conn a c"
  unfolding same_conn_def by (cases a; cases b; cases c) simp

lemma same_connD:
  assumes "same_conn a b"
  shows "tc_name b = tc_name a" and "tc_close_callback b = tc_close_callback a" and "tc_loop b = tc_loop a"
    and "tc_socket b = tc_socket a" and "tc_peer_addr b = tc_peer_addr a" and "tc_channel b = tc_channel a"
  using assms unfolding same_conn_def
  by (auto dest: arg_cong [of _ _ tc_name] arg_cong [of _ _ tc_close_callback] arg_cong [of _ _ tc_loop]
      arg_cong [of _ _ tc_socket] arg_cong [of _ _ tc_peer_addr] arg_cong [of _ _ tc_channel])

lemma kept_refl [simp, intro]: "kept w w"
  by (simp add: kept_def)

lemma kept_trans [trans]: "kept a b \<Longrightarrow> kept b c \<Longrightarrow> kept a c"
  unfolding kept_def by (metis loops_kept_trans same_conn_trans)

lemma kept_fwd_refl [simp, intro]: "kept_fwd w w"
  by (simp add: kept_fwd_def)

lemma kept_fwd_trans [trans]: "kept_fwd a b \<Longrightarrow> kept_fwd b c \<Longrightarrow> kept_fwd a c"
  unfolding kept_fwd_def by (meson kept_trans order_trans)

lemma kept_fwd_kept: "kept_fwd w w' \<Longrightarrow> kept w w'"
  by (simp add: kept_fwd_def)

lemma IsInLoopThread_kept: "kept_fwd w w' \<Longrightarrow> IsInLoopThread me l w' = IsInLoopThread me l w"
proof -
  assume "kept_fwd w w'"
  then have "loop_kept (loops w l) (loops w' l)" unfolding kept_fwd_def kept_def loops_kept_def by blast
  then show ?thesis by (simp add: IsInLoopThread_def loop_keptD(2))
qed

lemma kept_fwd_same:
  "conns w' = conns w \<Longrightarrow> tcp_world.more w' = tcp_world.more w \<Longrightarrow> loops_kept w w' \<Longrightarrow> kept_fwd w w'"
  by (simp add: kept_fwd_def kept_def)

lemma kept_fwd_on_conn:
  assumes "\<And>a. same_conn a (f a)" and "rank (tc_state (conns w c)) \<le> rank (tc_state (f (conns w c)))"
  shows "kept_fwd w (on_conn f c w)"
  using assms by (auto simp: kept_fwd_def kept_def intro: loops_kept_same)

lemma kept_fwd_update_buffer [simp, intro]:
  "kept_fwd w (on_conn (\<lambda>conn. conn\<lparr>tc_input_buffer := g conn\<rparr>) c w)"
  "kept_fwd w (on_conn (\<lambda>conn. conn\<lparr>tc_output_buffer := g conn\<rparr>) c w)"
  by (auto intro!: kept_fwd_on_conn simp: same_conn_def)

lemma kept_fwd_SetContext [simp, intro]: "kept_fwd w (on_conn (SetContext v) c w)"
  by (rule kept_fwd_on_conn) (simp_all add: SetContext_def same_conn_def)

lemma kept_fwd_SetState: "rank (tc_state (conns w c)) \<le> rank st \<Longrightarrow> kept_fwd w (on_conn (SetState st) c w)"
  by (rule kept_fwd_on_conn) (simp_all add: SetState_def same_conn_def)

lemma kept_fwd_basic [simp, intro]:
  "kept_fwd w (QueueInLoop e me l cb w)" "kept_fwd w (Quit e me l w)" "kept_fwd w (log_error m w)"
  "kept_fwd w (on_chan g ch w)" "kept_fwd w (ShutdownWrite e f w)" "kept_fwd w (w\<lparr>kern := k, trace := tr\<rparr>)"
  "kept_fwd w (w\<lparr>kern := k\<rparr>)" "kept_fwd w (w\<lparr>trace := tr\<rparr>)"
  by (auto intro!: kept_fwd_same intro: loops_kept_same)

lemma kept_fwd_Channel_Update: "Channel_Update e ch w = Inr w' \<Longrightarrow> kept_fwd w w'"
  by (auto intro!: kept_fwd_same loops_kept_same dest: Channel_Update_frame Channel_Update_conns)

lemma kept_fwd_Channel_Remove: "Channel_Remove e ch w = Inr w' \<Longrightarrow> kept_fwd w w'"
  by (auto intro!: kept_fwd_same loops_kept_same dest: Channel_Remove_frame Channel_Remove_conns)

lemma kept_fwd_interest:
  "EnableReading (Channel_Update e) ch w = Inr w' \<Longrightarrow> kept_fwd w w'"
  "EnableWriting (Channel_Update e) ch w = Inr w' \<Longrightarrow> kept_fwd w w'"
  "DisableWriting (Channel_Update e) ch w = Inr w' \<Longrightarrow> kept_fwd w w'"
  "DisableAll (Channel_Update e) ch w = Inr w' \<Longrightarrow> kept_fwd w w'"
  unfolding EnableReading_def EnableWriting_def DisableWriting_def DisableAll_def
  by (rule kept_fwd_trans [OF kept_fwd_basic(4) kept_fwd_Channel_Update]; assumption)+

lemma kept_fwd_foldE:
  assumes "foldE f xs w = Inr w'" and "\<And>x w w'. f x w = Inr w' \<Longrightarrow> kept_fwd w w'"
  shows "kept_fwd w w'"
  using foldE_invariant [OF assms(1), of "kept_fwd w"] assms(2) kept_fwd_trans kept_fwd_refl by metis


lemma kept_fwd_send_now:
  assumes "send_now e me c data w = (n, r, fault, w')"
  shows "kept_fwd w w'"
  using assms
  by (auto simp: send_now_def Let_def split: if_splits prod.splits sysres.splits
      intro: kept_fwd_trans [OF kept_fwd_basic(6) kept_fwd_basic(1)] kept_fwd_trans [OF kept_fwd_basic(7) kept_fwd_basic(3)])

lemma kept_fwd_send_rest:
  assumes "send_rest e me c rest r w = Inr w'"
  shows "kept_fwd w w'"
proof -
  let ?q = "\<lambda>w. if ReadableBytes (tc_output_buffer (conns w c)) + r \<ge> tc_high_water_mark (conns w c)
      \<and> ReadableBytes (tc_output_buffer (conns w c)) < tc_high_water_mark (conns w c) \<and> tc_high_water_mark_callback (conns w c)
      then QueueInLoop e me (tc_loop (conns w c)) (FHighWaterMark c (ReadableBytes (tc_output_buffer (conns w c)) + r)) w else w"
  from assms obtain b where
    b: "(let w1 = on_conn (\<lambda>conn. conn\<lparr>tc_output_buffer := b\<rparr>) c (?q w)
         in if \<not> IsWriting (conn_chan w1 c) then EnableWriting (Channel_Update e) (tc_channel (conns w c)) w1 else Inr w1) = Inr w'"
    by (auto simp: send_rest_def Let_def andThen_eq_Inr)
  have "kept_fwd w (?q w)" by simp
  then have "kept_fwd w (on_conn (\<lambda>conn. conn\<lparr>tc_output_buffer := b\<rparr>) c (?q w))"
    by (rule kept_fwd_trans) (rule kept_fwd_update_buffer(2))
  moreover have "kept_fwd (on_conn (\<lambda>conn. conn\<lparr>tc_output_buffer := b\<rparr>) c (?q w)) w'"
    using b unfolding Let_def by (simp only: split: if_splits) (auto intro: kept_fwd_interest(2))
  ultimately show ?thesis by (rule kept_fwd_trans)
qed

lemma kept_fwd_SendInLoop:
  assumes "SendInLoop e me c data w = Inr w'"
  shows "kept_fwd w w'"
proof (cases "tc_state (conns w c) = kDisconnected")
  case True
  then show ?thesis using assms by (auto simp: SendInLoop_def)
next
  case False
  obtain n r fault w1 where now: "send_now e me c data w = (n, r, fault, w1)" by (metis prod_cases4)
  with assms False have "kept_fwd w1 w'"
    by (auto simp: SendInLoop_def intro: kept_fwd_send_rest split: if_splits)
  with kept_fwd_send_now [OF now] show ?thesis by (rule kept_fwd_trans)
qed

lemma kept_fwd_RunInLoop:
  assumes "RunInLoop e me exec l cb w = Inr w'" and "\<And>w'. exec cb w = Inr w' \<Longrightarrow> kept_fwd w w'"
  shows "kept_fwd w w'"
  using assms by (auto simp: RunInLoop_def split: if_splits)

lemma kept_fwd_send_buffer_body: "send_buffer_body e me c d w = Inr w' \<Longrightarrow> kept_fwd w w'"
  by (auto simp: send_buffer_body_def Let_def andThen_eq_Inr
      intro: kept_fwd_trans [OF kept_fwd_SendInLoop kept_fwd_update_buffer(1)])

lemma kept_fwd_Send: "Send e me c msg w = Inr w' \<Longrightarrow> kept_fwd w w'"
  by (auto simp: Send_def split: if_splits intro: kept_fwd_SendInLoop elim!: kept_fwd_RunInLoop)

lemma kept_fwd_Send_Buffer: "Send_Buffer e me c d w = Inr w' \<Longrightarrow> kept_fwd w w'"
  by (auto simp: Send_Buffer_def split: if_splits intro: kept_fwd_send_buffer_body elim!: kept_fwd_RunInLoop)

lemma kept_fwd_ShutdownInLoop: "ShutdownInLoop e c w = Inr w' \<Longrightarrow> kept_fwd w w'"
  by (auto simp: ShutdownInLoop_def)

lemma kept_fwd_Shutdown:
  assumes "Shutdown e me c w = Inr w'"
  shows "kept_fwd w w'"
proof (cases "tc_state (conns w c) = kConnected")
  case True
  with assms have "kept_fwd (on_conn (SetState kDisconnecting) c w) w'"
    by (auto simp: Shutdown_def intro: kept_fwd_RunInLoop kept_fwd_ShutdownInLoop)
  moreover have "kept_fwd w (on_conn (SetState kDisconnecting) c w)" by (rule kept_fwd_SetState) (simp add: True)
  ultimately show ?thesis using kept_fwd_trans by blast
next
  case False
  then show ?thesis using assms by (simp add: Shutdown_def)
qed

lemma kept_fwd_perform: "perform e me buf a w = Inr w' \<Longrightarrow> kept_fwd w w'"
  by (auto simp: perform_def split: action.splits option.splits
      intro: kept_fwd_Send kept_fwd_Send_Buffer kept_fwd_Shutdown)

lemma kept_fwd_performs:
  assumes "foldE (perform e me buf) acts (w\<lparr>kern := k, trace := tr\<rparr>) = Inr w'"
  shows "kept_fwd w w'"
  by (rule kept_fwd_trans [OF kept_fwd_basic(6) kept_fwd_foldE [OF assms kept_fwd_perform]])

lemma kept_fwd_callbacks:
  "connection_callback e me c w = Inr w' \<Longrightarrow> kept_fwd w w'"
  "message_callback e me t c w = Inr w' \<Longrightarrow> kept_fwd w w'"
  "write_complete_callback e me c w = Inr w' \<Longrightarrow> kept_fwd w w'"
  "high_water_mark_callback e me c n w = Inr w' \<Longrightarrow> kept_fwd w w'"
  by (auto simp: connection_callback_def message_callback_def write_complete_callback_def
      high_water_mark_callback_def Let_def split: if_splits prod.splits intro: kept_fwd_performs)

text \<open>The close handlers end in the server's close callback, whose effect the caller knows.\<close>

lemma rank_top: "3 \<le> rank st \<Longrightarrow> st = kDisconnected"
  by (cases st) simp_all

lemma HandleClose_ends_in_close:
  assumes "HandleClose e me close c w = Inr w'"
  obtains w2 srv d where "kept_fwd w w2" and "close srv d w2 = Inr w'"
    and "tc_close_callback (conns w c) = Some (srv, d)" and "tc_state (conns w2 c) = kDisconnected"
proof -
  let ?w0 = "on_conn (SetState kDisconnected) c w"
  from assms(1) obtain w1 w2 where
    "DisableAll (Channel_Update e) (tc_channel (conns w c)) ?w0 = Inr w1" "connection_callback e me c w1 = Inr w2"
    and last: "(case tc_close_callback (conns w2 c) of None \<Rightarrow> Inl BadFunctionCall
       | Some (srv, captured) \<Rightarrow> close srv captured w2) = Inr w'"
    by (auto simp: HandleClose_def andThen_eq_Inr)
  then have w2: "kept_fwd ?w0 w2"
    using kept_fwd_interest(4) kept_fwd_callbacks(1) kept_fwd_trans by blast
  have kept: "kept_fwd w w2" using kept_fwd_trans [OF kept_fwd_SetState w2] by simp
  have "rank (tc_state (conns ?w0 c)) \<le> rank (tc_state (conns w2 c))" using w2 unfolding kept_fwd_def by blast
  then have "tc_state (conns w2 c) = kDisconnected" by (intro rank_top) (simp add: SetState_def)
  moreover have "tc_close_callback (conns w2 c) = tc_close_callback (conns w c)"
    using kept by (simp add: kept_fwd_def kept_def same_connD(2))
  ultimately show ?thesis using kept last by (auto split: option.splits intro: that)
qed

lemma kept_fwd_HandleError: "kept_fwd w (HandleError e c w)"
  by (auto simp: HandleError_def Let_def split: prod.split intro: kept_fwd_trans [OF kept_fwd_basic(7) kept_fwd_basic(3)])

lemma Conn_HandleRead_kept_or_closed:
  assumes "Conn_HandleRead e me close t c w = Inr w'"
  obtains "kept_fwd w w'" | w2 srv d where "kept_fwd w w2" and "close srv d w2 = Inr w'"
proof -
  from assms(1) obtain r :: "nat sysres" and b k where
    rest: "(let w1 = on_conn (\<lambda>conn. conn\<lparr>tc_input_buffer := b\<rparr>) c (w\<lparr>kern := k\<rparr>)
       in case r of SysOk n \<Rightarrow> if n > 0 then message_callback e me t c w1 else HandleClose e me close c w1
          | SysErr n \<Rightarrow> Inr (HandleError e c (log_error ''TcpConnection::handleRead'' w1))) = Inr w'"
    unfolding Conn_HandleRead_def by (elim andThen_prod3E) blast
  let ?w1 = "on_conn (\<lambda>conn. conn\<lparr>tc_input_buffer := b\<rparr>) c (w\<lparr>kern := k\<rparr>)"
  have "kept_fwd w ?w1" by (rule kept_fwd_trans [OF kept_fwd_basic(7) kept_fwd_update_buffer(1)])
  moreover have "kept_fwd ?w1 w' \<or> HandleClose e me close c ?w1 = Inr w'"
    using rest kept_fwd_callbacks(2) kept_fwd_trans [OF kept_fwd_basic(3) kept_fwd_HandleError]
    by (auto simp: Let_def split: sysres.splits if_splits)
  ultimately show ?thesis
    by (elim disjE HandleClose_ends_in_close) (blast intro: that kept_fwd_trans)+
qed


lemma kept_fwd_drained:
  assumes "drained e me c w = Inr w'"
  shows "kept_fwd w w'"
proof -
  let ?q = "\<lambda>w. if tc_write_complete_callback (conns w c) then QueueInLoop e me (tc_loop (conns w c)) (FWriteComplete c) w else w"
  from assms obtain w1 where w1: "DisableWriting (Channel_Update e) (tc_channel (conns w c)) w = Inr w1"
    and rest: "(if tc_state (conns (?q w1) c) = kDisconnecting then ShutdownInLoop e c (?q w1) else Inr (?q w1)) = Inr w'"
    unfolding drained_def Let_def by (elim andThen_InrE)
  have "kept_fwd w1 (?q w1)" by simp
  moreover have "kept_fwd (?q w1) w'" using rest kept_fwd_ShutdownInLoop by (simp only: split: if_splits) auto
  ultimately show ?thesis using kept_fwd_interest(3) [OF w1] kept_fwd_trans by blast
qed

lemma HandleWrite_alt:
  "HandleWrite e me c w =
     (if IsWriting (conn_chan w c) then
        andThen (WriteFd e (ch_fd (conn_chan w c)) (tc_output_buffer (conns w c)) (kern w)) (\<lambda>(r, wrote, b, k).
          let w = on_conn (\<lambda>conn. conn\<lparr>tc_output_buffer := b\<rparr>) c (w\<lparr>kern := k,
                    trace := (case r of SysErr _ \<Rightarrow> trace w | SysOk _ \<Rightarrow> trace w @ [Wrote (ch_fd (conn_chan w c)) wrote])\<rparr>)
          in if (case r of SysErr _ \<Rightarrow> False | SysOk n \<Rightarrow> n > 0) then
               (if ReadableBytes (tc_output_buffer (conns w c)) = 0 then drained e me c w
                else Inr (log_error ''TcpConnection::HandleWrite'' w))
             else Inr (log_error ''TcpConnection is down, no more writing'' w))
      else Inr w)"
  unfolding HandleWrite_def drained_def Let_def ..

lemma kept_fwd_HandleWrite:
  assumes "HandleWrite e me c w = Inr w'"
  shows "kept_fwd w w'"
proof (cases "IsWriting (conn_chan w c)")
  case True
  with assms obtain r :: "nat sysres" and wrote b k where
    rest: "(let w1 = on_conn (\<lambda>conn. conn\<lparr>tc_output_buffer := b\<rparr>) c (w\<lparr>kern := k,
                    trace := (case r of SysErr _ \<Rightarrow> trace w | SysOk _ \<Rightarrow> trace w @ [Wrote (ch_fd (conn_chan w c)) wrote])\<rparr>)
          in if (case r of SysErr _ \<Rightarrow> False | SysOk n \<Rightarrow> n > 0) then
               (if ReadableBytes (tc_output_buffer (conns w1 c)) = 0 then drained e me c w1
                else Inr (log_error ''TcpConnection::HandleWrite'' w1))
             else Inr (log_error ''TcpConnection is down, no more writing'' w1)) = Inr w'"
    unfolding HandleWrite_alt by (simp only: if_True, elim andThen_prod4E) blast
  let ?w1 = "on_conn (\<lambda>conn. conn\<lparr>tc_output_buffer := b\<rparr>) c (w\<lparr>kern := k,
      trace := (case r of SysErr _ \<Rightarrow> trace w | SysOk _ \<Rightarrow> trace w @ [Wrote (ch_fd (conn_chan w c)) wrote])\<rparr>)"
  have "kept_fwd w ?w1" by (rule kept_fwd_trans [OF kept_fwd_basic(6) kept_fwd_update_buffer(2)])
  moreover have "kept_fwd ?w1 w'"
    using rest unfolding Let_def by (simp only: split: if_splits) (auto intro: kept_fwd_drained)
  ultimately show ?thesis by (rule kept_fwd_trans)
next
  case False
  then show ?thesis using assms by (simp add: HandleWrite_def)
qed

lemma kept_fwd_ConnectDestroyed:
  assumes "ConnectDestroyed e me c w = Inr w'"
  shows "kept_fwd w w'"
proof -
  from assms obtain w1 where
    first: "(if tc_state (conns w c) = kConnected then
          andThen (DisableAll (Channel_Update e) (tc_channel (conns w c)) (on_conn (SetState kDisconnected) c w))
            (connection_callback e me c) else Inr w) = Inr w1"
    and rem: "Channel_Remove e (tc_channel (conns w1 c)) w1 = Inr w'"
    unfolding ConnectDestroyed_def by (elim andThen_InrE)
  have "kept_fwd w w1"
  proof (cases "tc_state (conns w c) = kConnected")
    case True
    with first obtain w2 where
      "DisableAll (Channel_Update e) (tc_channel (conns w c)) (on_conn (SetState kDisconnected) c w) = Inr w2"
      "connection_callback e me c w2 = Inr w1" by auto
    then show ?thesis
      using kept_fwd_SetState [of w c kDisconnected] kept_fwd_interest(4) kept_fwd_callbacks(1) kept_fwd_trans
      by (metis rank_simps(4,5))
  qed (use first in simp)
  with kept_fwd_Channel_Remove [OF rem] show ?thesis using kept_fwd_trans by blast
qed

lemma ConnectEstablished_parts:
  assumes "ConnectEstablished e me c w = Inr w'"
  shows "kept (on_conn (SetState kConnected) c w) w'" and "kept_fwd (on_conn (SetState kConnected) c w) w'"
proof -
  from assms obtain w1 where "EnableReading (Channel_Update e) (tc_channel (conns w c))
      (on_chan (Tie c) (tc_channel (conns w c)) (on_conn (SetState kConnected) c w)) = Inr w1"
    "connection_callback e me c w1 = Inr w'"
    unfolding ConnectEstablished_def Let_def by (elim andThen_InrE)
  then show "kept_fwd (on_conn (SetState kConnected) c w) w'"
    using kept_fwd_basic(4) kept_fwd_interest(1) kept_fwd_callbacks(1) kept_fwd_trans by metis
  then show "kept (on_conn (SetState kConnected) c w) w'" by (rule kept_fwd_kept)
qed

lemma kept_ConnectEstablished: "ConnectEstablished e me c w = Inr w' \<Longrightarrow> kept w w'"
proof -
  assume "ConnectEstablished e me c w = Inr w'"
  from ConnectEstablished_parts(1) [OF this] show ?thesis
    by (rule kept_trans [rotated]) (auto simp: kept_def same_conn_def SetState_def intro: loops_kept_same)
qed


section \<open>Properties\<close>

text \<open>A connection at pointer 1 with channel 7 on descriptor 7, in loop 0 of thread 100.\<close>

definition sample_conn :: tcp_connection where
  "sample_conn = \<lparr>tc_loop = 0, tc_name = ''c'', tc_state = kConnected, tc_reading = True, tc_socket = 7, tc_channel = 7,
     tc_local_addr = \<lparr>sin_family = 2, sin_port = 80, sin_addr = 1\<rparr>, tc_peer_addr = \<lparr>sin_family = 2, sin_port = 81, sin_addr = 1\<rparr>,
     tc_connection_callback = True, tc_close_callback = Some (2, 1), tc_message_callback = True,
     tc_write_complete_callback = True, tc_high_water_mark = 4, tc_high_water_mark_callback = True,
     tc_input_buffer = sample_buffer, tc_output_buffer = sample_buffer, tc_context = None\<rparr>"

definition sample_tcp_world :: "test_kernel tcp_world" where
  "sample_tcp_world =
     \<lparr>kern = test_kernel0, trace = [], chans = (\<lambda>c. new_Channel 0 (int c)),
      pollers = (\<lambda>_. \<lparr>po_channels = Map.empty, po_epoll_fd = 4, po_events_size = 16\<rparr>),
      loops = (\<lambda>_. sample_loop), loop_in_this_thread = (\<lambda>_. None), conns = (\<lambda>_. sample_conn)\<rparr>"

lemma sample_tcp_world_ok: "host_ok test_env tk_ints 1 sample_tcp_world" "conn_ok 1 sample_tcp_world"
  using test_env_ok test_env_io_keeps wf_sample_buffer content_sample_buffer
  by (simp_all add: host_ok_def epoll_inv_def poller_inv_def index_ok_def conn_ok_def conn_chan_def
      sample_tcp_world_def sample_conn_def new_Channel_def kNew_def test_kernel0_def IsWriting_def)



text \<open>
  C8: \<open>HandleWrite\<close> only moves bytes from the output buffer to the kernel, in order: it returns,
  keeps the invariants and leaves the outgoing stream as it is, whether the write is complete,
  partial or fails.
\<close>

theorem HandleWrite_preserves_stream:
  assumes "write_ok e" and "host_ok e ints c w" and "conn_ok c w" and "tc_state (conns w c) \<noteq> kDisconnected"
  shows "\<exists>w' b. HandleWrite e me c w = Inr w' \<and> host_ok e ints c w' \<and> conn_ok c w'
      \<and> conns w' = (conns w)(c := (conns w c)\<lparr>tc_output_buffer := b\<rparr>) \<and> out_stream c w' = out_stream c w"
  by (rule HandleWrite_keeps [OF assms, of me]) blast

text \<open>The sample connection with two bytes waiting and \<open>Shutdown\<close> called.\<close>

definition waiting_buffer :: buffer where
  "waiting_buffer = \<lparr>buf_vec = replicate 8 0 @ [5, 6, 0, 0], reader_index = 8, writer_index = 10\<rparr>"

definition draining_world :: "test_kernel tcp_world" where
  "draining_world = sample_tcp_world
     \<lparr>kern := test_kernel0\<lparr>tk_ints := (\<lambda>_. [7 \<mapsto> \<lparr>ev_events = 7, ev_data = 7\<rparr>])\<rparr>,
      chans := (\<lambda>c. (new_Channel 0 (int c))\<lparr>ch_index := (if c = 7 then kAdded else kNew), ch_events := 7\<rparr>),
      pollers := (\<lambda>_. \<lparr>po_channels = [7 \<mapsto> 7], po_epoll_fd = 4, po_events_size = 16\<rparr>),
      conns := (\<lambda>_. sample_conn\<lparr>tc_state := kDisconnecting, tc_output_buffer := waiting_buffer\<rparr>)\<rparr>"

lemma waiting_buffer_ok: "wf_buffer waiting_buffer" "content waiting_buffer = [5, 6]"
  by (simp_all add: waiting_buffer_def wf_buffer_def content_def vector_max_size_def block_def)

lemma draining_world_sel:
  "conns draining_world c = sample_conn\<lparr>tc_state := kDisconnecting, tc_output_buffer := waiting_buffer\<rparr>"
  "chans draining_world 7 = (new_Channel 0 7)\<lparr>ch_index := kAdded, ch_events := 7\<rparr>"
  "pollers draining_world 0 = \<lparr>po_channels = [7 \<mapsto> 7], po_epoll_fd = 4, po_events_size = 16\<rparr>"
  "trace draining_world = []"
  by (simp_all add: draining_world_def sample_tcp_world_def)

lemma draining_world_ok: "host_ok test_env tk_ints 1 draining_world" "conn_ok 1 draining_world"
proof -
  have "poller_inv tk_ints 0 draining_world"
    by (auto simp: poller_inv_def draining_world_def new_Channel_def kernel_view_def registration_def split: if_splits)
  then show "host_ok test_env tk_ints 1 draining_world"
    using test_env_ok test_env_io_keeps
    by (simp add: host_ok_def epoll_inv_def index_ok_def HasChannel_def conn_chan_def draining_world_sel
        sample_conn_def new_Channel_def)
  show "conn_ok 1 draining_world"
    using waiting_buffer_ok wf_sample_buffer
    by (simp add: conn_ok_def conn_chan_def draining_world_sel sample_conn_def new_Channel_def valid_events_def
        IsWriting_def event_consts)
qed

theorem HandleWrite_preserves_stream_witness:
  "\<exists>w'. HandleWrite test_env 100 1 draining_world = Inr w' \<and> out_stream 1 w' = [5, 6]"
proof -
  have "tc_state (conns draining_world 1) \<noteq> kDisconnected" "out_stream 1 draining_world = [5, 6]"
    using waiting_buffer_ok by (simp_all add: draining_world_sel out_stream_def)
  with HandleWrite_preserves_stream [OF test_env_ok(1) draining_world_ok, of 100] show ?thesis by auto
qed








text \<open>
  C15: reading. \<open>HandleRead\<close> hands the message callback everything that was left unread followed
  by everything that arrived, closes the connection exactly when the peer has closed (a read of
  zero bytes), and on an error changes nothing but the log.
\<close>

theorem Conn_HandleRead_delivers:
  assumes "readv_ok e" and "conn_ok c w" and "f = tc_socket (conns w c)" and "old = tc_input_buffer (conns w c)"
    and "length (buf_vec old) + extrabuf_size \<le> vector_max_size"
    and "sys_readv e f (readv_iov old) (kern w) = (r, k)"
  shows "\<exists>b. wf_buffer b \<and> (let w1 = on_conn (\<lambda>conn. conn\<lparr>tc_input_buffer := b\<rparr>) c (w\<lparr>kern := k\<rparr>) in
      case r of
        SysErr n \<Rightarrow> content b = content old
          \<and> Conn_HandleRead e me close t c w = Inr (HandleError e c (log_error ''TcpConnection::handleRead'' w1))
      | SysOk bs \<Rightarrow> content b = content old @ bs
          \<and> Conn_HandleRead e me close t c w =
              (if bs = [] then HandleClose e me close c w1 else message_callback e me t c w1))"
proof -
  have wf: "wf_buffer old" and fd: "ch_fd (conn_chan w c) = f" using assms(2-4) by (simp_all add: conn_ok_def)
  show ?thesis
  proof (cases r)
    case (SysErr n)
    then have "ReadFd e f old (kern w) = Inr (SysErr n, old, k)" using assms(6) by (simp add: ReadFd_error)
    with SysErr wf fd show ?thesis
      by (intro exI [of _ old]) (simp add: Conn_HandleRead_def Let_def flip: assms(4))
  next
    case (SysOk bs)
    obtain b where b: "ReadFd e f old (kern w) = Inr (SysOk (length bs), b, k)" "wf_buffer b" "content b = content old @ bs"
      using wf assms(1,5) assms(6) [unfolded SysOk] by (rule ReadFd_appends)
    with SysOk fd show ?thesis
      by (intro exI [of _ b]) (simp add: Conn_HandleRead_def Let_def flip: assms(4))
  qed
qed

theorem Conn_HandleRead_delivers_witness:
  "\<exists>b. content b = [1, 2, 3, 4, 5, 6] \<and>
     Conn_HandleRead test_env 100 (\<lambda>_ _ w. Inr w) 0 1 sample_tcp_world = message_callback test_env 100 0 1
       (on_conn (\<lambda>conn. conn\<lparr>tc_input_buffer := b\<rparr>) 1 (sample_tcp_world\<lparr>kern := test_kernel0\<lparr>tk_stream := []\<rparr>\<rparr>))"
proof -
  have "sys_readv test_env 7 (readv_iov sample_buffer) (kern sample_tcp_world)
      = (SysOk [1, 2, 3, 4, 5, 6], test_kernel0\<lparr>tk_stream := []\<rparr>)"
    by (simp add: test_env_def sample_tcp_world_def test_kernel0_def readv_iov_def WritableBytes_sample_buffer extrabuf_size_def)
  moreover have "tc_socket (conns sample_tcp_world 1) = 7" "tc_input_buffer (conns sample_tcp_world 1) = sample_buffer"
    by (simp_all add: sample_tcp_world_def sample_conn_def)
  moreover have "length (buf_vec sample_buffer) + extrabuf_size \<le> vector_max_size"
    by (simp add: length_sample_buffer extrabuf_size_def vector_max_size_def)
  ultimately show ?thesis
    using Conn_HandleRead_delivers [OF test_env_ok(2) sample_tcp_world_ok(2), of 7 sample_buffer _ _ 100 "\<lambda>_ _ w. Inr w" 0]
    by (fastforce simp: content_sample_buffer Let_def)
qed

text \<open>
  C19: closing. \<open>HandleClose\<close> marks the connection disconnected and withdraws all interest
  before any callback runs; the application's connection callback then sees a connection that
  is down, and the server's close callback comes last, with what it captured. If the
  application never set a connection callback, closing ends in an exception and the server is
  not told.
\<close>

theorem HandleClose_tells_application_then_server:
  assumes "host_ok e ints c w" and "tc_close_callback (conns w c) = Some (srv, d)"
  shows "\<exists>w1. host_ok e ints c w1 \<and> tc_state (conns w1 c) = kDisconnected \<and> IsNoneEvent (conn_chan w1 c) \<and> trace w1 = trace w
    \<and> HandleClose e me close c w =
        (if tc_connection_callback (conns w c) then
           (case on_connection e c False (kern w1) of (acts, k) \<Rightarrow>
              andThen (foldE (perform e me None) acts (w1\<lparr>kern := k, trace := trace w @ [ConnectionCb c False]\<rparr>))
                (close srv d))
         else Inl BadFunctionCall)"
proof -
  let ?w0 = "on_conn (SetState kDisconnected) c w"
  have sel: "conns ?w0 c = SetState kDisconnected (conns w c)" by simp
  have id: "tc_loop (SetState st conn) = tc_loop conn" "tc_channel (SetState st conn) = tc_channel conn"
    "tc_state (SetState st conn) = st" "tc_connection_callback (SetState st conn) = tc_connection_callback conn"
    "tc_close_callback (SetState st conn) = tc_close_callback conn" for st conn
    by (simp_all add: SetState_def)
  have host0: "host_ok e ints c ?w0" by (rule host_ok_cong [OF assms(1)]) (simp_all add: id)
  obtain w1 i where w1: "set_interest e (tc_loop (conns ?w0 c)) 0 (tc_channel (conns ?w0 c)) ?w0 = Inr w1"
    "host_ok e ints c w1" "trace w1 = trace ?w0" "conns w1 = conns ?w0"
    "chans w1 = (chans ?w0)(tc_channel (conns ?w0 c) := SetIndex i (SetEvents 0 (conn_chan ?w0 c)))"
    by (rule interest_set [OF host0, of 0])
  have "ch_loop (chans w (tc_channel (conns w c))) = tc_loop (conns w c)"
    using assms(1) by (simp add: host_ok_def conn_chan_def)
  then have dis: "DisableAll (Channel_Update e) (tc_channel (conns w c)) ?w0 = Inr w1"
    using w1(1) by (simp add: channel_interest id)
  have keep: "tc_close_callback (conns w2 c) = Some (srv, d)"
    if "foldE (perform e me None) acts (w1\<lparr>kern := k, trace := tr\<rparr>) = Inr w2" for acts k tr w2
    using kept_fwd_performs [OF that] w1(4) assms(2)
    by (auto simp: kept_fwd_def kept_def same_conn_def id dest!: spec [of _ c] arg_cong [of _ _ tc_close_callback])
  have "HandleClose e me close c w =
        (if tc_connection_callback (conns w c) then
           (case on_connection e c False (kern w1) of (acts, k) \<Rightarrow>
              andThen (foldE (perform e me None) acts (w1\<lparr>kern := k, trace := trace w @ [ConnectionCb c False]\<rparr>))
                (close srv d))
         else Inl BadFunctionCall)"
    using dis w1(3,4) keep
    by (auto simp: HandleClose_def connection_callback_def IsConnected_def id andThen_def split: prod.split sum.split)
  moreover have "tc_state (conns w1 c) = kDisconnected" "IsNoneEvent (conn_chan w1 c)"
    using w1(4,5) by (simp_all add: id conn_chan_def IsNoneEvent_def kNoneEvent_def)
  ultimately show ?thesis using w1(2,3) by (intro exI [of _ w1]) simp
qed


theorem HandleClose_tells_application_then_server_witness:
  "\<exists>w'. HandleClose test_env 100 (\<lambda>_ _ w. Inr w) 1 sample_tcp_world = Inr w' \<and> trace w' = [ConnectionCb 1 False]"
proof -
  have sel: "tc_close_callback (conns sample_tcp_world 1) = Some (2, 1)" "tc_connection_callback (conns sample_tcp_world 1)"
    "trace sample_tcp_world = []"
    by (simp_all add: sample_tcp_world_def sample_conn_def)
  have "on_connection test_env 1 False k = ([], k)" for k by (simp add: test_env_def)
  with HandleClose_tells_application_then_server [OF sample_tcp_world_ok(1) sel(1), of 100 "\<lambda>_ _ w. Inr w"] sel
  show ?thesis by auto
qed

text \<open>
  After the close nothing more is sent. On a disconnected connection \<open>Send\<close> and
  \<open>Shutdown\<close> do nothing, \<open>SendInLoop\<close> only logs, and, with the interest withdrawn,
  \<open>HandleWrite\<close> and \<open>ConnectDestroyed\<close> neither write nor call back.
\<close>

theorem disconnected_connection_is_silent:
  assumes "tc_state (conns w c) = kDisconnected" and "IsNoneEvent (conn_chan w c)"
  shows "Send e me c msg w = Inr w \<and> Shutdown e me c w = Inr w
    \<and> SendInLoop e me c msg w = Inr (log_error ''disconnected, give up writing'' w)
    \<and> HandleWrite e me c w = Inr w \<and> ConnectDestroyed e me c w = Channel_Remove e (tc_channel (conns w c)) w"
  using assms
  by (simp add: Send_def Shutdown_def SendInLoop_def HandleWrite_def ConnectDestroyed_def IsNoneEvent_def IsWriting_def kNoneEvent_def)

theorem disconnected_connection_is_silent_witness:
  "Send test_env 100 1 [1] (on_conn (SetState kDisconnected) 1 sample_tcp_world) = Inr (on_conn (SetState kDisconnected) 1 sample_tcp_world)"
proof -
  have "tc_state (conns (on_conn (SetState kDisconnected) 1 sample_tcp_world) 1) = kDisconnected"
    "IsNoneEvent (conn_chan (on_conn (SetState kDisconnected) 1 sample_tcp_world) 1)"
    by (simp_all add: SetState_def conn_chan_def sample_tcp_world_def new_Channel_def IsNoneEvent_def kNoneEvent_def)
  from disconnected_connection_is_silent [OF this] show ?thesis by blast
qed

end
