(* ===== verification/Thread_Pool.thy ===== *)
theory Thread_Pool
  imports Tcp_Connection
begin

text \<open>
  Threads: \<open>current_thread\<close> (src/current_thread.cpp), \<open>Thread\<close> (src/thread.cpp),
  \<open>EventLoopThread\<close> (src/event_loop_thread.cpp) with its start handshake as an interleaving of
  the two threads, and \<open>EventLoopThreadPool\<close> (src/event_loop_thread_pool.cpp).
\<close>

section \<open>Thread identifiers\<close>

text \<open>\<open>cached\<close> is the thread-local \<open>t_cached_tid\<close>, \<open>gettid\<close> what the system call returns.\<close>

definition CacheTid :: "tid \<Rightarrow> tid \<Rightarrow> tid" where
  "CacheTid gettid cached = (if cached = 0 then gettid else cached)"

definition Tid :: "tid \<Rightarrow> tid \<Rightarrow> tid \<times> tid" where
  "Tid gettid cached = (let cached = (if cached = 0 then CacheTid gettid cached else cached) in (cached, cached))"

section \<open>Thread\<close>

record thread =
  th_started :: bool
  th_joined :: bool
  th_thread :: bool
  th_tid :: tid
  th_name :: string

text \<open>\<open>num_created_\<close> is an \<open>atomic_int\<close>, whose increment wraps around.\<close>

definition SetDefaultName :: "bits32 \<Rightarrow> thread \<Rightarrow> thread \<times> bits32" where
  "SetDefaultName num_created th =
     (let num = num_created + 1
      in (if th_name th = [] then th\<lparr>th_name := snprintf 32 (''Thread '' @ show_int (sint num))\<rparr> else th, num))"

definition new_Thread :: "bits32 \<Rightarrow> string \<Rightarrow> thread \<times> bits32" where
  "new_Thread num_created name =
     SetDefaultName num_created \<lparr>th_started = False, th_joined = False, th_thread = False, th_tid = 0, th_name = name\<rparr>"

text \<open>
  \<open>Start\<close> returns only after the new thread, with id \<open>tid\<close>, has stored its id; \<open>Join\<close> goes
  through the pointer \<open>thread_\<close>, which is null before \<open>Start\<close>.
\<close>

definition Thread_Start :: "tid \<Rightarrow> thread \<Rightarrow> thread" where
  "Thread_Start tid th = th\<lparr>th_started := True, th_thread := True, th_tid := tid\<rparr>"

definition Thread_Join :: "thread \<Rightarrow> thread result" where
  "Thread_Join th = (let th = th\<lparr>th_joined := True\<rparr> in if th_thread th then Inr th else Inl NullPointer)"

text \<open>The destructor detaches a thread that was started and not joined.\<close>

definition Thread_detaches :: "thread \<Rightarrow> bool" where
  "Thread_detaches th \<longleftrightarrow> th_started th \<and> \<not> th_joined th"

definition Thread_Started :: "thread \<Rightarrow> bool" where
  "Thread_Started th \<longleftrightarrow> th_started th"

definition Thread_Tid :: "thread \<Rightarrow> tid" where
  "Thread_Tid th = th_tid th"

definition Thread_Name :: "thread \<Rightarrow> string" where
  "Thread_Name th = th_name th"

section \<open>The start handshake of EventLoopThread\<close>

text \<open>
  The starter runs \<open>StartLoop\<close>: start the thread, wait until \<open>loop_\<close> is set, read it. The thread
  runs \<open>ThreadFunc\<close>: construct the loop (at \<open>addr\<close>), run the init callback, publish the loop
  under the mutex, run \<open>Loop\<close>, clear \<open>loop_\<close> under the mutex and destroy the loop. The owner of the
  object later runs the destructor: read \<open>loop_\<close> (without the mutex) and, if it is set, call \<open>Quit\<close>
  on the loop read and wait for the thread in \<open>Join\<close>.
\<close>

datatype starter_pc = NotStarted | Waiting | Returned ptr | Quitting ptr | Joining | Destroyed
datatype func_pc = Unborn | LoopBuilt | InitDone | InLoop | Finished

record handshake =
  hs_starter :: starter_pc
  hs_func :: func_pc
  hs_loop :: "ptr option"

definition handshake_init :: handshake where
  "handshake_init = \<lparr>hs_starter = NotStarted, hs_func = Unborn, hs_loop = None\<rparr>"

inductive handshake_step :: "ptr \<Rightarrow> handshake \<Rightarrow> handshake \<Rightarrow> bool" for addr :: ptr where
  start: "hs_starter s = NotStarted \<Longrightarrow>
    handshake_step addr s (s\<lparr>hs_starter := Waiting, hs_func := LoopBuilt\<rparr>)"
| init_callback: "hs_func s = LoopBuilt \<Longrightarrow> handshake_step addr s (s\<lparr>hs_func := InitDone\<rparr>)"
| publish: "hs_func s = InitDone \<Longrightarrow> handshake_step addr s (s\<lparr>hs_func := InLoop, hs_loop := Some addr\<rparr>)"
| proceed: "hs_starter s = Waiting \<Longrightarrow> hs_loop s = Some l \<Longrightarrow> handshake_step addr s (s\<lparr>hs_starter := Returned l\<rparr>)"
| loop_ends: "hs_func s = InLoop \<Longrightarrow> handshake_step addr s (s\<lparr>hs_func := Finished, hs_loop := None\<rparr>)"
| destroy: "hs_starter s = Returned l \<Longrightarrow>
    handshake_step addr s (s\<lparr>hs_starter := (case hs_loop s of Some m \<Rightarrow> Quitting m | None \<Rightarrow> Destroyed)\<rparr>)"
| quit: "hs_starter s = Quitting l \<Longrightarrow> handshake_step addr s (s\<lparr>hs_starter := Joining\<rparr>)"
| join: "hs_starter s = Joining \<Longrightarrow> hs_func s = Finished \<Longrightarrow> handshake_step addr s (s\<lparr>hs_starter := Destroyed\<rparr>)"

inductive_cases handshake_stepE: "handshake_step addr s s'"

inductive handshake_reachable :: "ptr \<Rightarrow> handshake \<Rightarrow> bool" for addr :: ptr where
  hs_init: "handshake_reachable addr handshake_init"
| hs_step: "handshake_reachable addr s \<Longrightarrow> handshake_step addr s s' \<Longrightarrow> handshake_reachable addr s'"

text \<open>What holds of the two threads together, by the position of the starter.\<close>

definition handshake_ok :: "ptr \<Rightarrow> handshake \<Rightarrow> bool" where
  "handshake_ok addr s \<longleftrightarrow> hs_loop s = (if hs_func s = InLoop then Some addr else None) \<and>
     (case hs_starter s of
        NotStarted \<Rightarrow> hs_func s = Unborn
      | Waiting \<Rightarrow> hs_func s \<noteq> Unborn
      | Returned l \<Rightarrow> l = addr \<and> hs_func s \<in> {InLoop, Finished}
      | Quitting l \<Rightarrow> l = addr \<and> hs_func s \<in> {InLoop, Finished}
      | Joining \<Rightarrow> hs_func s \<in> {InLoop, Finished}
      | Destroyed \<Rightarrow> hs_func s = Finished)"

lemma handshake_ok_step:
  assumes "handshake_step addr s s'" and "handshake_ok addr s"
  shows "handshake_ok addr s'"
  using assms by (cases; cases "hs_starter s"; cases "hs_func s") (simp_all add: handshake_ok_def)

lemma handshake_inv: "handshake_reachable addr s \<Longrightarrow> handshake_ok addr s"
proof (induction rule: handshake_reachable.induct)
  case hs_init
  show ?case by (simp add: handshake_ok_def handshake_init_def)
qed (rule handshake_ok_step)

section \<open>EventLoopThreadPool\<close>

record thread_pool =
  tp_base_loop :: ptr
  tp_name :: string
  tp_started :: bool
  tp_num_threads :: int
  tp_next :: int
  tp_threads :: "string list"
  tp_loops :: "ptr list"

definition new_EventLoopThreadPool :: "ptr \<Rightarrow> string \<Rightarrow> thread_pool" where
  "new_EventLoopThreadPool base_loop name =
     \<lparr>tp_base_loop = base_loop, tp_name = name, tp_started = False, tp_num_threads = 0, tp_next = 0,
      tp_threads = [], tp_loops = []\<rparr>"

definition Pool_SetThreadNum :: "int \<Rightarrow> thread_pool \<Rightarrow> thread_pool" where
  "Pool_SetThreadNum num_threads p = p\<lparr>tp_num_threads := num_threads\<rparr>"

text \<open>
  \<open>StartLoop\<close> with the effects of \<open>ThreadFunc\<close> up to \<open>Loop\<close>: the new thread has the id \<open>t\<close>, its loop is
  at \<open>l\<close> with its wakeup channel at \<open>c\<close>; the init callback, if set, runs in that thread.
\<close>

definition thread_init_callback :: "'k env \<Rightarrow> tid \<Rightarrow> ptr \<Rightarrow> ('k, 'm) tcp_op" where
  "thread_init_callback e me l w =
     (case on_thread_init e l (kern w) of (acts, k) \<Rightarrow>
        foldE (perform e me None) acts (w\<lparr>kern := k, trace := trace w @ [ThreadInitCb l]\<rparr>))"

definition StartLoop :: "'k env \<Rightarrow> bool \<Rightarrow> tid \<times> ptr \<times> ptr \<Rightarrow> ('k, 'm) tcp_op" where
  "StartLoop e cb new w =
     (case new of (t, l, c) \<Rightarrow>
        andThen (new_EventLoop e t l c w) (\<lambda>w. if cb then thread_init_callback e t l w else Inr w))"

text \<open>The name of thread \<open>i\<close>, printed into a buffer of \<open>name_.size() + 32\<close> bytes.\<close>

definition thread_name :: "string \<Rightarrow> nat \<Rightarrow> string" where
  "thread_name name i = snprintf (length name + 32) (c_str name @ show_int (int i))"

primrec start_threads ::
  "'k env \<Rightarrow> bool \<Rightarrow> nat \<Rightarrow> (tid \<times> ptr \<times> ptr) list \<Rightarrow> thread_pool \<Rightarrow> ('k, 'm) tcp_world_scheme \<Rightarrow>
   (thread_pool \<times> ('k, 'm) tcp_world_scheme) result" where
  "start_threads e cb i [] p w = Inr (p, w)"
| "start_threads e cb i (new # news) p w =
     andThen (StartLoop e cb new w) (\<lambda>w.
       start_threads e cb (Suc i) news
         (p\<lparr>tp_loops := tp_loops p @ [fst (snd new)], tp_threads := tp_threads p @ [thread_name (tp_name p) i]\<rparr>) w)"

text \<open>\<open>news\<close> are the threads and objects the system hands out, one for each of the \<open>num_threads_\<close>.\<close>

definition Pool_Start ::
  "'k env \<Rightarrow> bool \<Rightarrow> tid \<Rightarrow> (tid \<times> ptr \<times> ptr) list \<Rightarrow> thread_pool \<Rightarrow> ('k, 'm) tcp_world_scheme \<Rightarrow>
   (thread_pool \<times> ('k, 'm) tcp_world_scheme) result" where
  "Pool_Start e cb me news p w =
     andThen (start_threads e cb 0 (take (nat (tp_num_threads p)) news) (p\<lparr>tp_started := True\<rparr>) w) (\<lambda>(p, w).
       if tp_num_threads p = 0 \<and> cb
       then andThen (thread_init_callback e me (tp_base_loop p) w) (\<lambda>w. Inr (p, w))
       else Inr (p, w))"

definition GetNextLoop :: "thread_pool \<Rightarrow> (ptr \<times> thread_pool) result" where
  "GetNextLoop p =
     (if tp_loops p \<noteq> [] then
        (if 0 \<le> tp_next p \<and> nat (tp_next p) < length (tp_loops p) then
           (let loop = tp_loops p ! nat (tp_next p);
                next = tp_next p + 1
            in Inr (loop, p\<lparr>tp_next := (if next \<ge> int (length (tp_loops p)) then 0 else next)\<rparr>))
         else Inl OutOfBounds)
      else Inr (tp_base_loop p, p))"

text \<open>
  The destructors. \<open>the_loop\<close> is the value of \<open>loop_\<close> that the destructor of \<open>EventLoopThread\<close> reads, \<open>rest l\<close> what the
  thread of the loop \<open>l\<close> still does until \<open>Join\<close> returns; the pool destroys its threads in order.
\<close>

definition delete_EventLoopThread :: "'k env \<Rightarrow> tid \<Rightarrow> (ptr \<Rightarrow> ('k, 'm) tcp_op) \<Rightarrow> ptr option \<Rightarrow> ('k, 'm) tcp_op" where
  "delete_EventLoopThread e me rest the_loop w =
     (case the_loop of None \<Rightarrow> Inr w | Some l \<Rightarrow> rest l (Quit e me l w))"

definition delete_EventLoopThreadPool ::
  "'k env \<Rightarrow> tid \<Rightarrow> (ptr \<Rightarrow> ('k, 'm) tcp_op) \<Rightarrow> (ptr \<Rightarrow> ('k, 'm) tcp_world_scheme \<Rightarrow> ptr option) \<Rightarrow>
   thread_pool \<Rightarrow> ('k, 'm) tcp_op" where
  "delete_EventLoopThreadPool e me rest the_loop p w =
     foldE (\<lambda>l w. delete_EventLoopThread e me rest (the_loop l w) w) (tp_loops p) w"

definition GetAllLoops :: "thread_pool \<Rightarrow> ptr list" where
  "GetAllLoops p = (if tp_loops p = [] then [tp_base_loop p] else tp_loops p)"

definition Pool_started :: "thread_pool \<Rightarrow> bool" where
  "Pool_started p \<longleftrightarrow> tp_started p"

definition Pool_name :: "thread_pool \<Rightarrow> string" where
  "Pool_name p = tp_name p"

definition pool_ok :: "thread_pool \<Rightarrow> bool" where
  "pool_ok p \<longleftrightarrow> 0 \<le> tp_next p \<and> (if tp_loops p = [] then tp_next p = 0 else tp_next p < int (length (tp_loops p)))"

text \<open>The loops the next \<open>n\<close> calls of \<open>GetNextLoop\<close> return.\<close>

primrec picks :: "nat \<Rightarrow> thread_pool \<Rightarrow> (ptr list \<times> thread_pool) result" where
  "picks 0 p = Inr ([], p)"
| "picks (Suc n) p =
     andThen (GetNextLoop p) (\<lambda>(l, p). andThen (picks n p) (\<lambda>(ls, p). Inr (l # ls, p)))"

lemma GetNextLoop_step:
  assumes "pool_ok p" and "n = length (GetAllLoops p)"
  shows "\<exists>p'. GetNextLoop p = Inr (GetAllLoops p ! nat (tp_next p), p') \<and> pool_ok p'
      \<and> GetAllLoops p' = GetAllLoops p \<and> nat (tp_next p') = (nat (tp_next p) + 1) mod n"
proof (cases "tp_loops p = []")
  case True
  then show ?thesis using assms by (simp add: GetNextLoop_def GetAllLoops_def pool_ok_def)
next
  case False
  then have lt: "nat (tp_next p) < length (tp_loops p)" "0 \<le> tp_next p" using assms(1) by (auto simp: pool_ok_def)
  have "nat (tp_next p + 1) = nat (tp_next p) + 1" using lt by simp
  moreover have "(nat (tp_next p) + 1) mod n = (if nat (tp_next p) + 1 = n then 0 else nat (tp_next p) + 1)"
    using lt False assms(2) by (auto simp: GetAllLoops_def)
  ultimately show ?thesis
    using False lt assms(2) by (auto simp: GetNextLoop_def Let_def GetAllLoops_def pool_ok_def)
qed

lemma picks_round_robin:
  assumes "pool_ok p" and "n = length (GetAllLoops p)"
  shows "\<exists>p'. picks k p = Inr (map (\<lambda>i. GetAllLoops p ! ((nat (tp_next p) + i) mod n)) [0..<k], p')
      \<and> pool_ok p' \<and> GetAllLoops p' = GetAllLoops p"
  using assms
proof (induction k arbitrary: p)
  case (Suc k)
  obtain p1 where p1: "GetNextLoop p = Inr (GetAllLoops p ! nat (tp_next p), p1)" "pool_ok p1"
    "GetAllLoops p1 = GetAllLoops p" "nat (tp_next p1) = (nat (tp_next p) + 1) mod n"
    using GetNextLoop_step [OF Suc.prems] by blast
  obtain p2 where p2: "picks k p1 = Inr (map (\<lambda>i. GetAllLoops p1 ! ((nat (tp_next p1) + i) mod n)) [0..<k], p2)"
    "pool_ok p2" "GetAllLoops p2 = GetAllLoops p1"
    using Suc.IH [OF p1(2)] p1(3) Suc.prems(2) by metis
  have "nat (tp_next p) < n"
    using Suc.prems by (auto simp: pool_ok_def GetAllLoops_def split: if_splits)
  then have "GetAllLoops p ! nat (tp_next p) # map (\<lambda>i. GetAllLoops p ! ((nat (tp_next p1) + i) mod n)) [0..<k]
      = map (\<lambda>i. GetAllLoops p ! ((nat (tp_next p) + i) mod n)) [0..<Suc k]"
    by (simp only: upt_conv_Cons [of 0 "Suc k"] zero_less_Suc list.map map_Suc_upt [symmetric] map_map comp_def p1(4))
       (simp add: mod_simps)
  with p1 p2 show ?case by simp
qed simp


lemma length_show_int: "i < 2 ^ 31 \<Longrightarrow> length (show_int (int i)) \<le> 10"
  by (auto simp: show_int_def intro!: length_show_nat)

lemma thread_name_inj:
  assumes "thread_name name i = thread_name name j" and "i < 2 ^ 31" and "j < 2 ^ 31"
  shows "i = j"
proof -
  have "length (c_str name) \<le> length name" unfolding c_str_def by (rule length_takeWhile_le)
  then have "thread_name name k = c_str name @ show_int (int k)" if "k < 2 ^ 31" for k
    using length_show_int [OF that] by (simp add: thread_name_def)
  with assms show ?thesis by simp
qed

lemma start_threads_pool:
  assumes "start_threads e cb i news p w = Inr (p', w')"
  shows "p' = p\<lparr>tp_loops := tp_loops p @ map (fst \<circ> snd) news,
      tp_threads := tp_threads p @ map (thread_name (tp_name p)) [i..<i + length news]\<rparr>"
  using assms
proof (induction news arbitrary: i p w)
  case (Cons new news)
  then obtain w1 where "start_threads e cb (Suc i) news
      (p\<lparr>tp_loops := tp_loops p @ [fst (snd new)], tp_threads := tp_threads p @ [thread_name (tp_name p) i]\<rparr>) w1 = Inr (p', w')"
    by auto
  note tail = Cons.IH [OF this]
  have upt: "[i..<i + length (new # news)] = i # [Suc i..<Suc i + length news]"
    by (simp add: upt_conv_Cons del: upt_Suc)
  show ?case unfolding upt by (subst tail) (simp del: upt_Suc)
qed simp

section \<open>Properties\<close>

text \<open>
  C22: round robin. From any pool state that the operations can produce, the next \<open>k\<close> calls of
  \<open>GetNextLoop\<close> return without a bounds error and walk through \<open>GetAllLoops\<close> cyclically from the
  current position (through the base loop alone when there are no threads); as many calls as
  there are loops serve each loop exactly once.
\<close>

theorem GetNextLoop_round_robin:
  assumes "pool_ok p" and "n = length (GetAllLoops p)"
  shows "\<exists>p' ls. picks k p = Inr (ls, p') \<and> pool_ok p'
      \<and> ls = map (\<lambda>i. GetAllLoops p ! ((nat (tp_next p) + i) mod n)) [0..<k]
      \<and> (k = n \<and> distinct (GetAllLoops p) \<longrightarrow> distinct ls \<and> set ls = set (GetAllLoops p))"
proof -
  let ?ls = "map (\<lambda>i. GetAllLoops p ! ((nat (tp_next p) + i) mod n)) [0..<k]"
  have "?ls = rotate (nat (tp_next p)) (GetAllLoops p)" if "k = n"
    by (rule nth_equalityI) (simp_all add: that assms(2) nth_rotate add.commute)
  then show ?thesis using picks_round_robin [OF assms, of k] by (metis distinct_rotate set_rotate)
qed


definition sample_pool :: thread_pool where
  "sample_pool = (new_EventLoopThreadPool 0 ''p'')\<lparr>tp_loops := [10, 20, 30], tp_next := 1\<rparr>"

theorem GetNextLoop_round_robin_witness:
  "\<exists>p'. picks 4 sample_pool = Inr ([20, 30, 10, 20], p')"
proof -
  have "pool_ok sample_pool" "GetAllLoops sample_pool = [10, 20, 30]" "tp_next sample_pool = 1"
    by (simp_all add: pool_ok_def sample_pool_def new_EventLoopThreadPool_def GetAllLoops_def)
  with GetNextLoop_round_robin [of sample_pool 3 4] show ?thesis
    by (auto simp: upt_rec)
qed

text \<open>
  C23: starting the pool. When it returns, it has started exactly \<open>num_threads_\<close> loops, in
  order, each at the address its thread published, under pairwise different names; the pool is
  ready for round robin.
\<close>

theorem Pool_Start_starts_all:
  assumes "Pool_Start e cb me news (Pool_SetThreadNum (int n) (new_EventLoopThreadPool base name)) w = Inr (p', w')"
    and "n \<le> length news" and "n < 2 ^ 31"
  shows "tp_started p' \<and> tp_loops p' = map (fst \<circ> snd) (take n news) \<and> length (tp_threads p') = n
    \<and> distinct (tp_threads p') \<and> pool_ok p' \<and> tp_base_loop p' = base"
proof -
  let ?p = "(Pool_SetThreadNum (int n) (new_EventLoopThreadPool base name))\<lparr>tp_started := True\<rparr>"
  have num: "tp_num_threads (Pool_SetThreadNum (int n) (new_EventLoopThreadPool base name)) = int n"
    by (simp add: Pool_SetThreadNum_def)
  from assms(1) obtain p1 w1 where run: "start_threads e cb 0 (take n news) ?p w = Inr (p1, w1)" and "p' = p1"
    unfolding Pool_Start_def num nat_int by (auto simp: andThen_eq_Inr split: if_splits)
  then have p': "p' = ?p\<lparr>tp_loops := map (fst \<circ> snd) (take n news), tp_threads := map (thread_name name) [0..<n]\<rparr>"
    using start_threads_pool [OF run] assms(2) by (simp add: Pool_SetThreadNum_def new_EventLoopThreadPool_def min_def)
  have "distinct (map (thread_name name) [0..<n])"
    using assms(3) by (auto simp: distinct_map inj_on_def dest!: thread_name_inj)
  then show ?thesis
    using p' assms(2) by (simp add: Pool_SetThreadNum_def new_EventLoopThreadPool_def pool_ok_def)
qed

theorem Pool_Start_starts_all_witness:
  "\<exists>p' w'. Pool_Start test_env False 100 [(101, 11, 12), (102, 21, 22)]
      (Pool_SetThreadNum (int 1) (new_EventLoopThreadPool 0 ''p'')) sample_tcp_world = Inr (p', w') \<and> tp_loops p' = [11]"
proof -
  obtain w1 where "new_EventLoop test_env 101 11 12 sample_tcp_world = Inr w1"
    by (auto simp: new_EventLoop_def sample_tcp_world_def NewDefaultPoller_def new_EpollPoller_def CreateEventfd_def
        test_env_def Let_def EnableReading_def Channel_Update_def EventLoop_UpdateChannel_def UpdateChannel_def
        Update_def new_Channel_def kNew_def on_chan_def SetEvents_def SetIndex_def registration_def test_kernel0_def)
  then obtain p' where P: "Pool_Start test_env False 100 [(101, 11, 12), (102, 21, 22)]
      (Pool_SetThreadNum (int 1) (new_EventLoopThreadPool 0 ''p'')) sample_tcp_world = Inr (p', w1)"
    by (simp add: Pool_Start_def Pool_SetThreadNum_def new_EventLoopThreadPool_def StartLoop_def)
  from Pool_Start_starts_all [OF P] P show ?thesis by auto
qed


definition handshake_done :: handshake where
  "handshake_done = \<lparr>hs_starter = Returned 9, hs_func = InLoop, hs_loop = Some 9\<rparr>"

lemma handshake_published: "handshake_reachable addr \<lparr>hs_starter = Waiting, hs_func = InLoop, hs_loop = Some addr\<rparr>"
proof -
  have "handshake_reachable addr \<lparr>hs_starter = Waiting, hs_func = LoopBuilt, hs_loop = None\<rparr>"
    using hs_step [OF hs_init handshake_step.start] by (simp add: handshake_init_def)
  from hs_step [OF this handshake_step.init_callback]
  have "handshake_reachable addr \<lparr>hs_starter = Waiting, hs_func = InitDone, hs_loop = None\<rparr>" by simp
  from hs_step [OF this handshake_step.publish] show ?thesis by simp
qed


text \<open>
  C40: the handshake can be missed. A loop that ends before the starter gets the mutex (its
  first batch of functors called \<open>Quit\<close>, say) clears \<open>loop_\<close> again: the starter then waits for a
  value that nobody will ever store, and no thread can take a further step.
\<close>

theorem StartLoop_can_wait_forever:
  "\<exists>s. handshake_reachable addr s \<and> hs_starter s = Waiting \<and> hs_func s = Finished \<and> (\<nexists>s'. handshake_step addr s s')"
proof -
  let ?s = "\<lparr>hs_starter = Waiting, hs_func = Finished, hs_loop = None\<rparr> :: handshake"
  have "handshake_reachable addr ?s"
    using hs_step [OF handshake_published handshake_step.loop_ends] by simp
  moreover have "\<nexists>s'. handshake_step addr ?s s'" by (auto elim: handshake_stepE)
  ultimately show ?thesis by (intro exI [of _ ?s]) simp
qed

text \<open>
  The destructor reads \<open>loop_\<close> without the mutex: the thread may leave \<open>Loop\<close> on its own and destroy
  its loop between that read and the call of \<open>Quit\<close>, which then goes to a dead object.
\<close>

lemma destructor_may_quit_dead_loop:
  "\<exists>s. handshake_reachable addr s \<and> hs_starter s = Quitting addr \<and> hs_func s = Finished"
proof -
  have "handshake_reachable addr \<lparr>hs_starter = Returned addr, hs_func = InLoop, hs_loop = Some addr\<rparr>"
    using hs_step [OF handshake_published handshake_step.proceed] by simp
  from hs_step [OF this handshake_step.destroy]
  have "handshake_reachable addr \<lparr>hs_starter = Quitting addr, hs_func = InLoop, hs_loop = Some addr\<rparr>" by simp
  from hs_step [OF this handshake_step.loop_ends] show ?thesis by fastforce
qed

end
