(* ===== verification/Tcp_Server.thy ===== *)
theory Tcp_Server
  imports Thread_Pool
begin

text \<open>
  The classes \<open>Acceptor\<close> (src/acceptor.cpp) and \<open>TcpServer\<close> (src/tcp_server.cpp), and the meaning of
  all closures of the library: \<open>run_functor\<close> for those queued in loops, \<open>run_callback\<close> for those
  stored in channels. New connections and their channels are allocated at \<open>next_ptr\<close>.
\<close>

section \<open>State\<close>

record acceptor =
  ac_loop :: ptr
  ac_socket :: fd
  ac_channel :: ptr
  ac_listening :: bool
  ac_new_connection_callback :: "ptr option"

record tcp_server =
  sv_loop :: ptr
  sv_ip_port :: string
  sv_name :: string
  sv_acceptor :: ptr
  sv_pool :: thread_pool
  sv_connection_callback :: bool
  sv_message_callback :: bool
  sv_write_complete_callback :: bool
  sv_thread_init_callback :: bool
  sv_num_threads :: int
  sv_started :: bits32
  sv_next_conn_id :: int
  sv_connections :: "string \<rightharpoonup> ptr"

datatype Option = kNoReusePort | kReusePort

record 'k server_world = "'k tcp_world" +
  acceptors :: "ptr \<Rightarrow> acceptor"
  servers :: "ptr \<Rightarrow> tcp_server"
  next_ptr :: ptr

type_synonym ('k, 'm) server_op = "('k, 'm) server_world_scheme \<Rightarrow> ('k, 'm) server_world_scheme result"

definition on_acceptor ::
  "(acceptor \<Rightarrow> acceptor) \<Rightarrow> ptr \<Rightarrow> ('k, 'm) server_world_scheme \<Rightarrow> ('k, 'm) server_world_scheme" where
  "on_acceptor f a w = w\<lparr>acceptors := (acceptors w)(a := f (acceptors w a))\<rparr>"

definition on_server ::
  "(tcp_server \<Rightarrow> tcp_server) \<Rightarrow> ptr \<Rightarrow> ('k, 'm) server_world_scheme \<Rightarrow> ('k, 'm) server_world_scheme" where
  "on_server f s w = w\<lparr>servers := (servers w)(s := f (servers w s))\<rparr>"

section \<open>Acceptor\<close>

definition CreateNonblocking :: "'k env \<Rightarrow> 'k \<Rightarrow> (fd \<times> 'k) result" where
  "CreateNonblocking e k =
     (case sys_socket e k of (SysErr errno, k) \<Rightarrow> Inl LogFatal | (SysOk sockfd, k) \<Rightarrow> Inr (sockfd, k))"

definition new_Acceptor :: "'k env \<Rightarrow> ptr \<Rightarrow> ptr \<Rightarrow> ptr \<Rightarrow> InetAddress \<Rightarrow> bool \<Rightarrow> ('k, 'm) server_op" where
  "new_Acceptor e l a ch listen_addr reuse_port w =
     andThen (CreateNonblocking e (kern w)) (\<lambda>(sockfd, k).
       let w = w\<lparr>kern := k, chans := (chans w)(ch := new_Channel l sockfd),
                 acceptors := (acceptors w)(a := \<lparr>ac_loop = l, ac_socket = sockfd, ac_channel = ch,
                   ac_listening = False, ac_new_connection_callback = None\<rparr>)\<rparr>;
           w = BindAddress e listen_addr sockfd (SetReusePort e reuse_port sockfd (SetReuseAddr e True sockfd w))
       in Inr (on_chan (SetReadCallback (AcceptorHandleRead a)) ch w))"

definition delete_Acceptor :: "'k env \<Rightarrow> ptr \<Rightarrow> ('k, 'm) server_op" where
  "delete_Acceptor e a w =
     andThen (DisableAll (Channel_Update e) (ac_channel (acceptors w a)) w) (\<lambda>w.
     andThen (Channel_Remove e (ac_channel (acceptors w a)) w) (\<lambda>w.
       Inr (delete_Socket e (ac_socket (acceptors w a)) w)))"

definition Listen :: "'k env \<Rightarrow> ptr \<Rightarrow> ('k, 'm) server_op" where
  "Listen e a w =
     (let w = on_acceptor (\<lambda>ac. ac\<lparr>ac_listening := True\<rparr>) a w;
          w = Socket_Listen e (ac_socket (acceptors w a)) w
      in EnableReading (Channel_Update e) (ac_channel (acceptors w a)) w)"

definition Acceptor_listening :: "acceptor \<Rightarrow> bool" where
  "Acceptor_listening ac \<longleftrightarrow> ac_listening ac"

definition SetNewConnectionCallback :: "ptr \<Rightarrow> acceptor \<Rightarrow> acceptor" where
  "SetNewConnectionCallback srv ac = ac\<lparr>ac_new_connection_callback := Some srv\<rparr>"

text \<open>
  \<open>HandleRead\<close>; \<open>new_connection srv connfd peer\<close> is the body of the new-connection callback, and \<open>junk\<close>
  what the memory of the local \<open>peer_addr\<close> held before.
\<close>

definition Acceptor_HandleRead ::
  "'k env \<Rightarrow> inet \<Rightarrow> InetAddress \<Rightarrow> (ptr \<Rightarrow> fd \<Rightarrow> InetAddress \<Rightarrow> ('k, 'm) server_op) \<Rightarrow> ptr \<Rightarrow> ('k, 'm) server_op" where
  "Acceptor_HandleRead e p junk new_connection a w =
     (case Accept e (new_InetAddress p junk 0 ''127.0.0.1'') (ac_socket (acceptors w a)) w of
        (SysOk connfd, peer_addr, w) \<Rightarrow>
          (case ac_new_connection_callback (acceptors w a) of
             Some srv \<Rightarrow> new_connection srv connfd peer_addr w
           | None \<Rightarrow> Inr (w\<lparr>kern := sys_close e connfd (kern w), trace := trace w @ [Closed connfd]\<rparr>))
      | (SysErr errno, peer_addr, w) \<Rightarrow>
          (let w = log_error ''accept err'' w
           in Inr (if errno = EMFILE then log_error ''sockfd reached limit'' w else w)))"

section \<open>TcpServer\<close>

definition Server_CheckLoopNotNull :: "ptr option \<Rightarrow> ptr result" where
  "Server_CheckLoopNotNull loop = (case loop of None \<Rightarrow> Inl LogFatal | Some l \<Rightarrow> Inr l)"

text \<open>The server is allocated at \<open>s\<close>, its acceptor at \<open>a\<close> with its channel at \<open>ch\<close>.\<close>

definition new_TcpServer ::
  "'k env \<Rightarrow> inet \<Rightarrow> ptr option \<Rightarrow> ptr \<Rightarrow> ptr \<Rightarrow> ptr \<Rightarrow> InetAddress \<Rightarrow> string \<Rightarrow> Option \<Rightarrow> ('k, 'm) server_op" where
  "new_TcpServer e p loop s a ch listen_addr name option w =
     andThen (Server_CheckLoopNotNull loop) (\<lambda>l.
     andThen (new_Acceptor e l a ch listen_addr (option = kReusePort) w) (\<lambda>w.
       let sv = \<lparr>sv_loop = l, sv_ip_port = ToIpPort p listen_addr, sv_name = name, sv_acceptor = a,
                 sv_pool = new_EventLoopThreadPool l name, sv_connection_callback = False, sv_message_callback = False,
                 sv_write_complete_callback = False, sv_thread_init_callback = False, sv_num_threads = 0,
                 sv_started = 0, sv_next_conn_id = 1, sv_connections = Map.empty\<rparr>
       in Inr (on_acceptor (SetNewConnectionCallback s) a (w\<lparr>servers := (servers w)(s := sv)\<rparr>))))"

definition Server_name :: "tcp_server \<Rightarrow> string" where
  "Server_name sv = sv_name sv"

definition Server_ip_port :: "tcp_server \<Rightarrow> string" where
  "Server_ip_port sv = sv_ip_port sv"

definition Server_loop :: "tcp_server \<Rightarrow> ptr" where
  "Server_loop sv = sv_loop sv"

definition Server_SetThreadNum :: "int \<Rightarrow> tcp_server \<Rightarrow> tcp_server" where
  "Server_SetThreadNum num_threads sv = sv\<lparr>sv_num_threads := num_threads, sv_pool := Pool_SetThreadNum num_threads (sv_pool sv)\<rparr>"

definition SetThreadInitCallback :: "bool \<Rightarrow> tcp_server \<Rightarrow> tcp_server" where
  "SetThreadInitCallback cb sv = sv\<lparr>sv_thread_init_callback := cb\<rparr>"

definition Server_SetConnectionCallback :: "bool \<Rightarrow> tcp_server \<Rightarrow> tcp_server" where
  "Server_SetConnectionCallback cb sv = sv\<lparr>sv_connection_callback := cb\<rparr>"

definition Server_SetMessageCallback :: "bool \<Rightarrow> tcp_server \<Rightarrow> tcp_server" where
  "Server_SetMessageCallback cb sv = sv\<lparr>sv_message_callback := cb\<rparr>"

definition Server_SetWriteCompleteCallback :: "bool \<Rightarrow> tcp_server \<Rightarrow> tcp_server" where
  "Server_SetWriteCompleteCallback cb sv = sv\<lparr>sv_write_complete_callback := cb\<rparr>"

text \<open>\<open>started_.fetch_add(1) == 0\<close> lets the first call through; \<open>news\<close> as in \<open>Pool_Start\<close>.\<close>

definition Server_Start :: "'k env \<Rightarrow> tid \<Rightarrow> (tid \<times> ptr \<times> ptr) list \<Rightarrow> ptr \<Rightarrow> ('k, 'm) server_op" where
  "Server_Start e me news s w =
     (let started = sv_started (servers w s);
          w = on_server (\<lambda>sv. sv\<lparr>sv_started := sv_started sv + 1\<rparr>) s w;
          sv = servers w s
      in if started = 0 then
           andThen (Pool_Start e (sv_thread_init_callback sv) me news (sv_pool sv) w) (\<lambda>(pool, w).
             RunInLoop e me (\<lambda>_. Listen e (sv_acceptor sv)) (sv_loop sv) (FListen (sv_acceptor sv))
               (on_server (\<lambda>sv. sv\<lparr>sv_pool := pool\<rparr>) s w))
         else Inr w)"

definition conn_suffix :: "tcp_server \<Rightarrow> int \<Rightarrow> string" where
  "conn_suffix sv i = snprintf 64 (CHR ''-'' # c_str (sv_ip_port sv) @ CHR ''#'' # show_int i)"

definition local_address :: "'k env \<Rightarrow> fd \<Rightarrow> ('k, 'm) tcp_world_scheme \<Rightarrow> InetAddress \<times> ('k, 'm) tcp_world_scheme" where
  "local_address e connfd w =
     (case sys_getsockname e connfd (kern w) of
        (SysErr errno, k) \<Rightarrow> (\<lparr>sin_family = 0, sin_port = 0, sin_addr = 0\<rparr>, log_error ''getsockname error'' (w\<lparr>kern := k\<rparr>))
      | (SysOk local, k) \<Rightarrow> (local, w\<lparr>kern := k\<rparr>))"

definition NewConnection :: "'k env \<Rightarrow> tid \<Rightarrow> ptr \<Rightarrow> fd \<Rightarrow> InetAddress \<Rightarrow> ('k, 'm) server_op" where
  "NewConnection e me s connfd peer_addr w =
     andThen (GetNextLoop (sv_pool (servers w s))) (\<lambda>(sub_loop, pool).
       if sv_next_conn_id (servers w s) = 2 ^ 31 - 1 then Inl IntOverflow
       else
         (let sv = servers w s;
              conn_name = sv_name sv @ conn_suffix sv (sv_next_conn_id sv);
              w = on_server (\<lambda>sv. sv\<lparr>sv_pool := pool, sv_next_conn_id := sv_next_conn_id sv + 1\<rparr>) s w;
              (local_addr, w) = local_address e connfd w;
              c = next_ptr w
          in andThen (new_TcpConnection e (Some sub_loop) c (c + 1) conn_name connfd local_addr peer_addr
                        (w\<lparr>next_ptr := c + 2\<rparr>)) (\<lambda>w.
               let w = on_server (\<lambda>sv. sv\<lparr>sv_connections := (sv_connections sv)(conn_name \<mapsto> c)\<rparr>) s w;
                   w = on_conn (Conn_SetCloseCallback (s, c)
                        \<circ> SetWriteCompleteCallback (sv_write_complete_callback sv)
                        \<circ> SetMessageCallback (sv_message_callback sv)
                        \<circ> SetConnectionCallback (sv_connection_callback sv)) c w
               in RunInLoop e me (\<lambda>_. ConnectEstablished e me c) sub_loop (FConnectEstablished c) w)))"

definition RemoveConnectionInLoop :: "'k env \<Rightarrow> tid \<Rightarrow> ptr \<Rightarrow> ptr \<Rightarrow> ('k, 'm) server_op" where
  "RemoveConnectionInLoop e me s c w =
     Inr (QueueInLoop e me (tc_loop (conns w c)) (FConnectDestroyed c)
       (on_server (\<lambda>sv. sv\<lparr>sv_connections := (sv_connections sv)(tc_name (conns w c) := None)\<rparr>) s w))"

definition RemoveConnection :: "'k env \<Rightarrow> tid \<Rightarrow> ptr \<Rightarrow> ptr \<Rightarrow> ('k, 'm) server_op" where
  "RemoveConnection e me s c w =
     RunInLoop e me (\<lambda>_. RemoveConnectionInLoop e me s c) (sv_loop (servers w s)) (FRemoveConnectionInLoop s c) w"

text \<open>
  The destructor visits the connections in the order of the hash table, the argument \<open>order\<close>,
  and then the members' destructors run: the thread pool's (with its arguments \<open>rest\<close> and \<open>the_loop\<close>)
  before the acceptor's. \<open>drop_connection\<close> is the body of its loop.
\<close>

definition drop_connection :: "'k env \<Rightarrow> tid \<Rightarrow> ptr \<Rightarrow> string \<Rightarrow> ('k, 'm) server_op" where
  "drop_connection e me s name w =
     (case sv_connections (servers w s) name of
        None \<Rightarrow> Inr w
      | Some c \<Rightarrow> RunInLoop e me (\<lambda>_. ConnectDestroyed e me c) (tc_loop (conns w c)) (FConnectDestroyed c)
          (on_server (\<lambda>sv. sv\<lparr>sv_connections := (sv_connections sv)(name := None)\<rparr>) s w))"

definition delete_TcpServer ::
  "'k env \<Rightarrow> tid \<Rightarrow> (ptr \<Rightarrow> ('k, 'm) server_op) \<Rightarrow> (ptr \<Rightarrow> ('k, 'm) server_world_scheme \<Rightarrow> ptr option) \<Rightarrow>
   string list \<Rightarrow> ptr \<Rightarrow> ('k, 'm) server_op" where
  "delete_TcpServer e me rest the_loop order s w =
     andThen (foldE (drop_connection e me s) order w)
       (\<lambda>w. andThen (delete_EventLoopThreadPool e me rest the_loop (sv_pool (servers w s)) w)
               (\<lambda>w. delete_Acceptor e (sv_acceptor (servers w s)) w))"

section \<open>The closures of the library\<close>

definition run_functor :: "'k env \<Rightarrow> tid \<Rightarrow> Functor \<Rightarrow> ('k, 'm) server_op" where
  "run_functor e me f w = (case f of
      FSendInLoop c msg \<Rightarrow> SendInLoop e me c msg w
    | FSendBuffer c d \<Rightarrow> send_buffer_body e me c d w
    | FShutdownInLoop c \<Rightarrow> ShutdownInLoop e c w
    | FWriteComplete c \<Rightarrow> write_complete_callback e me c w
    | FHighWaterMark c n \<Rightarrow> high_water_mark_callback e me c n w
    | FConnectEstablished c \<Rightarrow> ConnectEstablished e me c w
    | FConnectDestroyed c \<Rightarrow> ConnectDestroyed e me c w
    | FRemoveConnectionInLoop s c \<Rightarrow> RemoveConnectionInLoop e me s c w
    | FListen a \<Rightarrow> Listen e a w
    | FUser n \<Rightarrow> (case on_functor e n (kern w) of (acts, k) \<Rightarrow>
        foldE (perform e me None) acts (w\<lparr>kern := k, trace := trace w @ [FunctorCb n]\<rparr>)))"

definition run_callback :: "'k env \<Rightarrow> inet \<Rightarrow> InetAddress \<Rightarrow> tid \<Rightarrow> callback \<Rightarrow> int \<Rightarrow> ('k, 'm) server_op" where
  "run_callback e p junk me cb t w = (case cb of
      LoopHandleRead l \<Rightarrow> Inr (EventLoop_HandleRead e l w)
    | AcceptorHandleRead a \<Rightarrow> Acceptor_HandleRead e p junk (NewConnection e me) a w
    | ConnHandleRead c \<Rightarrow> Conn_HandleRead e me (RemoveConnection e me) t c w
    | ConnHandleWrite c \<Rightarrow> HandleWrite e me c w
    | ConnHandleClose c \<Rightarrow> HandleClose e me (RemoveConnection e me) c w
    | ConnHandleError c \<Rightarrow> Inr (HandleError e c w))"


section \<open>Frames\<close>

lemma on_server_sel [simp, frame_simps]:
  "kern (on_server f s w) = kern w" "trace (on_server f s w) = trace w" "chans (on_server f s w) = chans w"
  "pollers (on_server f s w) = pollers w" "loops (on_server f s w) = loops w"
  "loop_in_this_thread (on_server f s w) = loop_in_this_thread w" "conns (on_server f s w) = conns w"
  "acceptors (on_server f s w) = acceptors w" "next_ptr (on_server f s w) = next_ptr w"
  "servers (on_server f s w) r = (if r = s then f (servers w s) else servers w r)"
  by (simp_all add: on_server_def)

lemma on_acceptor_sel [simp, frame_simps]:
  "kern (on_acceptor f a w) = kern w" "trace (on_acceptor f a w) = trace w" "chans (on_acceptor f a w) = chans w"
  "pollers (on_acceptor f a w) = pollers w" "loops (on_acceptor f a w) = loops w"
  "loop_in_this_thread (on_acceptor f a w) = loop_in_this_thread w" "conns (on_acceptor f a w) = conns w"
  "servers (on_acceptor f a w) = servers w" "next_ptr (on_acceptor f a w) = next_ptr w"
  "acceptors (on_acceptor f a w) b = (if b = a then f (acceptors w a) else acceptors w b)"
  by (simp_all add: on_acceptor_def)

lemma server_fields_kept [simp, frame_simps]:
  "servers (on_conn g c w) = servers w" "next_ptr (on_conn g c w) = next_ptr w"
  "servers (QueueInLoop e me l cb w) = servers w" "next_ptr (QueueInLoop e me l cb w) = next_ptr w"
  "servers (log_error m w) = servers w" "next_ptr (log_error m w) = next_ptr w"
  "servers (SetKeepAlive e b f w) = servers w" "next_ptr (SetKeepAlive e b f w) = next_ptr w"
  "next_ptr (EventLoop_HandleRead e l w) = next_ptr w" "next_ptr (Socket_Listen e f w) = next_ptr w"
  by (simp_all add: on_conn_def QueueInLoop_def Let_def Wakeup_def on_loop_def log_error_def SetKeepAlive_def
      EventLoop_HandleRead_def Socket_Listen_def split: prod.split sysres.split)

lemma sock_loops [simp, frame_simps]:
  "loops (Socket_Listen e f w) = loops w" "loop_in_this_thread (Socket_Listen e f w) = loop_in_this_thread w"
  "loops (SetKeepAlive e b f w) = loops w" "loop_in_this_thread (SetKeepAlive e b f w) = loop_in_this_thread w"
  "pollers (SetKeepAlive e b f w) = pollers w" "conns (SetKeepAlive e b f w) = conns w"
  "conns (Socket_Listen e f w) = conns w" "conns (EventLoop_HandleRead e l w) = conns w"
  by (simp_all add: Socket_Listen_def SetKeepAlive_def EventLoop_HandleRead_def split: prod.split sysres.split)

lemma local_address_sel [simp, frame_simps]:
  "chans (snd (local_address e f w)) = chans w" "pollers (snd (local_address e f w)) = pollers w"
  "loops (snd (local_address e f w)) = loops w" "conns (snd (local_address e f w)) = conns w"
  "loop_in_this_thread (snd (local_address e f w)) = loop_in_this_thread w"
  "tcp_world.more (snd (local_address e f w)) = tcp_world.more w"
  by (simp_all add: local_address_def log_error_def split: prod.split sysres.split)

lemma local_address_server [simp, frame_simps]:
  "servers (snd (local_address e f w)) = servers w" "next_ptr (snd (local_address e f w)) = next_ptr w"
  by (simp_all add: local_address_def split: prod.split sysres.split)

lemma more_server:
  assumes "tcp_world.more w' = tcp_world.more w"
  shows "servers w' = servers w" and "acceptors w' = acceptors w" and "next_ptr w' = next_ptr w"
  using assms by (cases w; cases w'; simp)+

section \<open>What the closures keep\<close>

text \<open>
  Every closure keeps the loops as \<open>loops_kept\<close> says and the identity of all connections that
  existed before, and moves their states forward, those in \<open>X\<close> excepted; the acceptor's
  allocates new connections above \<open>next_ptr\<close>.
\<close>

definition world_kept :: "ptr set \<Rightarrow> ('k, 'm) server_world_scheme \<Rightarrow> ('k, 'm) server_world_scheme \<Rightarrow> bool" where
  "world_kept X w w' \<longleftrightarrow> loops_kept w w' \<and> next_ptr w \<le> next_ptr w' \<and>
     (\<forall>c < next_ptr w. same_conn (conns w c) (conns w' c)
        \<and> (c \<notin> X \<longrightarrow> rank (tc_state (conns w c)) \<le> rank (tc_state (conns w' c))))"

lemma world_kept_refl [simp, intro]: "world_kept X w w"
  by (simp add: world_kept_def)

lemma world_kept_trans [trans]: "world_kept X a b \<Longrightarrow> world_kept X b c \<Longrightarrow> world_kept X a c"
  unfolding world_kept_def by (meson loops_kept_trans same_conn_trans order_trans order_less_le_trans)

lemma world_kept_if_fwd: "kept_fwd w w' \<Longrightarrow> world_kept X w w'"
  using more_server(3) [of w' w] by (simp add: kept_fwd_def kept_def world_kept_def)

lemma world_kept_same:
  assumes "loops_kept w w'" and "conns w' = conns w" and "next_ptr w' = next_ptr w"
  shows "world_kept X w w'"
  using assms by (simp add: world_kept_def)

lemma world_kept_on_server [simp, intro]: "world_kept X w (on_server f s w)"
  by (auto intro!: world_kept_same loops_kept_same)

lemma world_kept_RunInLoop:
  assumes "RunInLoop e me exec l cb w = Inr w'" and "\<And>w'. exec cb w = Inr w' \<Longrightarrow> world_kept X w w'"
  shows "world_kept X w w'"
  using assms world_kept_if_fwd [OF kept_fwd_basic(1)] by (auto simp: RunInLoop_def split: if_splits)

lemma world_kept_ConnectEstablished:
  assumes "ConnectEstablished e me c w = Inr w'"
  shows "world_kept {c} w w'"
proof -
  note parts = ConnectEstablished_parts(2) [OF assms]
  have "next_ptr w' = next_ptr w"
    using parts more_server(3) [of w' "on_conn (SetState kConnected) c w"] by (simp add: kept_fwd_def kept_def)
  moreover have "rank (tc_state (conns w d)) \<le> rank (tc_state (conns w' d))" if "d \<noteq> c" for d
    using parts that by (auto simp: kept_fwd_def dest: spec [of _ d])
  ultimately show ?thesis
    using kept_ConnectEstablished [OF assms] by (auto simp: world_kept_def kept_def)
qed

lemma world_kept_RemoveConnectionInLoop: "RemoveConnectionInLoop e me s c w = Inr w' \<Longrightarrow> world_kept X w w'"
  by (auto simp: RemoveConnectionInLoop_def
      intro!: world_kept_trans [OF world_kept_on_server world_kept_if_fwd [OF kept_fwd_basic(1)]])

lemma world_kept_RemoveConnection: "RemoveConnection e me s c w = Inr w' \<Longrightarrow> world_kept X w w'"
  unfolding RemoveConnection_def by (erule world_kept_RunInLoop) (rule world_kept_RemoveConnectionInLoop)

lemma world_kept_Listen: "Listen e a w = Inr w' \<Longrightarrow> world_kept X w w'"
proof -
  let ?w1 = "Socket_Listen e (ac_socket (acceptors (on_acceptor (\<lambda>ac. ac\<lparr>ac_listening := True\<rparr>) a w) a))
      (on_acceptor (\<lambda>ac. ac\<lparr>ac_listening := True\<rparr>) a w)"
  assume "Listen e a w = Inr w'"
  then have "world_kept X ?w1 w'"
    unfolding Listen_def Let_def by (rule world_kept_if_fwd [OF kept_fwd_interest(1)])
  moreover have "world_kept X w ?w1" by (rule world_kept_same) (auto intro: loops_kept_same)
  ultimately show ?thesis using world_kept_trans by blast
qed

lemma world_kept_new_TcpConnection:
  assumes "new_TcpConnection e (Some l) c ch name f la pa (w\<lparr>next_ptr := c + 2\<rparr>) = Inr w'" and "c = next_ptr w"
  shows "world_kept X w w'"
proof -
  from assms(1) have "loops_kept w w'" "conns w' = (conns w)(c := conns w' c)" "next_ptr w' = c + 2"
    by (auto simp: new_TcpConnection_def CheckLoopNotNull_def andThen_eq_Inr Let_def intro!: loops_kept_same)
  moreover from this(2) have "conns w' d = conns w d" if "d < c" for d
    using that by (metis fun_upd_other less_irrefl)
  ultimately show ?thesis using assms(2) by (simp add: world_kept_def)
qed

lemma world_kept_fresh_conn: "next_ptr v \<le> c \<Longrightarrow> world_kept X v w \<Longrightarrow> world_kept X v (on_conn f c w)"
  by (auto simp: world_kept_def loops_kept_def)

text \<open>The steps of a successful \<open>NewConnection\<close>.\<close>

lemma NewConnection_steps:
  assumes "NewConnection e me s connfd peer w = Inr w'"
  obtains sub_loop pool la w1 w2 w3 where "GetNextLoop (sv_pool (servers w s)) = Inr (sub_loop, pool)"
    and "w1 = snd (local_address e connfd
           (on_server (\<lambda>sv. sv\<lparr>sv_pool := pool, sv_next_conn_id := sv_next_conn_id sv + 1\<rparr>) s w))"
    and "new_TcpConnection e (Some sub_loop) (next_ptr w) (next_ptr w + 1)
           (sv_name (servers w s) @ conn_suffix (servers w s) (sv_next_conn_id (servers w s))) connfd la peer
           (w1\<lparr>next_ptr := next_ptr w + 2\<rparr>) = Inr w2"
    and "w3 = on_conn (Conn_SetCloseCallback (s, next_ptr w)
           \<circ> SetWriteCompleteCallback (sv_write_complete_callback (servers w s))
           \<circ> SetMessageCallback (sv_message_callback (servers w s))
           \<circ> SetConnectionCallback (sv_connection_callback (servers w s))) (next_ptr w)
         (on_server (\<lambda>sv. sv\<lparr>sv_connections := (sv_connections sv)
            (sv_name (servers w s) @ conn_suffix (servers w s) (sv_next_conn_id (servers w s)) \<mapsto> next_ptr w)\<rparr>) s w2)"
    and "RunInLoop e me (\<lambda>_. ConnectEstablished e me (next_ptr w)) sub_loop (FConnectEstablished (next_ptr w)) w3 = Inr w'"
proof -
  from assms obtain sub_loop pool where g: "GetNextLoop (sv_pool (servers w s)) = Inr (sub_loop, pool)"
    unfolding NewConnection_def by (auto simp: andThen_eq_Inr)
  let ?w0 = "on_server (\<lambda>sv. sv\<lparr>sv_pool := pool, sv_next_conn_id := sv_next_conn_id sv + 1\<rparr>) s w"
  obtain la w1 where la: "local_address e connfd ?w0 = (la, w1)" by fastforce
  have np: "next_ptr w1 = next_ptr w" using local_address_server(2) [of e connfd ?w0] la by simp
  show ?thesis
    using assms g la np that [of sub_loop pool w1 la]
    unfolding NewConnection_def by (auto simp: Let_def andThen_eq_Inr split: if_splits)
qed

lemma world_kept_NewConnection:
  assumes "NewConnection e me s connfd peer w = Inr w'"
  shows "world_kept X w w'"
proof -
  have "world_kept {next_ptr w} w w'"
    using assms
  proof (cases rule: NewConnection_steps)
    case (1 sub_loop pool la w1 w2 w3)
    let ?X = "{next_ptr w}"
    have w1: "world_kept ?X w w1" "next_ptr w1 = next_ptr w"
      using 1(2) by (auto intro!: world_kept_same loops_kept_same)
    have "world_kept ?X w1 w2" by (rule world_kept_new_TcpConnection [OF 1(3)]) (simp add: w1(2))
    then have "world_kept ?X w w2" using w1 world_kept_trans by blast
    then have "world_kept ?X w (on_server f s w2)" for f using world_kept_on_server world_kept_trans by blast
    then have "world_kept ?X w w3" unfolding 1(4) by (intro world_kept_fresh_conn) simp_all
    moreover have "world_kept ?X w3 w'"
      using 1(5) by (rule world_kept_RunInLoop) (rule world_kept_ConnectEstablished)
    ultimately show ?thesis by (rule world_kept_trans)
  qed
  then show ?thesis by (simp add: world_kept_def)
qed

lemma world_kept_Acceptor_HandleRead:
  assumes "Acceptor_HandleRead e p junk (NewConnection e me) a w = Inr w'"
  shows "world_kept X w w'"
proof -
  obtain r peer w1 where acc: "Accept e (new_InetAddress p junk 0 ''127.0.0.1'') (ac_socket (acceptors w a)) w = (r, peer, w1)"
    by (metis prod_cases3)
  then obtain k where w1: "w1 = w\<lparr>kern := k\<rparr>" by (auto simp: Accept_def split: prod.splits sysres.splits)
  have basic: "world_kept X w (w\<lparr>kern := k\<rparr>)" "world_kept X w (w\<lparr>kern := k2, trace := tr\<rparr>)" for k2 tr
    by (auto intro!: world_kept_same loops_kept_same)
  show ?thesis
    using assms acc w1 basic(1) world_kept_trans [OF basic(1) world_kept_NewConnection]
      world_kept_trans [OF basic(1) world_kept_if_fwd [OF kept_fwd_basic(3)]]
    unfolding Acceptor_HandleRead_def
    by (auto simp: Let_def split: sysres.splits option.splits if_splits intro!: world_kept_same loops_kept_same)
qed


lemma world_kept_run_functor:
  assumes "run_functor e me f w = Inr w'"
  shows "world_kept {c. f = FConnectEstablished c} w w'"
proof (cases f)
  case (FConnectEstablished c)
  then show ?thesis using assms by (auto simp: run_functor_def dest: world_kept_ConnectEstablished)
next
  case (FRemoveConnectionInLoop s c)
  then show ?thesis using assms by (auto simp: run_functor_def intro: world_kept_RemoveConnectionInLoop)
next
  case (FListen a)
  then show ?thesis using assms by (auto simp: run_functor_def intro: world_kept_Listen)
next
  case (FUser n)
  then show ?thesis using assms
    by (auto simp: run_functor_def split: prod.splits intro: world_kept_if_fwd kept_fwd_performs)
qed (use assms in \<open>auto simp: run_functor_def intro!: world_kept_if_fwd
      intro: kept_fwd_SendInLoop kept_fwd_send_buffer_body kept_fwd_ShutdownInLoop kept_fwd_callbacks kept_fwd_ConnectDestroyed\<close>)

lemma world_kept_run_callback:
  assumes "run_callback e p junk me cb t w = Inr w'"
  shows "world_kept X w w'"
proof (cases cb)
  case (LoopHandleRead l)
  then show ?thesis using assms by (auto simp: run_callback_def intro!: world_kept_same loops_kept_same)
next
  case (ConnHandleRead c)
  then have "Conn_HandleRead e me (RemoveConnection e me) t c w = Inr w'" using assms by (simp add: run_callback_def)
  then show ?thesis
    by (rule Conn_HandleRead_kept_or_closed)
       (blast intro: world_kept_if_fwd world_kept_trans world_kept_RemoveConnection)+
next
  case (ConnHandleClose c)
  then have "HandleClose e me (RemoveConnection e me) c w = Inr w'" using assms by (simp add: run_callback_def)
  then show ?thesis
    by (rule HandleClose_ends_in_close) (blast intro: world_kept_if_fwd world_kept_trans world_kept_RemoveConnection)
qed (use assms in \<open>auto simp: run_callback_def
      intro: world_kept_Acceptor_HandleRead world_kept_if_fwd kept_fwd_HandleError kept_fwd_HandleWrite\<close>)

lemmas closures_kept = world_kept_run_functor world_kept_run_callback

interpretation lib: loop_client "run_functor e me" "run_callback e p junk me" for e p junk me
  by unfold_locales (auto simp: world_kept_def dest: closures_kept)

section \<open>Ownership\<close>

text \<open>
  A \<open>TcpConnection\<close> lives as long as some \<open>shared_ptr\<close> to it does: one in the map of a server,
  one captured by a queued functor, or one captured by the close callback of a connection.
\<close>

definition captures :: "Functor \<Rightarrow> ptr \<Rightarrow> bool" where
  "captures f c \<longleftrightarrow> f = FConnectEstablished c \<or> f = FConnectDestroyed c \<or> (\<exists>s. f = FRemoveConnectionInLoop s c)"

definition held :: "ptr \<Rightarrow> ('k, 'm) server_world_scheme \<Rightarrow> bool" where
  "held c w \<longleftrightarrow> (\<exists>s name. sv_connections (servers w s) name = Some c)
     \<or> (\<exists>l. \<exists>f \<in> set (el_pending_functors (loops w l)). captures f c)
     \<or> (\<exists>d s. tc_close_callback (conns w d) = Some (s, c))"

text \<open>
  The steps of the whole program: any thread runs a functor or a channel callback, or the
  application calls the library from any thread.
\<close>

inductive program_step ::
  "'k env \<Rightarrow> inet \<Rightarrow> InetAddress \<Rightarrow> ('k, 'm) server_world_scheme \<Rightarrow> ('k, 'm) server_world_scheme \<Rightarrow> bool"
  for e :: "'k env" and p :: inet and junk :: InetAddress where
  functor_runs: "run_functor e me f w = Inr w' \<Longrightarrow> program_step e p junk w w'"
| callback_runs: "run_callback e p junk me cb t w = Inr w' \<Longrightarrow> program_step e p junk w w'"
| application_calls: "perform e me buf a w = Inr w' \<Longrightarrow> program_step e p junk w w'"

lemma world_kept_weaken: "world_kept X w w' \<Longrightarrow> world_kept UNIV w w'"
  by (simp add: world_kept_def)

lemma world_kept_program_step: "program_step e p junk w w' \<Longrightarrow> world_kept UNIV w w'"
  by (cases rule: program_step.cases)
     (auto intro: world_kept_weaken [OF world_kept_run_functor] world_kept_run_callback world_kept_if_fwd kept_fwd_perform)

lemma world_kept_program_steps: "(program_step e p junk)\<^sup>*\<^sup>* w w' \<Longrightarrow> world_kept UNIV w w'"
  by (induction rule: rtranclp_induct) (auto intro: world_kept_program_step world_kept_trans)

end
