(* ===== verification/Server_Lifecycle.thy ===== *)
theory Server_Lifecycle
  imports Tcp_Server
begin

text \<open>
  What the server, its acceptor, its pool and its connections guarantee together: the names of the
  connections and the invariant of the server over all reachable states, the hand-over of a
  new connection, its removal when it closes, its states and its lifetime, and the end of a
  loop that runs all these closures.
\<close>

section \<open>Names\<close>

lemma conn_suffix_eq:
  assumes "length (sv_ip_port sv) \<le> 21" and "1 \<le> i" and "i < 2 ^ 31"
  shows "conn_suffix sv i = CHR ''-'' # c_str (sv_ip_port sv) @ CHR ''#'' # show_int i"
proof -
  have "length (show_int i) \<le> 10" using length_show_int [of "nat i"] assms(2,3) by simp
  moreover have "length (c_str (sv_ip_port sv)) \<le> 21"
    using assms(1) length_takeWhile_le [of _ "sv_ip_port sv"] unfolding c_str_def by (rule order_trans [rotated])
  ultimately show ?thesis by (simp add: conn_suffix_def)
qed

definition conn_name :: "tcp_server \<Rightarrow> int \<Rightarrow> string" where
  "conn_name sv i = sv_name sv @ conn_suffix sv i"

lemma conn_name_inj:
  assumes "conn_name sv i = conn_name sv j" and "length (sv_ip_port sv) \<le> 21"
    and "1 \<le> i" and "i < 2 ^ 31" and "1 \<le> j" and "j < 2 ^ 31"
  shows "i = j"
  using assms by (simp add: conn_name_def conn_suffix_eq)

text \<open>
  The invariant of a server: its pool is ready for round robin, and each entry of its map is
  a connection that exists, stored under its own name, which carries one of the ids given out.
\<close>

definition server_ok :: "ptr \<Rightarrow> ('k, 'm) server_world_scheme \<Rightarrow> bool" where
  "server_ok s w \<longleftrightarrow> (let sv = servers w s in
     pool_ok (sv_pool sv) \<and> length (sv_ip_port sv) \<le> 21 \<and> 1 \<le> sv_next_conn_id sv \<and> sv_next_conn_id sv < 2 ^ 31 \<and>
     (\<forall>name c. sv_connections sv name = Some c \<longrightarrow> c < next_ptr w \<and> tc_name (conns w c) = name
        \<and> (\<exists>i \<ge> 1. i < sv_next_conn_id sv \<and> name = conn_name sv i)))"

lemma server_okD:
  assumes "server_ok s w"
  shows "pool_ok (sv_pool (servers w s))" and "length (sv_ip_port (servers w s)) \<le> 21"
    and "1 \<le> sv_next_conn_id (servers w s)" and "sv_next_conn_id (servers w s) < 2 ^ 31"
    and "sv_connections (servers w s) name = Some c \<Longrightarrow> c < next_ptr w \<and> tc_name (conns w c) = name"
    and "sv_connections (servers w s) name = Some c \<Longrightarrow>
      \<exists>i \<ge> 1. i < sv_next_conn_id (servers w s) \<and> name = conn_name (servers w s) i"
  using assms by (simp_all add: server_ok_def Let_def)

lemma server_ok_fresh_name:
  assumes "server_ok s w"
  shows "sv_connections (servers w s) (conn_name (servers w s) (sv_next_conn_id (servers w s))) = None"
proof (rule ccontr)
  assume "\<not> ?thesis"
  then obtain c where "sv_connections (servers w s) (conn_name (servers w s) (sv_next_conn_id (servers w s))) = Some c" by auto
  from server_okD(6) [OF assms this] obtain i where
    "1 \<le> i" "i < sv_next_conn_id (servers w s)"
    "conn_name (servers w s) (sv_next_conn_id (servers w s)) = conn_name (servers w s) i" by blast
  with server_okD(2-4) [OF assms] show False by (auto dest!: conn_name_inj)
qed

lemma server_ok_keep:
  assumes "server_ok s w" and "servers w' s = servers w s" and "world_kept UNIV w w'"
  shows "server_ok s w'"
proof -
  have "c < next_ptr w \<Longrightarrow> tc_name (conns w' c) = tc_name (conns w c)" for c
    using assms(3) unfolding world_kept_def by (auto dest: same_connD(1))
  moreover have "next_ptr w \<le> next_ptr w'" using assms(3) by (simp add: world_kept_def)
  ultimately show ?thesis using assms(1,2) by (fastforce simp: server_ok_def Let_def)
qed

text \<open>
  What a step of the program does to the servers: nothing (it keeps everything but loops,
  buffers and states), or it adds a connection, or it removes one.
\<close>

lemma kept_servers: "kept w w' \<Longrightarrow> servers w' = servers w"
  using more_server(1) [of w' w] by (simp add: kept_def)

lemma servers_frame [simp, frame_simps]:
  "servers (Socket_Listen e f w) = servers w" "servers (EventLoop_HandleRead e l w) = servers w"
  by (simp_all add: Socket_Listen_def EventLoop_HandleRead_def split: prod.split sysres.split)

lemma Acceptor_HandleRead_cases:
  assumes "Acceptor_HandleRead e p junk new_connection a w = Inr w'"
  obtains (only_kernel) "servers w' = servers w"
  | (handed) k s f peer where "new_connection s f peer (w\<lparr>kern := k\<rparr>) = Inr w'"
proof -
  obtain r peer w1 where acc: "Accept e (new_InetAddress p junk 0 ''127.0.0.1'') (ac_socket (acceptors w a)) w = (r, peer, w1)"
    by (metis prod_cases3)
  then obtain k where "w1 = w\<lparr>kern := k\<rparr>" by (auto simp: Accept_def split: prod.splits sysres.splits)
  then show ?thesis
    using assms acc that kept_servers [OF kept_fwd_kept [OF kept_fwd_basic(3)]]
    by (auto simp: Acceptor_HandleRead_def Let_def split: sysres.splits option.splits if_splits)
qed

lemma run_functor_on_servers:
  assumes "run_functor e me f w = Inr w'"
  obtains (same) "servers w' = servers w"
  | (removed) s c where "RemoveConnectionInLoop e me s c w = Inr w'"
proof (cases f)
  case (FConnectEstablished c)
  then show ?thesis using assms same by (auto simp: run_functor_def dest!: kept_servers [OF kept_ConnectEstablished])
next
  case (FRemoveConnectionInLoop s c)
  then show ?thesis using assms removed by (simp add: run_functor_def)
next
  case (FListen a)
  then show ?thesis using assms same
    by (auto simp: run_functor_def Listen_def Let_def dest!: kept_servers [OF kept_fwd_kept [OF kept_fwd_interest(1)]])
next
  case (FUser n)
  then show ?thesis using assms same
    by (auto simp: run_functor_def split: prod.splits dest!: kept_servers [OF kept_fwd_kept [OF kept_fwd_performs]])
qed (use assms same in \<open>auto simp: run_functor_def dest!: kept_servers [OF kept_fwd_kept [OF kept_fwd_SendInLoop]]
    kept_servers [OF kept_fwd_kept [OF kept_fwd_send_buffer_body]] kept_servers [OF kept_fwd_kept [OF kept_fwd_ShutdownInLoop]]
    kept_servers [OF kept_fwd_kept [OF kept_fwd_callbacks(3)]] kept_servers [OF kept_fwd_kept [OF kept_fwd_callbacks(4)]]
    kept_servers [OF kept_fwd_kept [OF kept_fwd_ConnectDestroyed]]\<close>)

lemma program_step_on_servers:
  assumes "program_step e p junk w w'"
  obtains (same) "servers w' = servers w"
  | (added) me s f peer w1 where "servers w1 = servers w" and "world_kept UNIV w w1" and "NewConnection e me s f peer w1 = Inr w'"
  | (removed) me s c w1 where "servers w1 = servers w" and "world_kept UNIV w w1" and "RemoveConnectionInLoop e me s c w1 = Inr w'"
proof -
  note kept = kept_servers [OF kept_fwd_kept]
  have remove: thesis if "servers w1 = servers w" "world_kept UNIV w w1" "RemoveConnection e me s c w1 = Inr w'" for me s c w1
    using that(3) kept [OF kept_fwd_basic(1)] same removed [OF that(1,2)] that(1)
    by (auto simp: RemoveConnection_def RunInLoop_def split: if_splits)
  from assms show thesis
  proof cases
    case (application_calls me buf a)
    then show ?thesis using same kept [OF kept_fwd_perform] by blast
  next
    case (functor_runs me f)
    from functor_runs show ?thesis
      by (elim run_functor_on_servers) (use same removed [OF refl world_kept_same] in \<open>auto simp: loops_kept_same\<close>)
  next
    case (callback_runs me cb t)
    show ?thesis
    proof (cases cb)
      case (ConnHandleRead c)
      then have "Conn_HandleRead e me (RemoveConnection e me) t c w = Inr w'" using callback_runs by (simp add: run_callback_def)
      then show ?thesis
        by (rule Conn_HandleRead_kept_or_closed) (use same remove kept world_kept_if_fwd in blast)+
    next
      case (ConnHandleClose c)
      then have "HandleClose e me (RemoveConnection e me) c w = Inr w'" using callback_runs by (simp add: run_callback_def)
      then show ?thesis by (rule HandleClose_ends_in_close) (use remove kept world_kept_if_fwd in blast)
    next
      case (AcceptorHandleRead a)
      then have "Acceptor_HandleRead e p junk (NewConnection e me) a w = Inr w'" using callback_runs by (simp add: run_callback_def)
      then show ?thesis
      proof (cases rule: Acceptor_HandleRead_cases)
        case (handed k s f peer)
        show ?thesis by (rule added [OF _ _ handed]) (simp_all add: world_kept_same loops_kept_same)
      qed (rule same)
    qed (use callback_runs same in \<open>auto simp: run_callback_def dest: kept [OF kept_fwd_HandleWrite]
        intro: kept [OF kept_fwd_HandleError]\<close>)
  qed
qed

lemma new_TcpConnection_result:
  assumes "new_TcpConnection e (Some l) c ch name f la pa w = Inr w'"
  shows "servers w' = servers w" and "next_ptr w' = next_ptr w"
    and "tc_name (conns w' c) = name" and "tc_loop (conns w' c) = l" and "tc_socket (conns w' c) = f"
    and "tc_peer_addr (conns w' c) = pa" and "tc_state (conns w' c) = kConnecting"
  using assms
  by (auto simp: new_TcpConnection_def CheckLoopNotNull_def Let_def andThen_eq_Inr SetKeepAlive_def split: prod.splits)

text \<open>The connection object after the callbacks have been set, and the server's new state.\<close>

lemma NewConnection_result:
  assumes "NewConnection e me s connfd peer w = Inr w'" and "sv = servers w s"
  obtains (result) sub_loop pool where "GetNextLoop (sv_pool sv) = Inr (sub_loop, pool)" and "sv_next_conn_id sv \<noteq> 2 ^ 31 - 1"
    and "servers w' = (servers w)(s := sv\<lparr>sv_pool := pool, sv_next_conn_id := sv_next_conn_id sv + 1,
           sv_connections := (sv_connections sv)(conn_name sv (sv_next_conn_id sv) \<mapsto> next_ptr w)\<rparr>)"
    and "next_ptr w' = next_ptr w + 2" and "tc_name (conns w' (next_ptr w)) = conn_name sv (sv_next_conn_id sv)"
    and "tc_loop (conns w' (next_ptr w)) = sub_loop" and "tc_socket (conns w' (next_ptr w)) = connfd"
    and "tc_peer_addr (conns w' (next_ptr w)) = peer" and "tc_close_callback (conns w' (next_ptr w)) = Some (s, next_ptr w)"
proof -
  have id: "sv_next_conn_id sv \<noteq> 2 ^ 31 - 1"
    using assms unfolding NewConnection_def by (auto simp: andThen_eq_Inr split: if_splits)
  from assms(1) show ?thesis
  proof (cases rule: NewConnection_steps)
    case (1 sub_loop pool la w1 w2 w3)
    let ?c = "next_ptr w"
    note w2 = new_TcpConnection_result [OF 1(3)]
    have sv1: "servers w1 = (servers w)(s := sv\<lparr>sv_pool := pool, sv_next_conn_id := sv_next_conn_id sv + 1\<rparr>)"
      using 1(2) assms(2) by (simp add: fun_eq_iff)
    have sv3: "servers w3 = (servers w)(s := sv\<lparr>sv_pool := pool, sv_next_conn_id := sv_next_conn_id sv + 1,
           sv_connections := (sv_connections sv)(conn_name sv (sv_next_conn_id sv) \<mapsto> ?c)\<rparr>)"
      using 1(4) w2(1) sv1 assms(2) more_server(1) [of w3] by (simp add: fun_eq_iff conn_name_def)
    have c3: "tc_name (conns w3 ?c) = conn_name sv (sv_next_conn_id sv)" "tc_loop (conns w3 ?c) = sub_loop"
      "tc_socket (conns w3 ?c) = connfd" "tc_peer_addr (conns w3 ?c) = peer" "tc_close_callback (conns w3 ?c) = Some (s, ?c)"
      "next_ptr w3 = ?c + 2"
      using w2 1(4) assms(2)
      by (simp_all add: conn_name_def Conn_SetCloseCallback_def SetWriteCompleteCallback_def SetMessageCallback_def SetConnectionCallback_def)
    have "kept w3 w'"
      using 1(5) kept_fwd_kept [OF kept_fwd_basic(1)] by (auto simp: RunInLoop_def split: if_splits dest: kept_ConnectEstablished)
    then have "same_conn (conns w3 ?c) (conns w' ?c)" "servers w' = servers w3" "next_ptr w' = next_ptr w3"
      using more_server [of w' w3] by (simp_all add: kept_def)
    with sv3 c3 id 1(1) assms(2) show ?thesis
      by (intro that [of sub_loop pool]) (simp_all add: same_connD)
  qed
qed

lemma conn_name_cong [simp]:
  "conn_name (sv\<lparr>sv_pool := pool\<rparr>) i = conn_name sv i" "conn_name (sv\<lparr>sv_next_conn_id := n\<rparr>) i = conn_name sv i"
  "conn_name (sv\<lparr>sv_connections := m\<rparr>) i = conn_name sv i"
  by (simp_all add: conn_name_def conn_suffix_def)

lemma GetNextLoop_pool_ok: "pool_ok p \<Longrightarrow> GetNextLoop p = Inr (l, p') \<Longrightarrow> pool_ok p' \<and> l \<in> set (GetAllLoops p)"
  using GetNextLoop_step [of p "length (GetAllLoops p)"]
  by (auto simp: pool_ok_def GetAllLoops_def split: if_splits)

lemma server_ok_NewConnection:
  assumes ok: "server_ok s w" and new: "NewConnection e me s' connfd peer w = Inr w'"
  shows "server_ok s w'"
  using new refl [of "servers w s'"]
proof (cases rule: NewConnection_result)
  case (result sub_loop pool)
  have kept: "world_kept UNIV w w'" by (rule world_kept_NewConnection [OF new])
  show ?thesis
  proof (cases "s' = s")
    case False
    then show ?thesis using result(3) by (intro server_ok_keep [OF ok _ kept]) simp
  next
    case True
    let ?sv = "servers w s"
    have old: "c < next_ptr w' \<and> tc_name (conns w' c) = name \<and> (\<exists>i \<ge> 1. i < sv_next_conn_id ?sv \<and> name = conn_name ?sv i)"
      if "sv_connections ?sv name = Some c" for name c
      using server_okD(5,6) [OF ok that] kept unfolding world_kept_def by (fastforce dest: same_connD(1))
    let ?sv' = "?sv\<lparr>sv_pool := pool, sv_next_conn_id := sv_next_conn_id ?sv + 1,
        sv_connections := (sv_connections ?sv)(conn_name ?sv (sv_next_conn_id ?sv) \<mapsto> next_ptr w)\<rparr>"
    have sv': "servers w' s = ?sv'" using result(3) True by simp
    have "pool_ok pool" using GetNextLoop_pool_ok [OF server_okD(1) [OF ok]] result(1) True by blast
    moreover have "c < next_ptr w' \<and> tc_name (conns w' c) = name \<and> (\<exists>i \<ge> 1. i < sv_next_conn_id ?sv + 1 \<and> name = conn_name ?sv i)"
      if "sv_connections ?sv' name = Some c" for name c
    proof (cases "name = conn_name ?sv (sv_next_conn_id ?sv)")
      case new_name: True
      then have "c = next_ptr w" using that by simp
      then show ?thesis using result(4,5) True new_name server_okD(3) [OF ok] by auto
    next
      case False
      then have "sv_connections ?sv name = Some c" using that by simp
      from old [OF this] show ?thesis by force
    qed
    ultimately show ?thesis
      using server_okD(1-4) [OF ok] result(2) True unfolding server_ok_def sv' Let_def by (simp split: if_splits)
  qed
qed

lemma server_ok_RemoveConnectionInLoop:
  assumes "server_ok s w" and "RemoveConnectionInLoop e me s' c w = Inr w'"
  shows "server_ok s w'"
proof -
  let ?w1 = "on_server (\<lambda>sv. sv\<lparr>sv_connections := (sv_connections sv)(tc_name (conns w c) := None)\<rparr>) s' w"
  have w': "w' = QueueInLoop e me (tc_loop (conns w c)) (FConnectDestroyed c) ?w1"
    using assms(2) by (simp add: RemoveConnectionInLoop_def)
  have ok: "server_ok s ?w1" using assms(1) by (auto simp: server_ok_def Let_def)
  have sv: "servers w' = servers ?w1" unfolding w' by (rule kept_servers [OF kept_fwd_kept [OF kept_fwd_basic(1)]])
  have "world_kept UNIV ?w1 w'" unfolding w' by (rule world_kept_if_fwd [OF kept_fwd_basic(1)])
  with ok sv [THEN fun_cong] show ?thesis by (rule server_ok_keep)
qed

lemma server_ok_step:
  assumes "program_step e p junk w w'" and "server_ok s w"
  shows "server_ok s w'"
  using assms(1)
proof (cases rule: program_step_on_servers)
  case same
  then show ?thesis using server_ok_keep [OF assms(2)] world_kept_program_step [OF assms(1)] by simp
next
  case (added me s' f peer w1)
  then show ?thesis using server_ok_NewConnection server_ok_keep [OF assms(2)] by metis
next
  case (removed me s' c w1)
  then show ?thesis using server_ok_RemoveConnectionInLoop server_ok_keep [OF assms(2)] by metis
qed

section \<open>Properties\<close>

text \<open>A server at pointer 2 in loop 0 of thread 100, with one pool loop 30 that belongs to thread 101.\<close>

definition sample_server :: tcp_server where
  "sample_server = \<lparr>sv_loop = 0, sv_ip_port = ''127.0.0.1:9012'', sv_name = ''echo'', sv_acceptor = 3,
     sv_pool = (new_EventLoopThreadPool 0 ''echo'')\<lparr>tp_started := True, tp_num_threads := 1, tp_loops := [30]\<rparr>,
     sv_connection_callback = True, sv_message_callback = True, sv_write_complete_callback = False,
     sv_thread_init_callback = False, sv_num_threads = 1, sv_started = 1, sv_next_conn_id = 1, sv_connections = Map.empty\<rparr>"

definition sample_server_world :: "test_kernel server_world" where
  "sample_server_world =
     \<lparr>kern = test_kernel0, trace = [], chans = (\<lambda>c. new_Channel 0 (int c)),
      pollers = (\<lambda>_. \<lparr>po_channels = Map.empty, po_epoll_fd = 4, po_events_size = 16\<rparr>),
      loops = (\<lambda>l. sample_loop\<lparr>el_thread_id := (if l = 30 then 101 else 100)\<rparr>), loop_in_this_thread = (\<lambda>_. None),
      conns = (\<lambda>_. sample_conn\<lparr>tc_name := ''echo-127.0.0.1:9012#0''\<rparr>),
      acceptors = (\<lambda>_. \<lparr>ac_loop = 0, ac_socket = 3, ac_channel = 4, ac_listening = True, ac_new_connection_callback = Some 2\<rparr>),
      servers = (\<lambda>_. sample_server), next_ptr = 40\<rparr>"

lemma sample_server_world_ok: "server_ok 2 sample_server_world"
  by (simp add: server_ok_def sample_server_world_def sample_server_def pool_ok_def new_EventLoopThreadPool_def)

lemma NewConnection_returns:
  assumes "GetNextLoop (sv_pool (servers w s)) = Inr (l, pool)" and "sv_next_conn_id (servers w s) \<noteq> 2 ^ 31 - 1"
    and "\<not> IsInLoopThread me l w" and "c = next_ptr w"
  obtains w' where "NewConnection e me s connfd peer w = Inr w'" and "tc_state (conns w' c) = kConnecting"
    and "el_pending_functors (loops w' l) = el_pending_functors (loops w l) @ [FConnectEstablished c]"
proof -
  obtain b where b: "new_Buffer kInitialSize = Inr b"
    by (rule wf_new_Buffer [of kInitialSize]) (simp_all add: kInitialSize_def vector_max_size_def)
  let ?w0 = "on_server (\<lambda>sv. sv\<lparr>sv_pool := pool, sv_next_conn_id := sv_next_conn_id sv + 1\<rparr>) s w"
  obtain la w1 where la: "local_address e connfd ?w0 = (la, w1)" by fastforce
  have "loops w1 = loops w" "next_ptr w1 = next_ptr w"
    using local_address_sel(3) [of e connfd ?w0] local_address_server(2) [of e connfd ?w0] la by simp_all
  then show ?thesis
    using assms la b that
    by (simp add: NewConnection_def Let_def new_TcpConnection_def CheckLoopNotNull_def RunInLoop_def IsInLoopThread_def
        SetConnectionCallback_def SetMessageCallback_def SetWriteCompleteCallback_def Conn_SetCloseCallback_def)
qed



text \<open>The states a server goes through: construction, configuration, start, and then any steps of the program.\<close>

inductive server_reachable ::
  "'k env \<Rightarrow> inet \<Rightarrow> InetAddress \<Rightarrow> ptr \<Rightarrow> ('k, 'm) server_world_scheme \<Rightarrow> bool"
  for e :: "'k env" and p :: inet and junk :: InetAddress and s :: ptr where
  constructed: "new_TcpServer e p loop s a ch addr name option w = Inr w' \<Longrightarrow> server_reachable e p junk s w'"
| configured: "server_reachable e p junk s w \<Longrightarrow>
    f \<in> {Server_SetThreadNum n, SetThreadInitCallback b, Server_SetConnectionCallback b, Server_SetMessageCallback b,
         Server_SetWriteCompleteCallback b} \<Longrightarrow> server_reachable e p junk s (on_server f s w)"
| started: "server_reachable e p junk s w \<Longrightarrow> Server_Start e me news s w = Inr w' \<Longrightarrow> server_reachable e p junk s w'"
| ran: "server_reachable e p junk s w \<Longrightarrow> program_step e p junk w w' \<Longrightarrow> server_reachable e p junk s w'"

lemma server_ok_new:
  assumes "inet_ok p" and "new_TcpServer e p loop s a ch addr name option w = Inr w'"
  shows "server_ok s w'"
  using assms(2) length_ToIpPort [OF assms(1), of addr]
  by (auto simp: new_TcpServer_def andThen_eq_Inr Let_def server_ok_def new_EventLoopThreadPool_def pool_ok_def)

lemma server_ok_configured:
  assumes "server_ok s w" and "f \<in> {Server_SetThreadNum n, SetThreadInitCallback b, Server_SetConnectionCallback b,
      Server_SetMessageCallback b, Server_SetWriteCompleteCallback b}"
  shows "server_ok s (on_server f s w)"
proof -
  have "conn_name (f sv) i = conn_name sv i" for sv i
    using assms(2) by (auto simp: conn_name_def conn_suffix_def Server_SetThreadNum_def SetThreadInitCallback_def
        Server_SetConnectionCallback_def Server_SetMessageCallback_def Server_SetWriteCompleteCallback_def)
  moreover have "sv_connections (f sv) = sv_connections sv" "sv_next_conn_id (f sv) = sv_next_conn_id sv"
    "sv_ip_port (f sv) = sv_ip_port sv" "pool_ok (sv_pool (f sv)) = pool_ok (sv_pool sv)" for sv
    using assms(2) by (auto simp: Server_SetThreadNum_def SetThreadInitCallback_def Pool_SetThreadNum_def pool_ok_def
        Server_SetConnectionCallback_def Server_SetMessageCallback_def Server_SetWriteCompleteCallback_def)
  ultimately show ?thesis using assms(1) by (simp add: server_ok_def Let_def)
qed

text \<open>Starting the pool leaves everything above the loops as it is, but for application callbacks.\<close>

definition above_loops_kept :: "('k, 'm) tcp_world_scheme \<Rightarrow> ('k, 'm) tcp_world_scheme \<Rightarrow> bool" where
  "above_loops_kept w w' \<longleftrightarrow> tcp_world.more w' = tcp_world.more w \<and> (\<forall>c. same_conn (conns w c) (conns w' c))"

lemma above_loops_kept_trans: "above_loops_kept a b \<Longrightarrow> above_loops_kept b c \<Longrightarrow> above_loops_kept a c"
  unfolding above_loops_kept_def using same_conn_trans by metis

lemma above_loops_kept_if_fwd: "kept_fwd w w' \<Longrightarrow> above_loops_kept w w'"
  by (simp add: above_loops_kept_def kept_fwd_def kept_def)

lemma above_loops_kept_new_EventLoop:
  assumes "new_EventLoop e me l c w = Inr w'"
  shows "above_loops_kept w w'"
proof -
  from assms obtain k ch ps ls lt w1 where
    "EnableReading (Channel_Update e) c (w\<lparr>kern := k, chans := ch, pollers := ps, loops := ls, loop_in_this_thread := lt\<rparr>) = Inr w1"
    and w': "w' = on_chan (SetReadCallback (LoopHandleRead l)) c w1"
    by (auto simp: new_EventLoop_def Let_def andThen_eq_Inr split: prod.splits if_splits)
  then show ?thesis
    using above_loops_kept_if_fwd [OF kept_fwd_interest(1)] by (fastforce simp: above_loops_kept_def)
qed

lemma above_loops_kept_start_threads:
  assumes "start_threads e cb i news pl w = Inr (pl', w')"
  shows "above_loops_kept w w'"
  using assms
proof (induction news arbitrary: i pl w)
  case (Cons new news)
  obtain t l c where new: "new = (t, l, c)" by (metis prod_cases3)
  from Cons.prems new obtain w1 w2 where w1: "new_EventLoop e t l c w = Inr w1"
    and w2: "(if cb then thread_init_callback e t l w1 else Inr w1) = Inr w2"
    and rest: "\<exists>i pl. start_threads e cb i news pl w2 = Inr (pl', w')"
    by (auto simp: StartLoop_def andThen_eq_Inr)
  have "kept_fwd w1 w2"
    using w2 by (auto simp: thread_init_callback_def split: if_splits prod.splits dest: kept_fwd_performs)
  then show ?case
    using above_loops_kept_new_EventLoop [OF w1] Cons.IH rest above_loops_kept_if_fwd above_loops_kept_trans by meson
qed (simp add: above_loops_kept_def)

lemma Pool_Start_keeps:
  assumes "Pool_Start e cb me news pl w = Inr (pl', w')"
  shows "above_loops_kept w w'" and "pool_ok pl \<Longrightarrow> pool_ok pl'"
proof -
  let ?pl = "pl\<lparr>tp_started := True\<rparr>"
  from assms obtain w1 where run: "start_threads e cb 0 (take (nat (tp_num_threads pl)) news) ?pl w = Inr (pl', w1)"
    and w': "w' = w1 \<or> thread_init_callback e me (tp_base_loop pl') w1 = Inr w'"
    by (auto simp: Pool_Start_def andThen_eq_Inr split: if_splits)
  have "above_loops_kept w1 w'"
    using w' above_loops_kept_if_fwd [OF kept_fwd_performs] above_loops_kept_if_fwd [OF kept_fwd_refl]
    by (auto simp: thread_init_callback_def split: prod.splits)
  then show "above_loops_kept w w'" using above_loops_kept_start_threads [OF run] above_loops_kept_trans by blast
  show "pool_ok pl'" if "pool_ok pl"
    using that unfolding start_threads_pool [OF run] by (auto simp: pool_ok_def split: if_splits)
qed

lemma server_ok_cong:
  assumes "server_ok s w" and "servers w' s = sv" and "sv = (servers w s)\<lparr>sv_pool := sv_pool sv, sv_started := sv_started sv\<rparr>"
    and "pool_ok (sv_pool sv)" and "next_ptr w' = next_ptr w" and "\<And>c. tc_name (conns w' c) = tc_name (conns w c)"
  shows "server_ok s w'"
proof -
  have "conn_name sv i = conn_name (servers w s) i" for i
    by (subst assms(3)) (simp add: conn_name_def conn_suffix_def)
  moreover have "sv_connections sv = sv_connections (servers w s)" "sv_next_conn_id sv = sv_next_conn_id (servers w s)"
    "sv_ip_port sv = sv_ip_port (servers w s)"
    by (subst assms(3), simp)+
  ultimately show ?thesis using assms(1,2,4-) by (simp add: server_ok_def Let_def)
qed

lemma server_ok_Start:
  assumes ok: "server_ok s w" and start: "Server_Start e me news s w = Inr w'"
  shows "server_ok s w'"
proof -
  let ?w1 = "on_server (\<lambda>sv. sv\<lparr>sv_started := sv_started sv + 1\<rparr>) s w"
  let ?sv = "servers ?w1 s"
  have ok1: "server_ok s ?w1"
    by (rule server_ok_cong [OF ok refl]) (use server_okD(1) [OF ok] in simp_all)
  show ?thesis
  proof (cases "sv_started (servers w s) = 0")
    case False
    then show ?thesis using start ok1 by (simp add: Server_Start_def Let_def)
  next
    case True
    with start obtain pool w2 where
      pool: "Pool_Start e (sv_thread_init_callback ?sv) me news (sv_pool ?sv) ?w1 = Inr (pool, w2)"
      and run: "RunInLoop e me (\<lambda>_. Listen e (sv_acceptor ?sv)) (sv_loop ?sv) (FListen (sv_acceptor ?sv))
        (on_server (\<lambda>sv. sv\<lparr>sv_pool := pool\<rparr>) s w2) = Inr w'"
      by (auto simp: Server_Start_def Let_def andThen_eq_Inr)
    let ?w3 = "on_server (\<lambda>sv. sv\<lparr>sv_pool := pool\<rparr>) s w2"
    have above: "tcp_world.more w2 = tcp_world.more ?w1" "\<And>c. same_conn (conns ?w1 c) (conns w2 c)"
      using Pool_Start_keeps(1) [OF pool] by (simp_all only: above_loops_kept_def)
    have "server_ok s ?w3"
      by (rule server_ok_cong [OF ok1 refl])
         (use more_server [OF above(1)] same_connD(1) [OF above(2)] Pool_Start_keeps(2) [OF pool] server_okD(1) [OF ok1] in simp_all)
    moreover have "world_kept UNIV ?w3 w'"
      using run by (rule world_kept_RunInLoop) (rule world_kept_Listen)
    moreover have "servers w' = servers ?w3"
      using run kept_servers [OF kept_fwd_kept [OF kept_fwd_basic(1)]]
      by (auto simp: RunInLoop_def Listen_def Let_def split: if_splits
          dest!: kept_servers [OF kept_fwd_kept [OF kept_fwd_interest(1)]])
    ultimately show ?thesis using server_ok_keep [of s ?w3 w'] by metis
  qed
qed

text \<open>
  C9: the invariant of the server. In every state reachable by constructing the server,
  configuring it, starting it and then running any closures and application calls in any
  order, the pool is ready for round robin and every entry of the connection map is an
  existing connection stored under its own name with an id given out earlier; in particular
  the next connection gets a name that is not in use.
\<close>

theorem server_invariant:
  assumes "inet_ok p" and "server_reachable e p junk s w"
  shows "server_ok s w \<and> sv_connections (servers w s) (conn_name (servers w s) (sv_next_conn_id (servers w s))) = None"
proof -
  from assms(2) have "server_ok s w"
    by induction (auto intro: server_ok_new [OF assms(1)] server_ok_configured server_ok_Start server_ok_step simp del: insert_iff)
  then show ?thesis using server_ok_fresh_name by blast
qed

theorem server_invariant_witness:
  "\<exists>w. server_reachable test_env dotted_inet \<lparr>sin_family = 0, sin_port = 0, sin_addr = 0\<rparr> 2 (w :: test_kernel server_world)
     \<and> server_ok 2 w"
proof -
  obtain w where "new_TcpServer test_env dotted_inet (Some 0) 2 3 4 \<lparr>sin_family = 2, sin_port = 80, sin_addr = 16777343\<rparr>
      ''echo'' kNoReusePort sample_server_world = Inr w"
    by (auto simp: new_TcpServer_def Server_CheckLoopNotNull_def new_Acceptor_def CreateNonblocking_def test_env_def Let_def)
  then have "server_reachable test_env dotted_inet \<lparr>sin_family = 0, sin_port = 0, sin_addr = 0\<rparr> 2 w" by (rule constructed)
  with server_invariant [OF dotted_inet_ok this] show ?thesis by blast
qed

text \<open>
  C20: a connection is never destroyed. Its close callback captures a \<open>shared_ptr\<close> to the
  connection itself, so from the moment \<open>NewConnection\<close> returns, whatever closures run and
  whatever the application calls, the connection stays held, also after it has been removed
  from the server and its \<open>ConnectDestroyed\<close> has run: its destructor, which closes the
  descriptor, never runs.
\<close>

theorem connection_never_destroyed:
  assumes "NewConnection e me s connfd peer w = Inr w1" and "(program_step e p junk)\<^sup>*\<^sup>* w1 w2"
  shows "held (next_ptr w) w2"
  using assms(1) refl [of "servers w s"]
proof (cases rule: NewConnection_result)
  case (result sub_loop pool)
  have "world_kept UNIV w1 w2" by (rule world_kept_program_steps [OF assms(2)])
  then have "same_conn (conns w1 (next_ptr w)) (conns w2 (next_ptr w))" using result(4) by (simp add: world_kept_def)
  then have "tc_close_callback (conns w2 (next_ptr w)) = Some (s, next_ptr w)" using result(9) by (simp add: same_connD(2))
  then show ?thesis unfolding held_def by blast
qed

theorem connection_never_destroyed_witness:
  "\<exists>w1 w2. NewConnection test_env 100 2 7 \<lparr>sin_family = 2, sin_port = 80, sin_addr = 16777343\<rparr> sample_server_world = Inr w1
     \<and> RemoveConnectionInLoop test_env 100 2 40 w1 = Inr w2 \<and> held 40 w2"
proof -
  have "GetNextLoop (sv_pool (servers sample_server_world 2)) = Inr (30, sv_pool sample_server)"
    "sv_next_conn_id (servers sample_server_world 2) \<noteq> 2 ^ 31 - 1" "\<not> IsInLoopThread 100 30 sample_server_world"
    "next_ptr sample_server_world = 40"
    by (simp_all add: sample_server_world_def sample_server_def GetNextLoop_def new_EventLoopThreadPool_def IsInLoopThread_def Let_def)
  then obtain w1 where w1: "NewConnection test_env 100 2 7 \<lparr>sin_family = 2, sin_port = 80, sin_addr = 16777343\<rparr> sample_server_world = Inr w1"
    by (metis NewConnection_returns)
  obtain w2 where w2: "RemoveConnectionInLoop test_env 100 2 40 w1 = Inr w2" by (simp add: RemoveConnectionInLoop_def)
  then have "program_step test_env dotted_inet \<lparr>sin_family = 0, sin_port = 0, sin_addr = 0\<rparr> w1 w2"
    using functor_runs [of test_env 100 "FRemoveConnectionInLoop 2 40"] by (simp add: run_functor_def)
  with connection_never_destroyed [OF w1 r_into_rtranclp] w1 w2 show ?thesis
    by (auto simp: sample_server_world_def)
qed

text \<open>
  The state of a connection only advances (connecting, connected, disconnecting,
  disconnected), and its identity (name, loop, descriptor, peer) never changes, whatever channel
  callback runs, whatever the application calls, and whatever functor runs, provided
  \<open>ConnectEstablished\<close> runs on a connection that is still connecting.
\<close>

theorem connection_state_only_advances:
  assumes "c < next_ptr w"
    and "run_callback e p junk me cb t w = Inr w' \<or> perform e me buf a w = Inr w'
      \<or> (run_functor e me f w = Inr w' \<and> (f = FConnectEstablished c \<longrightarrow> tc_state (conns w c) = kConnecting))"
  shows "tc_state (conns w c) \<le> tc_state (conns w' c) \<and> tc_name (conns w' c) = tc_name (conns w c)
    \<and> tc_loop (conns w' c) = tc_loop (conns w c) \<and> tc_socket (conns w' c) = tc_socket (conns w c)
    \<and> tc_peer_addr (conns w' c) = tc_peer_addr (conns w c)"
proof -
  have "\<exists>X. world_kept X w w' \<and> (c \<in> X \<longrightarrow> tc_state (conns w c) = kConnecting)"
    using assms(2) world_kept_run_callback [of e p junk me cb t w w' "{}"] world_kept_run_functor [of e me f w w']
      world_kept_if_fwd [OF kept_fwd_perform, of e me buf a w w' "{}"] by auto
  then obtain X where X: "world_kept X w w'" "c \<in> X \<Longrightarrow> tc_state (conns w c) = kConnecting" by blast
  have "same_conn (conns w c) (conns w' c)" using X(1) assms(1) by (simp add: world_kept_def)
  moreover have "tc_state (conns w c) \<le> tc_state (conns w' c)"
    using X assms(1) by (cases "c \<in> X") (simp_all add: world_kept_def less_eq_StateE_def)
  ultimately show ?thesis by (simp add: same_connD)
qed

theorem connection_state_only_advances_witness:
  "\<exists>w'. perform test_env 100 None (DoShutdown 1) sample_server_world = Inr w'
     \<and> kConnected \<le> tc_state (conns w' 1) \<and> tc_socket (conns w' 1) = 7"
proof -
  have sel: "tc_state (conns sample_server_world c) = kConnected" "tc_socket (conns sample_server_world c) = 7"
    "next_ptr sample_server_world = 40" "el_thread_id (loops sample_server_world (tc_loop (conns sample_server_world c))) = 100" for c
    by (simp_all add: sample_server_world_def sample_conn_def)
  obtain w' where w': "perform test_env 100 None (DoShutdown 1) sample_server_world = Inr w'"
    using sel(1,4) by (simp add: perform_def Shutdown_def RunInLoop_def ShutdownInLoop_def IsInLoopThread_def)
  with connection_state_only_advances [of 1 sample_server_world test_env _ _ 100 _ _ w' None "DoShutdown 1"] sel
  show ?thesis by auto
qed

text \<open>
  C16: closing removes. When the close handler of a connection returns, the connection is
  disconnected; in the server's own thread its entry, and no other, is gone from the map
  and \<open>ConnectDestroyed\<close> is the last thing queued in the connection's loop; in any other
  thread the map is untouched and the removal is the last thing queued in the server's loop.
\<close>

theorem closed_connection_is_removed:
  assumes "HandleClose e me (RemoveConnection e me) c w = Inr w'" and "tc_close_callback (conns w c) = Some (s, c)"
    and "main_loop = sv_loop (servers w s)"
  shows "tc_state (conns w' c) = kDisconnected \<and>
    (if IsInLoopThread me main_loop w
     then sv_connections (servers w' s) = (sv_connections (servers w s))(tc_name (conns w c) := None)
       \<and> last (el_pending_functors (loops w' (tc_loop (conns w c)))) = FConnectDestroyed c
     else sv_connections (servers w' s) = sv_connections (servers w s)
       \<and> last (el_pending_functors (loops w' main_loop)) = FRemoveConnectionInLoop s c)"
proof -
  from assms(1) obtain w2 where w2: "kept_fwd w w2" "RemoveConnection e me s c w2 = Inr w'" "tc_state (conns w2 c) = kDisconnected"
    by (rule HandleClose_ends_in_close) (use assms(2) in simp)
  have sv: "servers w2 = servers w" by (rule kept_servers [OF kept_fwd_kept [OF w2(1)]])
  have same: "same_conn (conns w c) (conns w2 c)" using w2(1) by (simp add: kept_fwd_def kept_def)
  have thread: "IsInLoopThread me main_loop w2 = IsInLoopThread me main_loop w" by (rule IsInLoopThread_kept [OF w2(1)])
  have queue: "servers (QueueInLoop e me l f v) = servers v" for l f and v :: "('a, 'b) server_world_scheme"
    by (rule kept_servers [OF kept_fwd_kept [OF kept_fwd_basic(1)]])
  show ?thesis
    using w2(2,3) sv thread assms(3) same_connD(1,3) [OF same]
    by (auto simp: RemoveConnection_def RunInLoop_def RemoveConnectionInLoop_def queue)
qed

theorem closed_connection_is_removed_witness:
  "\<exists>w'. HandleClose test_env 100 (RemoveConnection test_env 100) 1 sample_server_world = Inr w'
     \<and> tc_state (conns w' 1) = kDisconnected \<and> last (el_pending_functors (loops w' 0)) = FConnectDestroyed 1"
proof -
  let ?w0 = "on_conn (SetState kDisconnected) 1 sample_server_world"
  have sel: "tc_close_callback (conns sample_server_world c) = Some (2, 1)" "tc_loop (conns sample_server_world c) = 0"
    "IsInLoopThread 100 (sv_loop (servers sample_server_world s)) sample_server_world"
    "tc_connection_callback (conns sample_server_world c)" for c s
    by (simp_all add: sample_server_world_def sample_conn_def sample_server_def IsInLoopThread_def)
  have host: "host_ok test_env tk_ints 1 ?w0"
    using test_env_ok test_env_io_keeps
    by (simp add: host_ok_def epoll_inv_def poller_inv_def index_ok_def conn_chan_def SetState_def
        sample_server_world_def sample_conn_def new_Channel_def kNew_def test_kernel0_def)
  obtain w1 where w1: "DisableAll (Channel_Update test_env) (tc_channel (conns ?w0 1)) ?w0 = Inr w1" "conns w1 = conns ?w0"
    using interest_set [OF host, of 0] host by (auto simp: channel_interest host_ok_def conn_chan_def)
  have cb: "connection_callback test_env 100 1 w1 = Inr (w1\<lparr>trace := trace w1 @ [ConnectionCb 1 False]\<rparr>)"
    using w1(2) sel(4) by (simp add: connection_callback_def test_env_def IsConnected_def SetState_def)
  have "\<exists>w'. HandleClose test_env 100 (RemoveConnection test_env 100) 1 sample_server_world = Inr w'"
    using w1 cb sel(1) by (simp add: HandleClose_def SetState_def RemoveConnection_def RunInLoop_def RemoveConnectionInLoop_def)
  then show ?thesis using closed_connection_is_removed [OF _ sel(1) refl, of test_env 100] sel by auto
qed

text \<open>
  C24: \<open>Quit\<close> from a queued functor ends the loop. If a functor whose application code calls
  \<open>Quit\<close> on the loop is pending when \<open>Loop\<close> starts, and nothing in the first iteration faults,
  then \<open>Loop\<close> returns after that iteration, whatever else was queued or became ready.
\<close>

theorem Loop_ends_after_queued_Quit:
  assumes "FUser n \<in> set (el_pending_functors (loops w l))" and "\<And>k. DoQuit l \<in> set (fst (on_functor e n k))"
    and "loop_iteration e (run_callback e p junk me) lock (run_functor e me) l
           (on_loop (\<lambda>lp. lp\<lparr>el_looping := True, el_quit := False\<rparr>) l w) = Inr w'"
  shows "Loop (Suc m) e (run_callback e p junk me) lock (run_functor e me) l w =
           Some (Inr (on_loop (\<lambda>lp. lp\<lparr>el_looping := False\<rparr>) l w'))"
proof (rule lib.Loop_ends [OF assms(3)])
  have perform_quits: "el_quit (loops v l)" if run: "foldE (perform e me None) acts u = Inr v" and quits: "DoQuit l \<in> set acts" for acts u v
  proof -
    obtain xs ys where acts: "acts = xs @ DoQuit l # ys" using quits by (meson split_list)
    from run obtain v1 where "foldE (perform e me None) ys (Quit e me l v1) = Inr v"
      by (auto simp: acts foldE_append andThen_eq_Inr perform_def)
    then have "kept_fwd (Quit e me l v1) v" by (rule kept_fwd_foldE) (rule kept_fwd_perform)
    then have "loop_kept (loops (Quit e me l v1) l) (loops v l)"
      by (simp only: kept_fwd_def kept_def loops_kept_def)
    then show ?thesis by (rule loop_keptD(1)) simp
  qed
  have "el_quit (loops v l)" if "run_functor e me (FUser n) u = Inr v" for u v
    using that assms(2) [of "kern u"] by (auto simp: run_functor_def split: prod.splits dest: perform_quits)
  then show "el_quit (loops w' l)"
    using assms(1) by (intro lib.quit_functor_ends_iteration [OF assms(3), of "FUser n"]) simp_all
qed

text \<open>An application whose functors all quit loop 0, and the sample world with one of them queued there.\<close>

definition quit_env :: "test_kernel env" where
  "quit_env = test_env\<lparr>on_functor := (\<lambda>n k. ([DoQuit 0], k))\<rparr>"

definition quit_world :: "test_kernel server_world" where
  "quit_world = on_loop (\<lambda>lp. lp\<lparr>el_pending_functors := [FUser 3]\<rparr>) 0 sample_server_world"

theorem Loop_ends_after_queued_Quit_witness:
  "\<exists>w'. Loop 1 quit_env (run_callback quit_env dotted_inet \<lparr>sin_family = 0, sin_port = 0, sin_addr = 0\<rparr> 100) (\<lambda>_ _. True)
      (run_functor quit_env 100) 0 quit_world = Some (Inr w')"
proof -
  have "\<exists>w'. loop_iteration quit_env (run_callback quit_env dotted_inet \<lparr>sin_family = 0, sin_port = 0, sin_addr = 0\<rparr> 100)
      (\<lambda>_ _. True) (run_functor quit_env 100) 0
      (on_loop (\<lambda>lp. lp\<lparr>el_looping := True, el_quit := False\<rparr>) 0 quit_world) = Inr w'"
    by (simp add: loop_iteration_def Let_def Poll_def quit_env_def test_env_def quit_world_def sample_server_world_def
        test_kernel0_def DoPendingFunctors_def run_functor_def perform_def on_loop_def)
  moreover have "FUser 3 \<in> set (el_pending_functors (loops quit_world 0))" "DoQuit 0 \<in> set (fst (on_functor quit_env 3 k))" for k
    by (simp_all add: quit_world_def quit_env_def)
  ultimately show ?thesis
    using Loop_ends_after_queued_Quit [of 3 quit_world 0 quit_env dotted_inet _ 100 "\<lambda>_ _. True" _ 0] by fastforce
qed

end
