(* ===== verification/Connection_Life.thy ===== *)
theory Connection_Life
  imports Server_Lifecycle
begin

text \<open>
  The history of application callbacks of a connection, and the operations that leave it alone: sending,
  draining, half-closing, queueing (src/tcp_connection.cpp, src/eventloop.cpp) call no application callback of
  any connection, change no callback slot, and queue only follow-ups for connections that have been established.
\<close>

section \<open>The life of a connection\<close>

text \<open>The application callbacks of connection \<open>c\<close> in a history: up, messages, down.\<close>

definition history :: "ptr \<Rightarrow> obs list \<Rightarrow> obs list" where
  "history c tr = filter (\<lambda>x. case x of ConnectionCb d up \<Rightarrow> d = c | MessageCb d bs \<Rightarrow> d = c | _ \<Rightarrow> False) tr"

definition active :: "StateE \<Rightarrow> bool" where
  "active st \<longleftrightarrow> st = kConnected \<or> st = kDisconnecting"

text \<open>What dispatch reads of a channel, and a channel whose four callbacks are those of connection \<open>c\<close>.\<close>

definition cbs :: "callback channel \<Rightarrow> callback option \<times> callback option \<times> callback option \<times> callback option" where
  "cbs ch = (ch_read_callback ch, ch_write_callback ch, ch_close_callback ch, ch_error_callback ch)"

definition disp :: "callback channel \<Rightarrow> bits32 \<times> callback option \<times> callback option \<times> callback option \<times> callback option" where
  "disp ch = (ch_revents ch, cbs ch)"

definition wired :: "ptr \<Rightarrow> callback channel \<Rightarrow> bool" where
  "wired c ch \<longleftrightarrow> ch_read_callback ch = Some (ConnHandleRead c) \<and> ch_write_callback ch = Some (ConnHandleWrite c)
     \<and> ch_close_callback ch = Some (ConnHandleClose c) \<and> ch_error_callback ch = Some (ConnHandleError c)"

text \<open>A connection the server has created.\<close>

definition live :: "ptr \<Rightarrow> ('k, 'm) server_world_scheme \<Rightarrow> bool" where
  "live c w \<longleftrightarrow> c < next_ptr w \<and> tc_channel (conns w c) < next_ptr w \<and> wired c (conn_chan w c)"

text \<open>The functors that operations on an established connection queue.\<close>

definition follow_up :: "('k, 'm) server_world_scheme \<Rightarrow> Functor \<Rightarrow> bool" where
  "follow_up w f \<longleftrightarrow> (case f of
      FSendInLoop c msg \<Rightarrow> live c w \<and> tc_state (conns w c) \<noteq> kConnecting
    | FSendBuffer c d \<Rightarrow> live c w \<and> tc_state (conns w c) \<noteq> kConnecting
    | FShutdownInLoop c \<Rightarrow> live c w \<and> tc_state (conns w c) \<noteq> kConnecting
    | FWriteComplete c \<Rightarrow> live c w \<and> tc_state (conns w c) \<noteq> kConnecting
    | FHighWaterMark c n \<Rightarrow> live c w \<and> tc_state (conns w c) \<noteq> kConnecting
    | FUser n \<Rightarrow> True
    | _ \<Rightarrow> False)"

lemma history_simps [simp]:
  "history c [] = []" "history c (xs @ ys) = history c xs @ history c ys" "history c (map LogError ms) = []"
  "history c [ConnectionCb d up] = (if d = c then [ConnectionCb d up] else [])"
  "history c [MessageCb d bs] = (if d = c then [MessageCb d bs] else [])"
  "history c [Wrote f bs] = []" "history c [ShutdownWr f] = []" "history c [Closed f] = []" "history c [LogError m] = []"
  "history c [WriteCompleteCb d] = []" "history c [HighWaterMarkCb d n] = []" "history c [FunctorCb k] = []"
  by (simp_all add: history_def filter_empty_conv)

lemma disp_setters [simp]:
  "disp (SetIndex i ch) = disp ch" "disp (SetEvents ev ch) = disp ch" "disp (Tie x ch) = disp ch"
  by (simp_all add: disp_def cbs_def SetIndex_def SetEvents_def Tie_def)

lemma wired_cbs: "cbs a = cbs b \<Longrightarrow> wired c a = wired c b"
  by (simp add: cbs_def wired_def)

lemma disp_cbs: "disp a = disp b \<Longrightarrow> cbs a = cbs b"
  by (simp add: disp_def)

lemma live_cong:
  assumes "next_ptr w' = next_ptr w" and "tc_channel (conns w' c) = tc_channel (conns w c)"
    and "\<And>ch. cbs (chans w' ch) = cbs (chans w ch)"
  shows "live c w' = live c w"
  using assms wired_cbs [OF assms(3)] by (simp add: live_def conn_chan_def)

lemma live_channel_inj: "live c w \<Longrightarrow> live d w \<Longrightarrow> tc_channel (conns w c) = tc_channel (conns w d) \<Longrightarrow> c = d"
  by (simp add: live_def wired_def conn_chan_def)

section \<open>Operations that leave the lives alone\<close>

text \<open>
  What sending, draining, half-closing and queueing do: no application callback of any connection
  is called, no callback slot changes, a connection that is not active keeps its state
  and its interest, and only follow-ups are queued.
\<close>

definition calm :: "('k, 'm) server_world_scheme \<Rightarrow> ('k, 'm) server_world_scheme \<Rightarrow> bool" where
  "calm w w' \<longleftrightarrow> kept_fwd w w' \<and> (\<forall>c. history c (trace w') = history c (trace w))
     \<and> (\<forall>ch. disp (chans w' ch) = disp (chans w ch))
     \<and> (\<forall>c. active (tc_state (conns w' c)) = active (tc_state (conns w c)))
     \<and> (\<forall>c. \<not> active (tc_state (conns w c)) \<longrightarrow> tc_state (conns w' c) = tc_state (conns w c)
          \<and> (live c w \<longrightarrow> ch_events (conn_chan w' c) = ch_events (conn_chan w c)))
     \<and> (\<forall>l. \<exists>new. el_pending_functors (loops w' l) = el_pending_functors (loops w l) @ new \<and> (\<forall>f \<in> set new. follow_up w f))"

lemma calmD:
  assumes "calm w w'"
  shows "kept_fwd w w'" and "history c (trace w') = history c (trace w)" and "disp (chans w' ch) = disp (chans w ch)"
    and "active (tc_state (conns w' c)) = active (tc_state (conns w c))"
    and "\<not> active (tc_state (conns w c)) \<Longrightarrow> tc_state (conns w' c) = tc_state (conns w c)"
    and "\<not> active (tc_state (conns w c)) \<Longrightarrow> live c w \<Longrightarrow> ch_events (conn_chan w' c) = ch_events (conn_chan w c)"
    and "\<exists>new. el_pending_functors (loops w' l) = el_pending_functors (loops w l) @ new \<and> (\<forall>f \<in> set new. follow_up w f)"
  using assms by (simp_all add: calm_def)

lemma calm_ids:
  assumes "calm w w'"
  shows "same_conn (conns w c) (conns w' c)" and "next_ptr w' = next_ptr w" and "servers w' = servers w"
  using calmD(1) [OF assms] more_server [of w' w] by (simp_all add: kept_fwd_def kept_def)

lemma live_calm: "calm w w' \<Longrightarrow> live c w' = live c w"
  by (rule live_cong) (simp_all add: calm_ids same_connD disp_cbs [OF calmD(3)])

lemma established_calm: "calm w w' \<Longrightarrow> (tc_state (conns w' c) = kConnecting) = (tc_state (conns w c) = kConnecting)"
  using calmD(4,5) [of w w' c] by (auto simp: active_def)

lemma follow_up_calm: "calm w w' \<Longrightarrow> follow_up w' f = follow_up w f"
  by (simp add: follow_up_def live_calm established_calm split: Functor.split)

lemma calm_refl [simp, intro]: "calm w w"
  by (simp add: calm_def)

lemma calm_trans [trans]:
  assumes ab: "calm a b" and bc: "calm b c"
  shows "calm a c"
proof -
  have "\<exists>new. el_pending_functors (loops c l) = el_pending_functors (loops a l) @ new \<and> (\<forall>f \<in> set new. follow_up a f)" for l
  proof -
    obtain xs ys where "el_pending_functors (loops b l) = el_pending_functors (loops a l) @ xs" "\<forall>f \<in> set xs. follow_up a f"
      "el_pending_functors (loops c l) = el_pending_functors (loops b l) @ ys" "\<forall>f \<in> set ys. follow_up b f"
      using calmD(7) [OF ab, of l] calmD(7) [OF bc, of l] by blast
    then show ?thesis by (intro exI [of _ "xs @ ys"]) (auto simp: follow_up_calm [OF ab])
  qed
  then show ?thesis
    using kept_fwd_trans [OF calmD(1) [OF ab] calmD(1) [OF bc]]
    by (auto simp: calm_def [of a c] calmD(2-6) [OF ab] calmD(2-4) [OF bc] live_calm [OF ab]
        calmD(5) [OF bc] calmD(6) [OF bc])
qed

lemma calm_same:
  assumes "conns w' = conns w" and "tcp_world.more w' = tcp_world.more w" and "loops w' = loops w"
    and "loop_in_this_thread w' = loop_in_this_thread w" and "chans w' = chans w"
    and "\<And>c. history c (trace w') = history c (trace w)"
  shows "calm w w'"
  using assms kept_fwd_same [OF assms(1,2)] loops_kept_same [OF assms(3,4)]
  by (simp add: calm_def conn_chan_def)

lemma calm_basic [simp, intro]:
  "calm w (log_error m w)" "calm w (w\<lparr>kern := k\<rparr>)" "calm w (w\<lparr>kern := k, trace := trace w @ [Wrote f bs]\<rparr>)"
  "calm w (ShutdownWrite e f w)" "calm w (w\<lparr>kern := k, trace := trace w @ [WriteCompleteCb c]\<rparr>)"
  "calm w (w\<lparr>kern := k, trace := trace w @ [HighWaterMarkCb c n]\<rparr>)" "calm w (w\<lparr>kern := k, trace := trace w @ [FunctorCb i]\<rparr>)"
  by (auto intro!: calm_same simp: ShutdownWrite_def split: prod.split sysres.split)

lemma calm_on_conn:
  assumes "\<And>a. same_conn a (f a)" and "tc_state (f (conns w c)) = tc_state (conns w c)"
  shows "calm w (on_conn f c w)"
proof -
  have "tc_channel (f a) = tc_channel a" for a using same_connD(6) [OF assms(1)] .
  then have "conn_chan (on_conn f c w) d = conn_chan w d" for d by (simp add: conn_chan_def)
  then show ?thesis using assms kept_fwd_on_conn [of f w c] by (auto simp: calm_def)
qed

lemma calm_buffers [simp, intro]:
  "calm w (on_conn (\<lambda>conn. conn\<lparr>tc_input_buffer := g conn\<rparr>) c w)"
  "calm w (on_conn (\<lambda>conn. conn\<lparr>tc_output_buffer := g conn\<rparr>) c w)" "calm w (on_conn (SetContext v) c w)"
  by (rule calm_on_conn; simp add: same_conn_def SetContext_def)+

lemma calm_QueueInLoop: "follow_up w f \<Longrightarrow> calm w (QueueInLoop e me l f w)"
  using QueueInLoop_trace [of e me l f w] kept_fwd_basic(1) [of w e me l f]
  by (auto simp: calm_def conn_chan_def)

lemma calm_Quit: "calm w (Quit e me l w)"
proof -
  have "\<exists>xs. trace (Quit e me l w) = trace w @ map LogError xs"
    using Wakeup_trace [of e l "on_loop (\<lambda>lp. lp\<lparr>el_quit := True\<rparr>) l w"]
    by (auto simp: Quit_def Let_def intro: exI [of _ "[]"])
  then show ?thesis using kept_fwd_basic(2) [of w e me l] by (auto simp: calm_def conn_chan_def)
qed

lemma calm_RunInLoop:
  assumes "RunInLoop e me exec l cb w = Inr w'" and "\<And>w'. exec cb w = Inr w' \<Longrightarrow> calm w w'" and "follow_up w cb"
  shows "calm w w'"
  using assms calm_QueueInLoop by (auto simp: RunInLoop_def split: if_splits)

text \<open>The poller may only print an error; the index of the channel is all it changes there.\<close>

lemma Update_trace:
  assumes "Update e l op c w = Inr w'"
  shows "\<exists>xs. trace w' = trace w @ map LogError xs"
  using assms
  by (auto simp: Update_def split: prod.splits sysres.splits if_splits intro: exI [of _ "[]"] exI [of _ "[_]"])

lemma Channel_trace:
  "Channel_Update e c w = Inr w' \<Longrightarrow> \<exists>xs. trace w' = trace w @ map LogError xs"
  "Channel_Remove e c w = Inr w' \<Longrightarrow> \<exists>xs. trace w' = trace w @ map LogError xs"
  by (fastforce simp: Channel_Update_def EventLoop_UpdateChannel_def UpdateChannel_def Let_def split: if_splits dest!: Update_trace,
      fastforce simp: Channel_Remove_def EventLoop_RemoveChannel_def RemoveChannel_def Let_def andThen_eq_Inr
        split: if_splits dest!: Update_trace intro: exI [of _ "[]"])

lemma calm_masked_update:
  assumes "Channel_Update e (tc_channel (conns w c)) (on_chan (\<lambda>ch. SetEvents (m ch) ch) (tc_channel (conns w c)) w) = Inr w'"
    and "live c w" and "active (tc_state (conns w c))"
  shows "calm w w'"
proof -
  let ?ch = "tc_channel (conns w c)"
  note fr = Channel_Update_frame [OF assms(1)] and con = Channel_Update_conns [OF assms(1)]
  obtain i where ch: "chans w' = (chans w)(?ch := SetIndex i (SetEvents (m (chans w ?ch)) (chans w ?ch)))"
    using fr(4) by auto
  have "ch_events (conn_chan w' d) = ch_events (conn_chan w d)" if "\<not> active (tc_state (conns w d))" "live d w" for d
    using that assms(2,3) live_channel_inj [of d w c] ch con(1) by (auto simp: conn_chan_def)
  moreover have "kept_fwd w w'" using kept_fwd_trans [OF kept_fwd_basic(4) kept_fwd_Channel_Update [OF assms(1)]] .
  moreover obtain xs where "trace w' = trace w @ map LogError xs" using Channel_trace(1) [OF assms(1)] by auto
  ultimately show ?thesis using ch con(1) fr(1) by (simp add: calm_def)
qed

lemma calm_interest:
  assumes "live c w" and "active (tc_state (conns w c))"
  shows "EnableWriting (Channel_Update e) (tc_channel (conns w c)) w = Inr w' \<Longrightarrow> calm w w'"
    and "DisableWriting (Channel_Update e) (tc_channel (conns w c)) w = Inr w' \<Longrightarrow> calm w w'"
  using calm_masked_update [OF _ assms] by (auto simp: EnableWriting_def DisableWriting_def)

lemma calm_Channel_Remove:
  assumes "Channel_Remove e ch w = Inr w'"
  shows "calm w w'"
proof -
  note fr = Channel_Remove_frame [OF assms]
  obtain xs where "trace w' = trace w @ map LogError xs" using Channel_trace(2) [OF assms] by auto
  then show ?thesis
    using fr kept_fwd_Channel_Remove [OF assms] Channel_Remove_conns(1) [OF assms]
    by (auto simp: calm_def conn_chan_def)
qed

lemma calm_send_now:
  assumes "send_now e me c data w = (n, r, fault, w')" and "live c w" and "active (tc_state (conns w c))"
  shows "calm w w'"
proof -
  have f: "follow_up (w\<lparr>kern := k, trace := trace w @ [Wrote f bs]\<rparr>) (FWriteComplete c)" for k f bs
    using assms(2,3) by (subst follow_up_calm [OF calm_basic(3)]) (auto simp: follow_up_def active_def)
  show ?thesis
    using assms(1)
    by (auto simp: send_now_def Let_def split: if_splits prod.splits sysres.splits
        intro: calm_trans [OF calm_basic(3) calm_QueueInLoop [OF f]] calm_trans [OF calm_basic(2) calm_basic(1)])
qed

lemma calm_send_rest:
  assumes "send_rest e me c rest r w = Inr w'" and "live c w" and "active (tc_state (conns w c))"
  shows "calm w w'"
proof -
  let ?q = "\<lambda>w. if ReadableBytes (tc_output_buffer (conns w c)) + r \<ge> tc_high_water_mark (conns w c)
      \<and> ReadableBytes (tc_output_buffer (conns w c)) < tc_high_water_mark (conns w c) \<and> tc_high_water_mark_callback (conns w c)
      then QueueInLoop e me (tc_loop (conns w c)) (FHighWaterMark c (ReadableBytes (tc_output_buffer (conns w c)) + r)) w else w"
  from assms(1) obtain b where
    b: "(let w1 = on_conn (\<lambda>conn. conn\<lparr>tc_output_buffer := b\<rparr>) c (?q w)
         in if \<not> IsWriting (conn_chan w1 c) then EnableWriting (Channel_Update e) (tc_channel (conns w c)) w1 else Inr w1) = Inr w'"
    by (auto simp: send_rest_def Let_def andThen_eq_Inr)
  let ?w1 = "on_conn (\<lambda>conn. conn\<lparr>tc_output_buffer := b\<rparr>) c (?q w)"
  have "follow_up w (FHighWaterMark c n)" for n using assms(2,3) by (auto simp: follow_up_def active_def)
  then have "calm w (?q w)" by (simp add: calm_QueueInLoop)
  then have w1: "calm w ?w1" by (rule calm_trans) (rule calm_buffers(2))
  have "tc_channel (conns ?w1 c) = tc_channel (conns w c)" by simp
  then have "EnableWriting (Channel_Update e) (tc_channel (conns w c)) ?w1 = Inr w' \<Longrightarrow> calm ?w1 w'"
    using calm_interest(1) [of c ?w1 e w'] live_calm [OF w1] calmD(4) [OF w1] assms(2,3) by simp
  then have "calm ?w1 w'" using b unfolding Let_def by (simp only: split: if_splits) auto
  with w1 show ?thesis by (rule calm_trans)
qed

lemma calm_SendInLoop:
  assumes "SendInLoop e me c data w = Inr w'" and "live c w" and "tc_state (conns w c) \<noteq> kConnecting"
  shows "calm w w'"
proof (cases "tc_state (conns w c) = kDisconnected")
  case True
  then show ?thesis using assms by (auto simp: SendInLoop_def)
next
  case False
  then have act: "active (tc_state (conns w c))" using assms(3) by (cases "tc_state (conns w c)") (simp_all add: active_def)
  obtain n r fault w1 where now: "send_now e me c data w = (n, r, fault, w1)" by (metis prod_cases4)
  note w1 = calm_send_now [OF now assms(2) act]
  from now assms(1) False have "calm w1 w'"
    using calm_send_rest [of e me c _ _ w1 w'] live_calm [OF w1] calmD(4) [OF w1] assms(2) act
    by (auto simp: SendInLoop_def split: if_splits)
  with w1 show ?thesis by (rule calm_trans)
qed

lemma calm_send_buffer_body:
  assumes "send_buffer_body e me c d w = Inr w'" and "live c w" and "tc_state (conns w c) \<noteq> kConnecting"
  shows "calm w w'"
  using assms by (auto simp: send_buffer_body_def Let_def andThen_eq_Inr intro: calm_trans [OF calm_SendInLoop calm_buffers(1)])

lemma calm_ShutdownInLoop: "ShutdownInLoop e c w = Inr w' \<Longrightarrow> calm w w'"
  by (auto simp: ShutdownInLoop_def)

lemma calm_Send:
  assumes "Send e me c msg w = Inr w'" and "live c w"
  shows "calm w w'"
  using assms
  by (auto simp: Send_def split: if_splits intro: calm_SendInLoop elim!: calm_RunInLoop simp: follow_up_def)

lemma calm_Send_Buffer:
  assumes "Send_Buffer e me c d w = Inr w'" and "live c w"
  shows "calm w w'"
  using assms
  by (auto simp: Send_Buffer_def split: if_splits intro: calm_send_buffer_body elim!: calm_RunInLoop simp: follow_up_def)

lemma calm_Shutdown:
  assumes "Shutdown e me c w = Inr w'" and "live c w"
  shows "calm w w'"
proof (cases "tc_state (conns w c) = kConnected")
  case True
  let ?w1 = "on_conn (SetState kDisconnecting) c w"
  have sel: "tc_channel (SetState st a) = tc_channel a" "tc_state (SetState st a) = st" for st a by (simp_all add: SetState_def)
  have w1: "calm w ?w1"
    using True kept_fwd_SetState [of w c kDisconnecting] by (auto simp: calm_def active_def conn_chan_def sel)
  have "follow_up ?w1 (FShutdownInLoop c)"
    using assms(2) live_calm [OF w1] by (simp add: follow_up_def sel)
  moreover have "RunInLoop e me (\<lambda>_. ShutdownInLoop e c) (tc_loop (conns w c)) (FShutdownInLoop c) ?w1 = Inr w'"
    using assms(1) True by (simp add: Shutdown_def)
  ultimately have "calm ?w1 w'" using calm_RunInLoop calm_ShutdownInLoop by blast
  with w1 show ?thesis by (rule calm_trans)
next
  case False
  then show ?thesis using assms by (simp add: Shutdown_def)
qed

text \<open>
  A pointer at which no connection has been created does not hold a connected one, so whatever
  pointer the application names, a call does something only to a connection that exists.
\<close>

definition no_phantoms :: "('k, 'm) server_world_scheme \<Rightarrow> bool" where
  "no_phantoms w \<longleftrightarrow> (\<forall>c. live c w \<or> tc_state (conns w c) \<noteq> kConnected)"

lemma not_connected_calm:
  assumes "calm w w'" and "tc_state (conns w c) \<noteq> kConnected"
  shows "tc_state (conns w' c) \<noteq> kConnected"
proof
  assume connected: "tc_state (conns w' c) = kConnected"
  then have "tc_state (conns w c) = kDisconnecting" using calmD(4) [OF assms(1), of c] assms(2) by (auto simp: active_def)
  moreover have "rank (tc_state (conns w c)) \<le> rank (tc_state (conns w' c))" using calmD(1) [OF assms(1)] by (simp add: kept_fwd_def)
  ultimately show False using connected by simp
qed

lemma no_phantoms_calm:
  assumes "calm w w'" and "no_phantoms w"
  shows "no_phantoms w'"
  using assms(2) live_calm [OF assms(1)] not_connected_calm [OF assms(1)] unfolding no_phantoms_def by blast

lemma calm_perform:
  assumes "perform e me buf a w = Inr w'" and "no_phantoms w"
  shows "calm w w'"
proof -
  have "live c w" if "tc_state (conns w c) = kConnected" for c using assms(2) that unfolding no_phantoms_def by blast
  then have "calm w v" if "Send e me c bs w = Inr v \<or> Send_Buffer e me c d w = Inr v \<or> Shutdown e me c w = Inr v" for c bs d v
    using that calm_Send calm_Send_Buffer calm_Shutdown by (cases "tc_state (conns w c) = kConnected")
      (blast, auto simp: Send_def Send_Buffer_def Shutdown_def)
  then show ?thesis
    using assms(1) by (auto simp: perform_def split: action.splits option.splits intro: calm_Quit calm_QueueInLoop simp: follow_up_def)
qed

lemma calm_performs:
  assumes "foldE (perform e me buf) acts w = Inr w'" and "no_phantoms w"
  shows "calm w w'"
  using assms
proof (induction acts arbitrary: w)
  case (Cons a acts)
  then obtain w1 where w1: "perform e me buf a w = Inr w1" and rest: "foldE (perform e me buf) acts w1 = Inr w'" by auto
  have "calm w w1" by (rule calm_perform [OF w1 Cons.prems(2)])
  with Cons.IH [OF rest no_phantoms_calm [OF _ Cons.prems(2)]] show ?case using calm_trans by blast
qed simp

lemma calm_HandleError: "calm w (HandleError e c w)"
  by (auto simp: HandleError_def Let_def split: prod.split intro: calm_trans [OF calm_basic(2) calm_basic(1)])

lemma calm_drained:
  assumes "drained e me c w = Inr w'" and "live c w" and "active (tc_state (conns w c))"
  shows "calm w w'"
proof -
  let ?q = "\<lambda>w. if tc_write_complete_callback (conns w c) then QueueInLoop e me (tc_loop (conns w c)) (FWriteComplete c) w else w"
  from assms(1) obtain w1 where w1: "DisableWriting (Channel_Update e) (tc_channel (conns w c)) w = Inr w1"
    and rest: "(if tc_state (conns (?q w1) c) = kDisconnecting then ShutdownInLoop e c (?q w1) else Inr (?q w1)) = Inr w'"
    unfolding drained_def Let_def by (elim andThen_InrE)
  note calm1 = calm_interest(2) [OF assms(2,3) w1]
  have "follow_up w1 (FWriteComplete c)"
    using assms(2,3) by (subst follow_up_calm [OF calm1]) (auto simp: follow_up_def active_def)
  then have "calm w1 (?q w1)" by (simp add: calm_QueueInLoop)
  moreover have "calm (?q w1) w'" using rest calm_ShutdownInLoop by (simp only: split: if_splits) auto
  ultimately show ?thesis using calm1 calm_trans by blast
qed

lemma calm_HandleWrite:
  assumes "HandleWrite e me c w = Inr w'" and "live c w" and "IsWriting (conn_chan w c) \<Longrightarrow> active (tc_state (conns w c))"
  shows "calm w w'"
proof (cases "IsWriting (conn_chan w c)")
  case True
  note act = assms(3) [OF True]
  from True assms(1) obtain r :: "nat sysres" and wrote b k where
    rest: "(let w1 = on_conn (\<lambda>conn. conn\<lparr>tc_output_buffer := b\<rparr>) c (w\<lparr>kern := k,
                    trace := (case r of SysErr _ \<Rightarrow> trace w | SysOk _ \<Rightarrow> trace w @ [Wrote (ch_fd (conn_chan w c)) wrote])\<rparr>)
          in if (case r of SysErr _ \<Rightarrow> False | SysOk n \<Rightarrow> n > 0) then
               (if ReadableBytes (tc_output_buffer (conns w1 c)) = 0 then drained e me c w1
                else Inr (log_error ''TcpConnection::HandleWrite'' w1))
             else Inr (log_error ''TcpConnection is down, no more writing'' w1)) = Inr w'"
    unfolding HandleWrite_alt by (simp only: if_True, elim andThen_prod4E) blast
  let ?w1 = "on_conn (\<lambda>conn. conn\<lparr>tc_output_buffer := b\<rparr>) c (w\<lparr>kern := k,
      trace := (case r of SysErr _ \<Rightarrow> trace w | SysOk _ \<Rightarrow> trace w @ [Wrote (ch_fd (conn_chan w c)) wrote])\<rparr>)"
  have "calm w (w\<lparr>kern := k, trace := (case r of SysErr _ \<Rightarrow> trace w | SysOk _ \<Rightarrow> trace w @ [Wrote (ch_fd (conn_chan w c)) wrote])\<rparr>)"
    by (auto intro!: calm_same split: sysres.split)
  then have w1: "calm w ?w1" by (rule calm_trans) (rule calm_buffers(2))
  moreover have "calm ?w1 w'"
    using rest calm_drained [of e me c ?w1 w'] live_calm [OF w1] calmD(4) [OF w1, of c] assms(2) act
    unfolding Let_def by (simp only: split: if_splits) auto
  ultimately show ?thesis by (rule calm_trans)
next
  case False
  then show ?thesis using assms by (simp add: HandleWrite_def)
qed

lemma calm_user_callbacks:
  assumes "no_phantoms w"
  shows "write_complete_callback e me c w = Inr w' \<Longrightarrow> calm w w'"
    and "high_water_mark_callback e me c n w = Inr w' \<Longrightarrow> calm w w'"
    and "run_functor e me (FUser i) w = Inr w' \<Longrightarrow> calm w w'"
proof -
  have run: "calm w w'" if "foldE (perform e me None) acts u = Inr w'" "calm w u" for acts u
    by (rule calm_trans [OF that(2) calm_performs [OF that(1) no_phantoms_calm [OF that(2) assms]]])
  show "write_complete_callback e me c w = Inr w' \<Longrightarrow> calm w w'" "high_water_mark_callback e me c n w = Inr w' \<Longrightarrow> calm w w'"
    "run_functor e me (FUser i) w = Inr w' \<Longrightarrow> calm w w'"
    by (auto simp: write_complete_callback_def high_water_mark_callback_def run_functor_def split: if_splits prod.splits intro!: run)
qed

end
