(* ===== verification/Life_Invariant.thy ===== *)
theory Life_Invariant
  imports Connection_Life
begin

text \<open>
  The invariant of the connections of a server: what the application has seen of each connection in each of
  its states, who owns the callbacks of the channels, what may be queued, and that server maps name existing
  connections; and its preservation by every closure of the library, by the creation and the destruction
  of connections, and by the ends of acceptors and loops.
\<close>

section \<open>The invariant\<close>

text \<open>What the history of a connection looks like in each of its states.\<close>

definition history_ok :: "ptr \<Rightarrow> StateE \<Rightarrow> obs list \<Rightarrow> bool" where
  "history_ok c st h \<longleftrightarrow> (case st of
      kConnecting \<Rightarrow> h = []
    | kDisconnected \<Rightarrow> \<exists>ms. h = ConnectionCb c True # map (MessageCb c) ms @ [ConnectionCb c False]
    | _ \<Rightarrow> \<exists>ms. h = ConnectionCb c True # map (MessageCb c) ms)"

lemma history_ok_grows:
  assumes "history_ok c st h" and "active st"
  shows "history_ok c st (h @ [MessageCb c bs])" and "history_ok c kDisconnected (h @ [ConnectionCb c False])"
proof -
  obtain ms where ms: "h = ConnectionCb c True # map (MessageCb c) ms" using assms by (auto simp: history_ok_def active_def)
  then have "h @ [MessageCb c bs] = ConnectionCb c True # map (MessageCb c) (ms @ [bs])" by simp
  then show "history_ok c st (h @ [MessageCb c bs])" using assms(2) unfolding history_ok_def active_def by (auto simp del: map_append)
  show "history_ok c kDisconnected (h @ [ConnectionCb c False])" using ms by (auto simp: history_ok_def)
qed

text \<open>A connection outside its active phase has withdrawn all interest.\<close>

definition phase_ok :: "ptr \<Rightarrow> ('k, 'm) server_world_scheme \<Rightarrow> bool" where
  "phase_ok c w \<longleftrightarrow> history_ok c (tc_state (conns w c)) (history c (trace w))
     \<and> (\<not> active (tc_state (conns w c)) \<longrightarrow> ch_events (conn_chan w c) = 0)
     \<and> (\<exists>s. tc_close_callback (conns w c) = Some (s, c))"

text \<open>An acceptor that has been constructed.\<close>

definition listens :: "ptr \<Rightarrow> ('k, 'm) server_world_scheme \<Rightarrow> bool" where
  "listens a w \<longleftrightarrow> ac_channel (acceptors w a) < next_ptr w
     \<and> ch_read_callback (chans w (ac_channel (acceptors w a))) = Some (AcceptorHandleRead a)"

lemma listens_cong:
  assumes "next_ptr w' = next_ptr w" and "ac_channel (acceptors w' a) = ac_channel (acceptors w a)"
    and "\<And>ch. cbs (chans w' ch) = cbs (chans w ch)"
  shows "listens a w' = listens a w"
  using assms(1,2) assms(3) [of "ac_channel (acceptors w a)"] by (simp add: listens_def cbs_def)

text \<open>
  What a queued functor may assume. \<open>B l\<close> is the batch that \<open>DoPendingFunctors\<close> of loop \<open>l\<close> has taken out
  of the queue and is still running.
\<close>

definition functor_ok :: "('k, 'm) server_world_scheme \<Rightarrow> ptr \<Rightarrow> Functor \<Rightarrow> bool" where
  "functor_ok w l f \<longleftrightarrow> (case f of
      FConnectEstablished c \<Rightarrow> live c w \<and> l = tc_loop (conns w c)
    | FConnectDestroyed c \<Rightarrow> live c w
    | FRemoveConnectionInLoop s c \<Rightarrow> live c w
    | FListen a \<Rightarrow> listens a w
    | _ \<Rightarrow> follow_up w f)"

definition queue :: "(ptr \<Rightarrow> Functor list) \<Rightarrow> ('k, 'm) server_world_scheme \<Rightarrow> ptr \<Rightarrow> Functor list" where
  "queue B w l = B l @ el_pending_functors (loops w l)"

text \<open>The callbacks stored in a channel, and the connection one of them belongs to.\<close>

definition stored :: "callback channel \<Rightarrow> callback option set" where
  "stored ch = {ch_read_callback ch, ch_write_callback ch, ch_close_callback ch, ch_error_callback ch}"

definition conn_callback :: "callback \<Rightarrow> ptr option" where
  "conn_callback cb = (case cb of ConnHandleRead c \<Rightarrow> Some c | ConnHandleWrite c \<Rightarrow> Some c | ConnHandleClose c \<Rightarrow> Some c
     | ConnHandleError c \<Rightarrow> Some c | _ \<Rightarrow> None)"

text \<open>
  \<open>X\<close> are the connections that still have to be established and are not queued for it: the one whose
  \<open>ConnectEstablished\<close> is about to run.
\<close>

definition life_inv :: "ptr set \<Rightarrow> (ptr \<Rightarrow> Functor list) \<Rightarrow> ('k, 'm) server_world_scheme \<Rightarrow> bool" where
  "life_inv X B w \<longleftrightarrow>
     (\<forall>ch cb c. Some cb \<in> stored (chans w ch) \<and> conn_callback cb = Some c \<longrightarrow> live c w \<and> tc_channel (conns w c) = ch)
     \<and> (\<forall>c. live c w \<longrightarrow> phase_ok c w)
     \<and> (\<forall>c. live c w \<longrightarrow> count_list (queue B w (tc_loop (conns w c))) (FConnectEstablished c)
          = (if tc_state (conns w c) = kConnecting \<and> c \<notin> X then 1 else 0))
     \<and> (\<forall>l. \<forall>f \<in> set (queue B w l). functor_ok w l f)
     \<and> (\<forall>c. \<not> live c w \<longrightarrow> history c (trace w) = []) \<and> no_phantoms w
     \<and> (\<forall>s name c. sv_connections (servers w s) name = Some c \<longrightarrow> live c w)"

lemma stored_cbs: "cbs a = cbs b \<Longrightarrow> stored a = stored b"
  by (simp add: cbs_def stored_def)

lemma life_invD:
  assumes "life_inv X B w"
  shows "Some cb \<in> stored (chans w ch) \<Longrightarrow> conn_callback cb = Some c \<Longrightarrow> live c w \<and> tc_channel (conns w c) = ch"
    and "live c w \<Longrightarrow> phase_ok c w"
    and "live c w \<Longrightarrow> count_list (queue B w (tc_loop (conns w c))) (FConnectEstablished c)
          = (if tc_state (conns w c) = kConnecting \<and> c \<notin> X then 1 else 0)"
    and "f \<in> set (queue B w l) \<Longrightarrow> functor_ok w l f"
    and "\<not> live c w \<Longrightarrow> history c (trace w) = []" and "no_phantoms w"
    and "sv_connections (servers w s) name = Some c \<Longrightarrow> live c w"
  using assms unfolding life_inv_def by blast+

text \<open>
  Preservation, once and for all steps that create no connection: identities and callback slots
  stay, every phase is right again, no state goes back over a border, and what is newly queued is
  sound and establishes nothing.
\<close>

lemma functor_ok_keep:
  assumes "\<And>c. live c w' = live c w" and "\<And>c. same_conn (conns w c) (conns w' c)"
    and "\<And>c. live c w \<Longrightarrow> tc_state (conns w c) \<noteq> kConnecting \<Longrightarrow> tc_state (conns w' c) \<noteq> kConnecting"
    and "\<And>a. listens a w \<Longrightarrow> listens a w'" and "functor_ok w l f"
  shows "functor_ok w' l f"
  using assms(1,3-) same_connD(3) [OF assms(2)] by (auto simp: functor_ok_def follow_up_def split: Functor.splits)

lemma life_inv_keep:
  assumes inv: "life_inv X B w" and np: "next_ptr w' = next_ptr w" and ids: "\<And>c. same_conn (conns w c) (conns w' c)"
    and slots: "\<And>ch. cbs (chans w' ch) = cbs (chans w ch)"
    and phases: "\<And>c. live c w \<Longrightarrow> phase_ok c w'"
    and est: "\<And>c. live c w \<Longrightarrow> tc_state (conns w c) \<noteq> kConnecting \<Longrightarrow> tc_state (conns w' c) \<noteq> kConnecting"
    and acc: "\<And>a. ac_channel (acceptors w' a) = ac_channel (acceptors w a)"
    and maps: "\<And>s name c. sv_connections (servers w' s) name = Some c \<Longrightarrow> sv_connections (servers w s) name = Some c"
    and wait: "\<And>c. live c w \<Longrightarrow> (tc_state (conns w' c) = kConnecting \<and> c \<notin> X') = (tc_state (conns w c) = kConnecting \<and> c \<notin> X)"
    and queued: "\<And>l. \<exists>new. el_pending_functors (loops w' l) = el_pending_functors (loops w l) @ new
        \<and> (\<forall>f \<in> set new. functor_ok w' l f \<and> (\<forall>c. f \<noteq> FConnectEstablished c))"
    and past: "\<And>c. \<not> live c w \<Longrightarrow> history c (trace w') = history c (trace w)"
    and idle: "\<And>c. \<not> live c w \<Longrightarrow> tc_state (conns w c) \<noteq> kConnected \<Longrightarrow> tc_state (conns w' c) \<noteq> kConnected"
  shows "life_inv X' B w'"
proof -
  have live: "live c w' = live c w" for c
    by (rule live_cong [OF np same_connD(6) [OF ids] slots])
  have listens: "listens a w' = listens a w" for a by (rule listens_cong [OF np acc slots])
  have new: "functor_ok w' l f" if f: "f \<in> set (queue B w' l)" for l f
  proof (cases "f \<in> set (queue B w l)")
    case True
    from life_invD(4) [OF inv this] show ?thesis by (intro functor_ok_keep [OF live ids, of l f]) (use est in \<open>auto simp: listens\<close>)
  next
    case False
    then show ?thesis using queued [of l] f by (auto simp: queue_def)
  qed
  have count: "count_list (queue B w' l) (FConnectEstablished c) = count_list (queue B w l) (FConnectEstablished c)" for l c
    using queued [of l] by (auto simp: queue_def count_list_0_iff)
  have waiting: "count_list (queue B w' (tc_loop (conns w' c))) (FConnectEstablished c)
      = (if tc_state (conns w' c) = kConnecting \<and> c \<notin> X' then 1 else 0)" if "live c w'" for c
    using life_invD(3) [OF inv that [unfolded live]] unfolding wait [OF that [unfolded live]] count same_connD(3) [OF ids] .
  show ?thesis
    unfolding life_inv_def
  proof (intro conjI allI impI ballI)
    fix ch cb c assume "Some cb \<in> stored (chans w' ch) \<and> conn_callback cb = Some c"
    then show "live c w'" "tc_channel (conns w' c) = ch"
      using life_invD(1) [OF inv] unfolding live stored_cbs [OF slots] same_connD(6) [OF ids] by blast+
  next
    fix c assume "\<not> live c w'"
    then show "history c (trace w') = []" using past life_invD(5) [OF inv] by (simp add: live)
  next
    show "no_phantoms w'" using life_invD(6) [OF inv] idle live unfolding no_phantoms_def by blast
  next
    fix s name c assume "sv_connections (servers w' s) name = Some c"
    then show "live c w'" unfolding live by (rule life_invD(7) [OF inv maps])
  qed (use new waiting phases in \<open>simp_all only: live\<close>)
qed

lemma phase_ok_calm:
  assumes "calm w w'" and "live c w" and "phase_ok c w"
  shows "phase_ok c w'"
proof (cases "active (tc_state (conns w c))")
  case True
  then have "active (tc_state (conns w' c))" using calmD(4) [OF assms(1)] by simp
  with True assms(3) show ?thesis
    using calmD(2) [OF assms(1)] same_connD(2) [OF calm_ids(1) [OF assms(1)]] by (auto simp: phase_ok_def active_def history_ok_def)
next
  case False
  with assms show ?thesis
    using calmD(2-6) [OF assms(1)] same_connD(2) [OF calm_ids(1) [OF assms(1)]] by (simp add: phase_ok_def)
qed

lemma functor_ok_follow_up: "follow_up w f \<Longrightarrow> functor_ok w l f"
  by (simp add: functor_ok_def follow_up_def split: Functor.splits)

lemma calm_acceptors:
  assumes "calm w w'"
  shows "acceptors w' = acceptors w"
  using calmD(1) [OF assms] more_server(2) [of w' w] by (simp add: kept_fwd_def kept_def)

lemma life_inv_calm:
  assumes "calm w w'" and "life_inv X B w"
  shows "life_inv X B w'"
proof (rule life_inv_keep [OF assms(2)])
  show "phase_ok c w'" if "live c w" for c using phase_ok_calm [OF assms(1) that] life_invD(2) [OF assms(2) that] .
  show "\<exists>new. el_pending_functors (loops w' l) = el_pending_functors (loops w l) @ new
        \<and> (\<forall>f \<in> set new. functor_ok w' l f \<and> (\<forall>c. f \<noteq> FConnectEstablished c))" for l
  proof -
    obtain new where new: "el_pending_functors (loops w' l) = el_pending_functors (loops w l) @ new" "\<forall>f \<in> set new. follow_up w f"
      using calmD(7) [OF assms(1)] by blast
    have "functor_ok w' l f" "f \<noteq> FConnectEstablished c" if "f \<in> set new" for f c
      using new(2) that functor_ok_follow_up [of w' f l] follow_up_calm [OF assms(1), of f] by (simp, auto simp: follow_up_def)
    with new(1) show ?thesis by blast
  qed
  show "tc_state (conns w' c) \<noteq> kConnected" if "tc_state (conns w c) \<noteq> kConnected" for c by (rule not_connected_calm [OF assms(1) that])
qed (simp_all add: calm_ids [OF assms(1)] calm_acceptors [OF assms(1)] disp_cbs [OF calmD(3) [OF assms(1)]] established_calm [OF assms(1)] calmD(2) [OF assms(1)])

text \<open>What all handlers of connections leave alone, and what the acceptor's does.\<close>

definition steady :: "('k, 'm) server_world_scheme \<Rightarrow> ('k, 'm) server_world_scheme \<Rightarrow> bool" where
  "steady w w' \<longleftrightarrow> next_ptr w' = next_ptr w \<and> (\<forall>c. same_conn (conns w c) (conns w' c))
     \<and> (\<forall>ch. disp (chans w' ch) = disp (chans w ch))"

definition grows :: "('k, 'm) server_world_scheme \<Rightarrow> ('k, 'm) server_world_scheme \<Rightarrow> bool" where
  "grows w w' \<longleftrightarrow> next_ptr w \<le> next_ptr w' \<and> (\<forall>ch < next_ptr w. cbs (chans w' ch) = cbs (chans w ch))"

lemma steady_refl [simp, intro]: "steady w w"
  by (simp add: steady_def)

lemma steady_trans [trans]: "steady a b \<Longrightarrow> steady b c \<Longrightarrow> steady a c"
  by (auto simp: steady_def intro: same_conn_trans)

lemma steady_calm:
  assumes "calm w w'"
  shows "steady w w'"
  by (simp add: steady_def calm_ids [OF assms] calmD(3) [OF assms])

lemma steadyD:
  assumes "steady w w'"
  shows "next_ptr w' = next_ptr w" and "same_conn (conns w c) (conns w' c)" and "disp (chans w' ch) = disp (chans w ch)"
  using assms by (simp_all add: steady_def)

lemma live_steady:
  assumes "steady w w'"
  shows "live c w' = live c w"
  by (rule live_cong [OF steadyD(1) [OF assms] same_connD(6) [OF steadyD(2) [OF assms]] disp_cbs [OF steadyD(3) [OF assms]]])

lemma grows_steady:
  assumes "steady w w'"
  shows "grows w w'"
  by (simp add: grows_def steadyD(1) [OF assms] disp_cbs [OF steadyD(3) [OF assms]])

lemma grows_trans [trans]: "grows a b \<Longrightarrow> grows b c \<Longrightarrow> grows a c"
  by (simp add: grows_def)

lemma steady_frames [simp]: "steady w (on_server g s w)" "steady w (QueueInLoop e me l f w)"
  by (simp_all add: steady_def)

text \<open>The steps of a life: connection \<open>c\<close> alone moves to another state, its history grows by one callback.\<close>

lemma life_inv_turn:
  assumes inv: "life_inv X B w" and "live c w"
    and conns: "conns u = (conns w)(c := (conns w c)\<lparr>tc_state := st\<rparr>)" and np: "next_ptr u = next_ptr w" and loops: "loops u = loops w"
    and slots: "\<And>ch. disp (chans u ch) = disp (chans w ch)"
    and others: "\<And>ch. ch \<noteq> tc_channel (conns w c) \<Longrightarrow> ch_events (chans u ch) = ch_events (chans w ch)"
    and hist: "\<And>d. d \<noteq> c \<Longrightarrow> history d (trace u) = history d (trace w)"
    and "phase_ok c u" and "st \<noteq> kConnecting" and more: "tcp_world.more u = tcp_world.more w"
    and "tc_state (conns w c) = kConnecting \<Longrightarrow> c \<in> X"
    and "\<And>d. d \<noteq> c \<Longrightarrow> d \<in> X' \<longleftrightarrow> d \<in> X"
  shows "life_inv X' B u"
proof (rule life_inv_keep [OF inv np])
  show "phase_ok d u" if "live d w" for d
  proof (cases "d = c")
    case False
    then have "tc_channel (conns w d) \<noteq> tc_channel (conns w c)" using live_channel_inj [OF that assms(2)] by blast
    with False show ?thesis
      using life_invD(2) [OF inv that] by (simp add: phase_ok_def conns hist conn_chan_def others)
  qed (use assms(9) in simp)
  show "\<exists>new. el_pending_functors (loops u l) = el_pending_functors (loops w l) @ new
        \<and> (\<forall>f \<in> set new. functor_ok u l f \<and> (\<forall>c. f \<noteq> FConnectEstablished c))" for l
    by (intro exI [of _ "[]"]) (simp add: loops)
  show "history d (trace u) = history d (trace w)" if "\<not> live d w" for d
  proof (rule hist)
    show "d \<noteq> c" using that assms(2) by blast
  qed
  show "tc_state (conns u d) \<noteq> kConnected" if "\<not> live d w" and "tc_state (conns w d) \<noteq> kConnected" for d
    using that assms(2) by (auto simp: conns)
qed (use assms(10-13) more_server [OF more] in \<open>auto simp: conns same_conn_def disp_cbs [OF slots]\<close>)

text \<open>A change of state with a change of interest, and the application told about it.\<close>

lemma turn_parts:
  assumes "Channel_Update e (tc_channel (conns w c)) (on_chan g (tc_channel (conns w c)) (on_conn (SetState st) c w)) = Inr w1"
    and "\<And>ch. disp (g ch) = disp ch" and "u = w1\<lparr>kern := k, trace := trace w1 @ [ConnectionCb c up]\<rparr>"
  shows "conns u = (conns w)(c := (conns w c)\<lparr>tc_state := st\<rparr>)" and "next_ptr u = next_ptr w" and "loops u = loops w"
    and "disp (chans u ch) = disp (chans w ch)"
    and "ch_events (chans u ch) = ch_events (if ch = tc_channel (conns w c) then g (chans w ch) else chans w ch)"
    and "history d (trace u) = history d (trace w) @ (if d = c then [ConnectionCb c up] else [])"
    and "tcp_world.more u = tcp_world.more w"
proof -
  let ?v = "on_chan g (tc_channel (conns w c)) (on_conn (SetState st) c w)"
  note fr = Channel_Update_frame [OF assms(1)]
  obtain xs where tr: "trace w1 = trace ?v @ map LogError xs" using Channel_trace(1) [OF assms(1)] by blast
  obtain i where ch: "chans w1 = (chans ?v)(tc_channel (conns w c) := SetIndex i (chans ?v (tc_channel (conns w c))))" using fr(4) by blast
  show "conns u = (conns w)(c := (conns w c)\<lparr>tc_state := st\<rparr>)" "next_ptr u = next_ptr w"
    using Channel_Update_conns [OF assms(1)] more_server(3) [of w1 w] by (simp_all add: assms(3) SetState_def fun_eq_iff)
  show "tcp_world.more u = tcp_world.more w" using Channel_Update_conns [OF assms(1)] by (simp add: assms(3))
  show "loops u = loops w" using fr(1) by (simp add: assms(3))
  show "disp (chans u ch) = disp (chans w ch)" using ch assms(2) by (simp add: assms(3))
  show "ch_events (chans u ch) = ch_events (if ch = tc_channel (conns w c) then g (chans w ch) else chans w ch)"
    using ch by (simp add: assms(3))
  show "history d (trace u) = history d (trace w) @ (if d = c then [ConnectionCb c up] else [])" using tr by (simp add: assms(3))
qed

lemma connection_callback_runs:
  assumes "connection_callback e me c w = Inr w'"
  obtains k acts u where "u = w\<lparr>kern := k, trace := trace w @ [ConnectionCb c (IsConnected (conns w c))]\<rparr>"
    and "foldE (perform e me None) acts u = Inr w'"
  using assms by (auto simp: connection_callback_def split: if_splits prod.splits)

lemma message_callback_runs:
  assumes "message_callback e me t c w = Inr w'"
  obtains k bs acts u where "u = w\<lparr>kern := k, trace := trace w @ [MessageCb c bs]\<rparr>"
    and "foldE (perform e me (Some c)) acts u = Inr w'"
  using assms by (auto simp: message_callback_def Let_def split: if_splits prod.splits)

lemma life_inv_performs:
  assumes "foldE (perform e me buf) acts u = Inr w'" and "life_inv X B u" and "steady w u"
  shows "life_inv X B w' \<and> steady w w' \<and> calm u w'"
proof -
  have calm: "calm u w'" by (rule calm_performs [OF assms(1) life_invD(6) [OF assms(2)]])
  then show ?thesis using life_inv_calm assms(2) steady_trans [OF assms(3) steady_calm] by blast
qed

lemma steady_turn:
  assumes "conns u = (conns w)(c := (conns w c)\<lparr>tc_state := st\<rparr>)" and "next_ptr u = next_ptr w"
    and "\<And>ch. disp (chans u ch) = disp (chans w ch)"
  shows "steady w u"
  by (simp add: steady_def assms same_conn_def)

lemma life_inv_ConnectEstablished:
  assumes "ConnectEstablished e me c w = Inr w'" and "life_inv X B w" and "live c w"
    and "tc_state (conns w c) = kConnecting" and "c \<in> X"
  shows "life_inv (X - {c}) B w' \<and> steady w w'"
proof -
  let ?ch = "tc_channel (conns w c)" and ?g = "(\<lambda>ch. SetEvents (ch_events ch OR kReadEvent) ch) \<circ> Tie c"
  from assms(1) obtain w1 where up: "Channel_Update e ?ch (on_chan ?g ?ch (on_conn (SetState kConnected) c w)) = Inr w1"
    and cb: "connection_callback e me c w1 = Inr w'"
    unfolding ConnectEstablished_def EnableReading_def Let_def on_chan_twice by (elim andThen_InrE) simp
  have g: "disp (?g ch) = disp ch" for ch by simp
  note raw = turn_parts [OF up g refl]
  have "IsConnected (conns w1 c)" using raw(1) by (simp add: IsConnected_def)
  with connection_callback_runs [OF cb] obtain k acts u where
    u: "u = w1\<lparr>kern := k, trace := trace w1 @ [ConnectionCb c True]\<rparr>" and run: "foldE (perform e me None) acts u = Inr w'" by metis
  note parts = turn_parts [OF up g u]
  have "history c (trace w) = []" "\<exists>s. tc_close_callback (conns w c) = Some (s, c)"
    using life_invD(2) [OF assms(2,3)] assms(4) by (simp_all add: phase_ok_def history_ok_def)
  then have "phase_ok c u" by (simp add: phase_ok_def history_ok_def active_def parts(1,6))
  with assms(2,3,4,5) have "life_inv (X - {c}) B u"
    by (intro life_inv_turn [OF assms(2,3) parts(1-4)]) (simp_all add: parts(5-7))
  then show ?thesis using life_inv_performs [OF run _ steady_turn [OF parts(1,2,4)]] by blast
qed

text \<open>A message arrives only while the connection is active.\<close>

lemma life_inv_message_callback:
  assumes "message_callback e me t c w = Inr w'" and "life_inv X B w" and "live c w"
    and "active (tc_state (conns w c))"
  shows "life_inv X B w' \<and> steady w w'"
proof -
  from message_callback_runs [OF assms(1)] obtain k bs acts u where
    u: "u = w\<lparr>kern := k, trace := trace w @ [MessageCb c bs]\<rparr>" and run: "foldE (perform e me (Some c)) acts u = Inr w'" by metis
  have "phase_ok c u"
    using life_invD(2) [OF assms(2,3)] history_ok_grows(1) assms(4) by (simp add: phase_ok_def u)
  then have "life_inv X B u"
    using assms(4) by (intro life_inv_turn [OF assms(2,3), of _ "tc_state (conns w c)"]) (auto simp: u active_def)
  moreover have "steady w u" by (simp add: steady_def u)
  ultimately show ?thesis using life_inv_performs [OF run] by blast
qed

text \<open>Closing.\<close>

lemma life_inv_unmap [simp]:
  "life_inv X B w \<Longrightarrow> life_inv X B (on_server (\<lambda>sv. sv\<lparr>sv_connections := (sv_connections sv)(name := None)\<rparr>) s w)"
  by (rule life_inv_keep [of X B w]) (auto dest: life_invD(2) simp: phase_ok_def conn_chan_def split: if_splits)

lemma live_QueueInLoop [simp]: "live c (QueueInLoop e me l f w) = live c w"
  by (simp add: live_def conn_chan_def)

lemma acceptors_kept [simp]:
  "acceptors (on_conn g c w) = acceptors w" "acceptors (QueueInLoop e me l f w) = acceptors w"
  "acceptors (Socket_Listen e f' w) = acceptors w"
  by (simp_all add: Socket_Listen_def on_conn_def QueueInLoop_def Let_def Wakeup_def on_loop_def log_error_def split: prod.split sysres.split)

lemma listens_QueueInLoop [simp]: "listens a (QueueInLoop e me l f w) = listens a w"
  by (rule listens_cong) simp_all

lemma life_inv_queue:
  assumes "life_inv X B w" and "functor_ok w l f" and "\<And>c. f \<noteq> FConnectEstablished c"
  shows "life_inv X B (QueueInLoop e me l f w)"
proof -
  obtain xs where tr: "trace (QueueInLoop e me l f w) = trace w @ map LogError xs" using QueueInLoop_trace [of e me l f w] by blast
  have "functor_ok (QueueInLoop e me l f w) l f" using assms(2) by (simp add: functor_ok_def follow_up_def split: Functor.splits)
  with assms show ?thesis
    by (intro life_inv_keep [OF assms(1)]) (auto dest: life_invD(2) simp: phase_ok_def conn_chan_def tr)
qed

lemma live_on_server [simp]: "live c (on_server g s w) = live c w"
  by (simp add: live_def conn_chan_def)

lemma life_inv_RemoveConnection:
  assumes "life_inv X B w" and "live c w"
  shows "RemoveConnectionInLoop e me s c w = Inr w' \<Longrightarrow> life_inv X B w' \<and> steady w w'"
    and "RemoveConnection e me s c w = Inr w' \<Longrightarrow> life_inv X B w' \<and> steady w w'"
proof -
  have in_loop: "life_inv X B w' \<and> steady w w'" if "RemoveConnectionInLoop e me s c w = Inr w'" for w'
    using that assms steady_trans [OF steady_frames]
    by (auto simp: RemoveConnectionInLoop_def functor_ok_def intro!: life_inv_queue)
  then show "RemoveConnectionInLoop e me s c w = Inr w' \<Longrightarrow> life_inv X B w' \<and> steady w w'" .
  show "RemoveConnection e me s c w = Inr w' \<Longrightarrow> life_inv X B w' \<and> steady w w'"
    using assms in_loop by (auto simp: RemoveConnection_def RunInLoop_def functor_ok_def split: if_splits intro!: life_inv_queue)
qed

text \<open>An active connection goes down: both \<open>HandleClose\<close> and the server's destructor do this.\<close>

lemma life_inv_goes_down:
  assumes down: "DisableAll (Channel_Update e) (tc_channel (conns w c)) (on_conn (SetState kDisconnected) c w) = Inr w1"
    and cb: "connection_callback e me c w1 = Inr w2"
    and inv: "life_inv X B w" and live: "live c w" and act: "active (tc_state (conns w c))"
  shows "life_inv X B w2 \<and> steady w w2"
proof -
  let ?ch = "tc_channel (conns w c)" and ?g = "SetEvents kNoneEvent"
  from down have down: "Channel_Update e ?ch (on_chan ?g ?ch (on_conn (SetState kDisconnected) c w)) = Inr w1"
    by (simp add: DisableAll_def)
  have g: "disp (?g ch) = disp ch" for ch by simp
  note raw = turn_parts [OF down g refl]
  have "\<not> IsConnected (conns w1 c)" using raw(1) by (simp add: IsConnected_def)
  with connection_callback_runs [OF cb] obtain k acts u where
    u: "u = w1\<lparr>kern := k, trace := trace w1 @ [ConnectionCb c False]\<rparr>" and run: "foldE (perform e me None) acts u = Inr w2" by metis
  note parts = turn_parts [OF down g u]
  have phase: "history_ok c (tc_state (conns w c)) (history c (trace w))" "\<exists>s. tc_close_callback (conns w c) = Some (s, c)"
    using life_invD(2) [OF inv live] by (simp_all add: phase_ok_def)
  then have "phase_ok c u"
    using history_ok_grows(2) [OF phase(1) act] by (simp add: phase_ok_def active_def conn_chan_def parts(1,5,6) SetEvents_def kNoneEvent_def)
  with inv live act have "life_inv X B u"
    by (intro life_inv_turn [OF inv live parts(1-4)]) (auto simp: parts(5-7) active_def)
  then show ?thesis using life_inv_performs [OF run _ steady_turn [OF parts(1,2,4)]] by blast
qed

lemma life_inv_HandleClose:
  assumes "HandleClose e me (RemoveConnection e me) c w = Inr w'" and "life_inv X B w" and "live c w"
    and "active (tc_state (conns w c))"
  shows "life_inv X B w' \<and> steady w w'"
proof -
  from assms(1) obtain w1 w2 where
    down: "DisableAll (Channel_Update e) (tc_channel (conns w c)) (on_conn (SetState kDisconnected) c w) = Inr w1"
    and cb: "connection_callback e me c w1 = Inr w2"
    and close: "(case tc_close_callback (conns w2 c) of None \<Rightarrow> Inl BadFunctionCall
       | Some (srv, captured) \<Rightarrow> RemoveConnection e me srv captured w2) = Inr w'"
    by (auto simp: HandleClose_def andThen_eq_Inr)
  have told: "life_inv X B w2" "steady w w2" using life_inv_goes_down [OF down cb assms(2-4)] by simp_all
  have live: "live c w2" using live_steady [OF told(2)] assms(3) by simp
  then obtain s where "tc_close_callback (conns w2 c) = Some (s, c)"
    using life_invD(2) [OF told(1)] by (auto simp: phase_ok_def)
  then have "RemoveConnection e me s c w2 = Inr w'" using close by simp
  then show ?thesis
    using life_inv_RemoveConnection(2) [OF told(1) live] steady_trans [OF told(2)] by blast
qed

lemma life_inv_ConnectDestroyed:
  assumes "ConnectDestroyed e me c w = Inr w'" and "life_inv X B w" and "live c w"
  shows "life_inv X B w' \<and> steady w w'"
proof -
  have removes: "life_inv X B w' \<and> steady v w'" if "Channel_Remove e (tc_channel (conns v c)) v = Inr w'" "life_inv X B v" for v
    using calm_Channel_Remove [OF that(1)] life_inv_calm [OF _ that(2)] steady_calm by blast
  show ?thesis
  proof (cases "tc_state (conns w c) = kConnected")
    case True
    with assms(1) obtain w1 w2 where
      down: "DisableAll (Channel_Update e) (tc_channel (conns w c)) (on_conn (SetState kDisconnected) c w) = Inr w1"
      and cb: "connection_callback e me c w1 = Inr w2" and rest: "Channel_Remove e (tc_channel (conns w2 c)) w2 = Inr w'"
      by (auto simp: ConnectDestroyed_def andThen_eq_Inr)
    show ?thesis
      using life_inv_goes_down [OF down cb assms(2,3)] removes [OF rest] steady_trans True by (auto simp: active_def)
  next
    case False
    then show ?thesis using removes assms by (simp add: ConnectDestroyed_def)
  qed
qed

text \<open>The handlers of an active connection.\<close>

lemma life_inv_HandleRead:
  assumes "Conn_HandleRead e me (RemoveConnection e me) t c w = Inr w'" and "life_inv X B w" and "live c w"
    and "active (tc_state (conns w c))"
  shows "life_inv X B w' \<and> steady w w'"
proof -
  from assms(1) obtain r :: "nat sysres" and b k where
    rest: "(let w1 = on_conn (\<lambda>conn. conn\<lparr>tc_input_buffer := b\<rparr>) c (w\<lparr>kern := k\<rparr>)
       in case r of SysOk n \<Rightarrow> if n > 0 then message_callback e me t c w1 else HandleClose e me (RemoveConnection e me) c w1
          | SysErr n \<Rightarrow> Inr (HandleError e c (log_error ''TcpConnection::handleRead'' w1))) = Inr w'"
    unfolding Conn_HandleRead_def by (elim andThen_prod3E) blast
  let ?w1 = "on_conn (\<lambda>conn. conn\<lparr>tc_input_buffer := b\<rparr>) c (w\<lparr>kern := k\<rparr>)"
  have w1: "calm w ?w1" by (rule calm_trans [OF calm_basic(2) calm_buffers(1)])
  have inv: "life_inv X B ?w1" by (rule life_inv_calm [OF w1 assms(2)])
  have ok: "live c ?w1" "active (tc_state (conns ?w1 c))" using live_calm [OF w1, of c] calmD(4) [OF w1, of c] assms(3,4) by simp_all
  have err: "life_inv X B (HandleError e c (log_error m ?w1)) \<and> steady ?w1 (HandleError e c (log_error m ?w1))" for m
    using life_inv_calm [OF _ inv] steady_calm calm_trans [OF calm_basic(1) calm_HandleError] by blast
  have "life_inv X B w' \<and> steady ?w1 w'"
    using rest err life_inv_message_callback [OF _ inv ok] life_inv_HandleClose [OF _ inv ok]
    unfolding Let_def by (cases r) (auto split: if_splits)
  then show ?thesis using steady_trans [OF steady_calm [OF w1]] by blast
qed

lemma interested_active:
  assumes "life_inv X B w" and "live c w" and "ch_events (conn_chan w c) \<noteq> 0"
  shows "active (tc_state (conns w c))"
  using life_invD(2) [OF assms(1,2)] assms(3) by (auto simp: phase_ok_def)

lemma life_inv_HandleWrite:
  assumes "HandleWrite e me c w = Inr w'" and "life_inv X B w" and "live c w"
  shows "life_inv X B w' \<and> steady w w'"
proof -
  have "active (tc_state (conns w c))" if "IsWriting (conn_chan w c)"
    using that by (intro interested_active [OF assms(2,3)]) (auto simp: IsWriting_def)
  with assms(1,3) have "calm w w'" by (rule calm_HandleWrite)
  then show ?thesis using assms(2) life_inv_calm steady_calm by blast
qed

text \<open>A new connection.\<close>

lemma live_created:
  assumes inv: "life_inv {} B w" and c: "c = next_ptr w" and np: "next_ptr w' = c + 2"
    and conns: "conns w' = (conns w)(c := conn)" and chans: "chans w' = (chans w)(c + 1 := ch)"
    and conn: "tc_channel conn = c + 1" and ch: "wired c ch"
  shows "live d w' \<longleftrightarrow> d = c \<or> live d w"
proof (cases "d = c")
  case False
  have "live d w'" if "live d w" using that c np False by (simp add: live_def conn_chan_def conns chans)
  moreover have "live d w" if d: "live d w'"
  proof -
    have "tc_channel (conns w d) \<noteq> c + 1" using d False ch by (auto simp: live_def wired_def conn_chan_def conns chans)
    with d False have "wired d (chans w (tc_channel (conns w d)))" by (simp add: live_def conn_chan_def conns chans)
    then show ?thesis
      using life_invD(1) [OF inv, of "ConnHandleRead d" "tc_channel (conns w d)" d] by (simp add: wired_def stored_def conn_callback_def)
  qed
  ultimately show ?thesis using False by blast
qed (simp add: live_def conn_chan_def conns chans conn ch np)

lemma life_inv_created:
  assumes inv: "life_inv {} B w" and c: "c = next_ptr w" and np: "next_ptr w' = c + 2"
    and conns: "conns w' = (conns w)(c := conn)" and chans: "chans w' = (chans w)(c + 1 := ch)" and loops: "loops w' = loops w"
    and hist: "\<And>d. history d (trace w') = history d (trace w)"
    and conn: "tc_channel conn = c + 1" "tc_state conn = kConnecting" "tc_close_callback conn = Some (s, c)"
    and ch: "wired c ch" "ch_events ch = 0"
    and acc: "acceptors w' = acceptors w"
    and maps: "\<And>s name d. sv_connections (servers w' s) name = Some d \<Longrightarrow> d = c \<or> sv_connections (servers w s) name = Some d"
  shows "life_inv {c} B w'" and "live c w'"
proof -
  have old: "d < c \<and> tc_channel (conns w d) < c" if "live d w" for d using that c by (simp add: live_def)
  have live: "live d w' \<longleftrightarrow> d = c \<or> live d w" for d by (rule live_created [OF inv c np conns chans conn(1) ch(1)])
  from live [of c] show "live c w'" by simp
  have queue: "queue B w' l = queue B w l" for l by (simp add: queue_def loops)
  have fine: "functor_ok w' l f" if "functor_ok w l f" for l f
  proof -
    have "live d w \<Longrightarrow> conns w' d = conns w d" for d using old by (auto simp: conns)
    moreover have "listens a w \<Longrightarrow> listens a w'" for a using np c by (auto simp: listens_def acc chans)
    ultimately show ?thesis using that by (auto simp: functor_ok_def follow_up_def live split: Functor.splits)
  qed
  show "life_inv {c} B w'"
    unfolding life_inv_def
  proof (intro conjI allI impI ballI)
    fix ch' cb d assume cb: "Some cb \<in> stored (chans w' ch') \<and> conn_callback cb = Some d"
    show "live d w'" "tc_channel (conns w' d) = ch'"
    proof (atomize(full), cases "ch' = c + 1")
      case True
      then have "d = c" using cb ch(1) by (auto simp: chans stored_def wired_def conn_callback_def)
      then show "live d w' \<and> tc_channel (conns w' d) = ch'" using True by (simp add: live conns conn)
    next
      case False
      then have "live d w \<and> tc_channel (conns w d) = ch'" using cb life_invD(1) [OF inv, of cb ch' d] by (simp add: chans)
      then show "live d w' \<and> tc_channel (conns w' d) = ch'" using old by (auto simp: live conns)
    qed
  next
    fix d assume d: "live d w'"
    have "history c (trace w) = []" using life_invD(5) [OF inv, of c] old by blast
    then show "phase_ok d w'"
      using d life_invD(2) [OF inv, of d] old [of d]
      by (cases "d = c") (auto simp: live phase_ok_def history_ok_def active_def conn_chan_def conns chans conn ch hist)
    have "count_list (queue B w l) (FConnectEstablished c) = 0" for l
      using life_invD(4) [OF inv] old by (fastforce simp: count_list_0_iff functor_ok_def)
    then show "count_list (queue B w' (tc_loop (conns w' d))) (FConnectEstablished d)
        = (if tc_state (conns w' d) = kConnecting \<and> d \<notin> {c} then 1 else 0)"
      using d life_invD(3) [OF inv, of d] by (cases "d = c") (auto simp: live queue conns)
  next
    show "no_phantoms w'" using life_invD(6) [OF inv] by (simp add: no_phantoms_def live conns)
  next
    fix s name d assume "sv_connections (servers w' s) name = Some d"
    then show "live d w'" using maps life_invD(7) [OF inv] live by blast
  qed (use life_invD(4,5) [OF inv] fine in \<open>auto simp: queue live hist\<close>)
qed

lemma new_TcpConnection_parts:
  assumes "new_TcpConnection e (Some l) c ch name f la pa w = Inr w'"
  obtains conn chan where "conns w' = (conns w)(c := conn)" and "chans w' = (chans w)(ch := chan)" and "loops w' = loops w"
    and "next_ptr w' = next_ptr w" and "trace w' = trace w" and "tc_channel conn = ch" and "tc_state conn = kConnecting"
    and "tc_loop conn = l" and "wired c chan" and "ch_events chan = 0" and "tcp_world.more w' = tcp_world.more w"
  using assms
  by (auto simp: new_TcpConnection_def CheckLoopNotNull_def Let_def andThen_eq_Inr SetKeepAlive_def wired_def new_Channel_def
      kNoneEvent_def SetReadCallback_def SetWriteCallback_def SetCloseCallback_def SetErrorCallback_def)

lemma local_address_trace: "\<exists>xs. trace (snd (local_address e f w)) = trace w @ map LogError xs"
  by (auto simp: local_address_def log_error_def split: prod.split sysres.split intro: exI [of _ "[]"] exI [of _ "[_]"])

lemma life_inv_queue_established:
  assumes "life_inv {c} B w" and "live c w" and "tc_loop (conns w c) = l" and "tc_state (conns w c) = kConnecting"
  shows "life_inv {} B (QueueInLoop e me l (FConnectEstablished c) w)"
proof -
  let ?w = "QueueInLoop e me l (FConnectEstablished c) w"
  obtain xs where tr: "trace ?w = trace w @ map LogError xs" using QueueInLoop_trace [of e me l "FConnectEstablished c" w] by blast
  have ok: "functor_ok ?w m f = functor_ok w m f" for m f by (simp add: functor_ok_def follow_up_def split: Functor.splits)
  have new: "functor_ok w l (FConnectEstablished c)" using assms(2,3) by (simp add: functor_ok_def)
  show ?thesis
    unfolding life_inv_def
  proof (intro conjI allI impI ballI)
    fix d assume d: "live d ?w"
    then show "phase_ok d ?w" using life_invD(2) [OF assms(1)] by (simp add: phase_ok_def conn_chan_def tr)
    show "count_list (queue B ?w (tc_loop (conns ?w d))) (FConnectEstablished d)
        = (if tc_state (conns ?w d) = kConnecting \<and> d \<notin> {} then 1 else 0)"
      using d life_invD(3) [OF assms(1), of d] assms(3,4) by (auto simp: queue_def)
  next
    fix m f assume "f \<in> set (queue B ?w m)"
    then show "functor_ok ?w m f"
      using new life_invD(4) [OF assms(1), of f m] unfolding ok by (auto simp: queue_def split: if_splits)
  next
    show "no_phantoms ?w" using life_invD(6) [OF assms(1)] by (simp add: no_phantoms_def)
  qed (use life_invD(1,5,7) [OF assms(1)] in \<open>auto simp: tr\<close>)
qed

lemma life_inv_NewConnection:
  assumes "NewConnection e me s connfd peer w = Inr w'" and "life_inv {} B w"
  shows "life_inv {} B w' \<and> grows w w'"
  using assms(1)
proof (cases rule: NewConnection_steps)
  case (1 sub_loop pool la w1 w2 w3)
  let ?c = "next_ptr w" and ?w0 = "on_server (\<lambda>sv. sv\<lparr>sv_pool := pool, sv_next_conn_id := sv_next_conn_id sv + 1\<rparr>) s w"
  obtain xs where tr: "trace w1 = trace w @ map LogError xs" using local_address_trace [of e connfd ?w0] 1(2) by auto
  from 1(3) obtain conn chan where new: "conns w2 = (conns w1)(?c := conn)" "chans w2 = (chans w1)(?c + 1 := chan)"
    "loops w2 = loops w1" "next_ptr w2 = ?c + 2" "trace w2 = trace w1"
    "tc_channel conn = ?c + 1" "tc_state conn = kConnecting" "tc_loop conn = sub_loop" "wired ?c chan" "ch_events chan = 0"
    "tcp_world.more w2 = tcp_world.more (w1\<lparr>next_ptr := ?c + 2\<rparr>)"
    by (rule new_TcpConnection_parts) simp
  let ?conn = "(Conn_SetCloseCallback (s, ?c) \<circ> SetWriteCompleteCallback (sv_write_complete_callback (servers w s))
     \<circ> SetMessageCallback (sv_message_callback (servers w s)) \<circ> SetConnectionCallback (sv_connection_callback (servers w s))) conn"
  have sel: "tc_channel ?conn = ?c + 1" "tc_state ?conn = kConnecting" "tc_close_callback ?conn = Some (s, ?c)" "tc_loop ?conn = sub_loop"
    by (simp_all add: new Conn_SetCloseCallback_def SetWriteCompleteCallback_def SetMessageCallback_def SetConnectionCallback_def)
  have w3: "conns w3 = (conns w)(?c := ?conn)" "chans w3 = (chans w)(?c + 1 := chan)" "loops w3 = loops w" "next_ptr w3 = ?c + 2"
    using new(1-4) 1(2) by (simp_all add: 1(4) fun_eq_iff)
  have hist: "history d (trace w3) = history d (trace w)" for d using new(5) by (simp add: 1(4) tr)
  have w1: "servers w1 = servers ?w0" "acceptors w1 = acceptors w"
    using more_server(1,2) [of w1 ?w0] 1(2) by (simp_all add: local_address_sel)
  have acc: "acceptors w3 = acceptors w" using more_server(2) [OF new(11)] w1 by (simp add: 1(4))
  have maps: "d = ?c \<or> sv_connections (servers w r) name = Some d" if "sv_connections (servers w3 r) name = Some d" for r name d
    using that more_server(1) [OF new(11)] w1 by (auto simp: 1(4) split: if_splits)
  note created = life_inv_created [OF assms(2) refl w3(4,1,2,3) hist sel(1-3) new(9,10) acc maps]
  have st: "tc_state (conns w3 ?c) = kConnecting" "tc_loop (conns w3 ?c) = sub_loop" using sel by (simp_all add: w3(1))
  from 1(5) have "life_inv {} B w' \<and> steady w3 w'"
    using life_inv_ConnectEstablished [OF _ created st(1), of e me w'] life_inv_queue_established [OF created st(2) st(1)]
    by (auto simp: RunInLoop_def split: if_splits)
  moreover have "grows w w3" by (simp add: grows_def w3(2,4))
  ultimately show ?thesis using grows_trans grows_steady by blast
qed

lemma life_inv_Acceptor_HandleRead:
  assumes "Acceptor_HandleRead e p junk (NewConnection e me) a w = Inr w'" and "life_inv {} B w"
  shows "life_inv {} B w' \<and> grows w w'"
proof -
  obtain r peer w1 where acc: "Accept e (new_InetAddress p junk 0 ''127.0.0.1'') (ac_socket (acceptors w a)) w = (r, peer, w1)"
    by (metis prod_cases3)
  then obtain k where w1: "w1 = w\<lparr>kern := k\<rparr>" by (auto simp: Accept_def split: prod.splits sysres.splits)
  have inv: "life_inv {} B w1" unfolding w1 by (rule life_inv_calm [OF calm_basic(2) assms(2)])
  have through: "life_inv {} B v \<and> grows w1 v" if "calm w1 v" for v
    using life_inv_calm [OF that inv] grows_steady [OF steady_calm [OF that]] by blast
  have closed: "calm w1 (w1\<lparr>kern := k2, trace := trace w1 @ [Closed f]\<rparr>)" for k2 f by (rule calm_same) simp_all
  have "life_inv {} B w' \<and> grows w1 w'"
    using assms(1) acc life_inv_NewConnection [OF _ inv] through [OF closed] through [OF calm_basic(1)]
      through [OF calm_trans [OF calm_basic(1) calm_basic(1)]]
    unfolding Acceptor_HandleRead_def
    by (auto simp: Let_def split: sysres.splits option.splits if_splits)
  then show ?thesis by (simp add: w1 grows_def)
qed

section \<open>Channels of loops and acceptors\<close>

text \<open>
  A change of interest in a channel that is not a connection's, as by \<open>Listen\<close> and the destructors of
  acceptors and loops, touches no connection.
\<close>

lemma life_inv_same:
  assumes "life_inv X B w" and "conns w' = conns w" and "loops w' = loops w" and "next_ptr w' = next_ptr w"
    and "\<And>a. ac_channel (acceptors w' a) = ac_channel (acceptors w a)" and "servers w' = servers w"
    and "\<And>c. history c (trace w') = history c (trace w)" and disp: "\<And>ch. disp (chans w' ch) = disp (chans w ch)"
    and "\<And>ch c. wired c (chans w ch) \<Longrightarrow> ch_events (chans w' ch) = ch_events (chans w ch)"
  shows "life_inv X B w'"
proof (rule life_inv_keep [OF assms(1)])
  fix c assume c: "live c w"
  then have "ch_events (conn_chan w' c) = ch_events (conn_chan w c)" using assms(9) [of c] by (simp add: live_def conn_chan_def assms(2))
  then show "phase_ok c w'" using life_invD(2) [OF assms(1) c] by (simp add: phase_ok_def assms)
qed (auto simp: assms disp_cbs [OF disp])

lemma interest_parts:
  assumes "Channel_Update e ch (on_chan (\<lambda>a. SetEvents (m a) a) ch w) = Inr w'"
  shows "conns w' = conns w" and "next_ptr w' = next_ptr w" and "servers w' = servers w" and "acceptors w' = acceptors w"
    and "loops w' = loops w" and "disp (chans w' d) = disp (chans w d)" and "history c (trace w') = history c (trace w)"
    and "d \<noteq> ch \<Longrightarrow> ch_events (chans w' d) = ch_events (chans w d)"
proof -
  note fr = Channel_Update_frame [OF assms] and con = Channel_Update_conns [OF assms]
  obtain i where ch: "chans w' = (chans w)(ch := SetIndex i (SetEvents (m (chans w ch)) (chans w ch)))" using fr(4) by auto
  obtain xs where tr: "trace w' = trace w @ map LogError xs" using Channel_trace(1) [OF assms] by auto
  show "conns w' = conns w" "next_ptr w' = next_ptr w" "servers w' = servers w" "acceptors w' = acceptors w" "loops w' = loops w"
    using con fr(1) more_server [of w' w] by (simp_all add: on_chan_def)
  show "disp (chans w' d) = disp (chans w d)" "d \<noteq> ch \<Longrightarrow> ch_events (chans w' d) = ch_events (chans w d)" by (simp_all add: ch)
  show "history c (trace w') = history c (trace w)" by (simp add: tr)
qed

lemma listens_foreign: "listens a w \<Longrightarrow> \<not> wired c (chans w (ac_channel (acceptors w a)))"
  by (simp add: listens_def wired_def)

lemma Listen_parts:
  assumes "Listen e a w = Inr w'"
  shows "conns w' = conns w" and "next_ptr w' = next_ptr w" and "servers w' = servers w" and "disp (chans w' d) = disp (chans w d)"
    and "ac_channel (acceptors w' b) = ac_channel (acceptors w b)" and "loops w' = loops w"
    and "history c (trace w') = history c (trace w)"
    and "d \<noteq> ac_channel (acceptors w a) \<Longrightarrow> ch_events (chans w' d) = ch_events (chans w d)"
proof -
  let ?w1 = "on_acceptor (\<lambda>ac. ac\<lparr>ac_listening := True\<rparr>) a w"
  let ?w2 = "Socket_Listen e (ac_socket (acceptors ?w1 a)) ?w1"
  have w2: "chans ?w2 = chans w" "servers ?w2 = servers w" "\<exists>xs. trace ?w2 = trace w @ map LogError xs"
    by (auto simp: Socket_Listen_def split: prod.split sysres.split intro: exI [of _ "[]"] exI [of _ "[_]"])
  have "Channel_Update e (ac_channel (acceptors w a))
      (on_chan (\<lambda>ch. SetEvents (ch_events ch OR kReadEvent) ch) (ac_channel (acceptors w a)) ?w2) = Inr w'"
    using assms by (simp add: Listen_def Let_def EnableReading_def)
  note parts = interest_parts [OF this]
  show "conns w' = conns w" "next_ptr w' = next_ptr w" "servers w' = servers w" "disp (chans w' d) = disp (chans w d)"
    "ac_channel (acceptors w' b) = ac_channel (acceptors w b)" "loops w' = loops w" "history c (trace w') = history c (trace w)"
    "d \<noteq> ac_channel (acceptors w a) \<Longrightarrow> ch_events (chans w' d) = ch_events (chans w d)"
    using parts w2(3) by (auto simp: w2(1,2))
qed

lemma life_inv_Listen:
  assumes "Listen e a w = Inr w'" and "life_inv X B w" and "listens a w"
  shows "life_inv X B w'"
proof (rule life_inv_same [OF assms(2)])
  show "ch_events (chans w' ch) = ch_events (chans w ch)" if "wired c (chans w ch)" for ch c
    by (rule Listen_parts(8) [OF assms(1)]) (use that listens_foreign [OF assms(3)] in blast)
qed (simp_all add: Listen_parts [OF assms(1)])

text \<open>The ends of acceptors and loops.\<close>

lemma life_inv_retire:
  assumes "DisableAll (Channel_Update e) ch w = Inr w1" and "Channel_Remove e ch w1 = Inr w2" and "life_inv X B w"
    and "\<And>c. \<not> wired c (chans w ch)"
  shows "life_inv X B w2"
proof -
  note parts = interest_parts [OF assms(1) [unfolded DisableAll_def]]
  have "life_inv X B w1"
  proof (rule life_inv_same [OF assms(3)])
    show "ch_events (chans w1 d) = ch_events (chans w d)" if "wired c (chans w d)" for d c
      by (rule parts(8)) (use that assms(4) in blast)
  qed (simp_all add: parts)
  then show ?thesis by (rule life_inv_calm [OF calm_Channel_Remove [OF assms(2)]])
qed

lemma life_inv_delete_Acceptor:
  assumes "delete_Acceptor e a w = Inr w'" and "life_inv X B w" and "listens a w"
  shows "life_inv X B w'"
proof -
  from assms(1) obtain w1 w2 where down: "DisableAll (Channel_Update e) (ac_channel (acceptors w a)) w = Inr w1"
    and gone: "Channel_Remove e (ac_channel (acceptors w1 a)) w1 = Inr w2" and w': "w' = delete_Socket e (ac_socket (acceptors w2 a)) w2"
    by (auto simp: delete_Acceptor_def andThen_eq_Inr)
  have "acceptors w1 = acceptors w" using interest_parts(4) [OF down [unfolded DisableAll_def]] .
  with gone have "life_inv X B w2" using life_inv_retire [OF down _ assms(2) listens_foreign [OF assms(3)]] by simp
  then show ?thesis by (rule life_inv_same) (simp_all add: w' delete_Socket_def)
qed

lemma life_inv_delete_EventLoop:
  assumes "delete_EventLoop e me l w = Inr w'" and "life_inv X B w"
    and "ch_read_callback (chans w (el_wakeup_channel (loops w l))) = Some (LoopHandleRead l)"
  shows "life_inv X B w'"
proof -
  let ?ch = "el_wakeup_channel (loops w l)"
  from assms(1) obtain w1 w2 where down: "DisableAll (Channel_Update e) ?ch w = Inr w1" and gone: "Channel_Remove e ?ch w1 = Inr w2"
    and w': "w' = w2\<lparr>kern := sys_close e (po_epoll_fd (pollers w2 l)) (sys_close e (el_wakeup_fd (loops w2 l)) (kern w2)),
      trace := trace w2 @ [Closed (el_wakeup_fd (loops w2 l))], loop_in_this_thread := (loop_in_this_thread w2)(me := None)\<rparr>"
    by (auto simp: delete_EventLoop_def delete_EpollPoller_def Let_def andThen_eq_Inr)
  have "life_inv X B w2" by (rule life_inv_retire [OF down gone assms(2)]) (use assms(3) in \<open>simp add: wired_def\<close>)
  then show ?thesis by (rule life_inv_same) (simp_all add: w')
qed

section \<open>The closures\<close>

text \<open>The connection whose establishing a functor is.\<close>

definition establishing :: "Functor \<Rightarrow> ptr set" where
  "establishing f = {c. f = FConnectEstablished c}"

lemma calm_run_follow_up:
  assumes "run_functor e me f w = Inr w'" and "follow_up w f" and "no_phantoms w"
  shows "calm w w'"
proof (cases f)
  case (FUser n)
  then show ?thesis using calm_user_callbacks(3) [OF assms(3)] assms(1) by simp
qed (use assms in \<open>auto simp: run_functor_def follow_up_def
      intro: calm_SendInLoop calm_send_buffer_body calm_ShutdownInLoop calm_user_callbacks\<close>)

lemma life_inv_run_functor:
  assumes "run_functor e me f w = Inr w'" and "life_inv (establishing f) B w"
    and "functor_ok w l f" and "\<And>c. f = FConnectEstablished c \<Longrightarrow> tc_state (conns w c) = kConnecting"
  shows "life_inv {} B w'"
proof (cases "follow_up w f")
  case True
  then have "establishing f = {}" by (auto simp: establishing_def follow_up_def)
  then show ?thesis using life_inv_calm [OF calm_run_follow_up [OF assms(1) True life_invD(6) [OF assms(2)]] assms(2)] by simp
next
  case False
  with assms(3) show ?thesis
  proof (cases f)
    case (FConnectEstablished c)
    then show ?thesis
      using life_inv_ConnectEstablished [of e me c w w' "{c}" B] assms by (simp add: run_functor_def functor_ok_def establishing_def)
  next
    case (FConnectDestroyed c)
    then show ?thesis
      using life_inv_ConnectDestroyed [of e me c w w' "{}" B] assms by (simp add: run_functor_def functor_ok_def establishing_def)
  next
    case (FRemoveConnectionInLoop s c)
    then show ?thesis
      using life_inv_RemoveConnection(1) [of "{}" B w c e me s w'] assms by (simp add: run_functor_def functor_ok_def establishing_def)
  next
    case (FListen a)
    then show ?thesis
      using life_inv_Listen [of e a w w' "{}" B] assms by (simp add: run_functor_def functor_ok_def establishing_def)
  qed (simp_all add: functor_ok_def)
qed

section \<open>Dispatch\<close>

text \<open>
  A hang-up that is reported without readable data comes without urgent data; otherwise close and read handler
  would both run on the closed connection.
\<close>

definition closes_once :: "bits32 \<Rightarrow> bool" where
  "closes_once r \<longleftrightarrow> (r AND EPOLLHUP \<noteq> 0 \<and> r AND EPOLLIN = 0 \<longrightarrow> r AND EPOLLPRI = 0)"

lemma closes_once_not_read:
  assumes "closes_once r" and "r AND EPOLLHUP \<noteq> 0" and "r AND EPOLLIN = 0"
  shows "r AND (EPOLLIN OR EPOLLPRI) = 0"
  using assms by (simp add: closes_once_def bit.conj_disj_distrib)

lemma fire_cases:
  assumes "fire run t test slot ch w = Inr w'"
  obtains "\<not> test (ch_revents (chans w ch)) \<or> slot (chans w ch) = None" and "w' = w"
  | cb where "test (ch_revents (chans w ch))" and "slot (chans w ch) = Some cb" and "run cb t w = Inr w'"
  using assms by (auto simp: fire_def split: if_splits option.splits)

text \<open>The channel of an active connection.\<close>

lemma life_inv_dispatch_connection:
  assumes "HandleEventWithGuard (run_callback e p junk me) t ch w = Inr w'" and "life_inv X B w"
    and "live c w" and "ch = tc_channel (conns w c)" and "ch_events (chans w ch) \<noteq> 0" and "closes_once (ch_revents (chans w ch))"
  shows "life_inv X B w'"
proof -
  have wired: "wired c (chans v ch) \<and> live c v \<and> ch_revents (chans v ch) = ch_revents (chans w ch)" if "steady w v" for v
    using live_steady [OF that, of c] same_connD(6) [OF steadyD(2) [OF that], of c] steadyD(3) [OF that, of ch] assms(3,4)
    by (simp add: live_def conn_chan_def disp_def)
  have act: "active (tc_state (conns w c))"
    using interested_active [OF assms(2,3)] assms(4,5) by (simp add: conn_chan_def)
  let ?r = "ch_revents (chans w ch)" and ?hup = "\<lambda>r :: bits32. r AND EPOLLHUP \<noteq> 0 \<and> r AND EPOLLIN = 0"
  from assms(1) obtain w1 w2 w3 where
    closing: "fire (run_callback e p junk me) t ?hup ch_close_callback ch w = Inr w1"
    and error: "fire (run_callback e p junk me) t (\<lambda>r. r AND EPOLLERR \<noteq> 0) ch_error_callback ch w1 = Inr w2"
    and reading: "fire (run_callback e p junk me) t (\<lambda>r. r AND (EPOLLIN OR EPOLLPRI) \<noteq> 0) ch_read_callback ch w2 = Inr w3"
    and writing: "fire (run_callback e p junk me) t (\<lambda>r. r AND EPOLLOUT \<noteq> 0) ch_write_callback ch w3 = Inr w'"
    by (auto simp: HandleEventWithGuard_def andThen_eq_Inr)
  have w1: "life_inv X B w1 \<and> steady w w1 \<and> (?hup ?r \<or> w1 = w)"
    using closing wired [OF steady_refl] life_inv_HandleClose [OF _ assms(2,3) act] assms(2)
    by (elim fire_cases) (auto simp: wired_def run_callback_def)
  have w2: "life_inv X B w2 \<and> calm w1 w2"
    using error wired [of w1] w1 life_inv_calm [OF calm_HandleError, of X B w1 e c]
    by (elim fire_cases) (auto simp: wired_def run_callback_def calm_HandleError)
  then have steady2: "steady w w2" using w1 steady_trans steady_calm by blast
  have w3: "life_inv X B w3 \<and> steady w2 w3"
  proof (cases "?hup ?r")
    case True
    then have "?r AND (EPOLLIN OR EPOLLPRI) = 0" using closes_once_not_read assms(6) by blast
    then have "w3 = w2" using reading wired [OF steady2] by (elim fire_cases) auto
    then show ?thesis using w2 by simp
  next
    case False
    then have "calm w w2" using w1 w2 by blast
    then have act2: "active (tc_state (conns w2 c))" using calmD(4) act by blast
    show ?thesis
      using reading wired [OF steady2] w2 life_inv_HandleRead [OF _ _ _ act2, of e me t w3 X B]
      by (elim fire_cases) (auto simp: wired_def run_callback_def)
  qed
  then have "steady w w3" using steady2 steady_trans by blast
  then show ?thesis
    using writing wired [of w3] w3 life_inv_HandleWrite [of e me c w3 w' X B]
    by (elim fire_cases) (auto simp: wired_def run_callback_def)
qed

lemma calm_EventLoop_HandleRead: "calm w (EventLoop_HandleRead e l w)"
proof -
  have "tcp_world.more (EventLoop_HandleRead e l w) = tcp_world.more w"
    using more_conns(2) [OF EventLoop_HandleRead_frame(5)] .
  moreover have "\<exists>xs. trace (EventLoop_HandleRead e l w) = trace w @ map LogError xs"
    by (auto simp: EventLoop_HandleRead_def split: prod.split intro: exI [of _ "[]"] exI [of _ "[_]"])
  ultimately show ?thesis by (auto intro!: calm_same)
qed

text \<open>The channel of a loop or an acceptor.\<close>

lemma life_inv_other_callback:
  assumes "run_callback e p junk me cb t w = Inr w'" and "life_inv {} B w" and "conn_callback cb = None"
  shows "life_inv {} B w' \<and> grows w w'"
proof (cases cb)
  case (LoopHandleRead l)
  then have "calm w w'" using assms(1) calm_EventLoop_HandleRead by (auto simp: run_callback_def)
  then show ?thesis using life_inv_calm assms(2) grows_steady steady_calm by blast
next
  case (AcceptorHandleRead a)
  then show ?thesis using assms(1,2) life_inv_Acceptor_HandleRead by (simp add: run_callback_def)
qed (use assms(3) in \<open>simp_all add: conn_callback_def\<close>)

lemma life_inv_fire_other:
  assumes "fire (run_callback e p junk me) t test slot ch v = Inr v'"
    and "life_inv {} B v \<and> grows w v" and "ch < next_ptr w" and "\<And>cb. Some cb \<in> stored (chans w ch) \<Longrightarrow> conn_callback cb = None"
    and "\<And>a. slot a \<in> stored a"
  shows "life_inv {} B v' \<and> grows w v'"
  using assms(1)
proof (cases rule: fire_cases)
  case (2 cb)
  have "stored (chans v ch) = stored (chans w ch)" using assms(2,3) by (intro stored_cbs) (simp add: grows_def)
  then have "conn_callback cb = None" using 2(2) assms(4,5) by metis
  then show ?thesis using life_inv_other_callback [OF 2(3)] assms(2) grows_trans by blast
qed (use assms(2) in simp)

lemma life_inv_dispatch_other:
  assumes "HandleEventWithGuard (run_callback e p junk me) t ch w = Inr w'" and "life_inv {} B w"
    and "ch < next_ptr w" and "\<And>cb. Some cb \<in> stored (chans w ch) \<Longrightarrow> conn_callback cb = None"
  shows "life_inv {} B w'"
proof -
  have start: "life_inv {} B w \<and> grows w w" using assms(2) by (simp add: grows_def)
  have slots: "ch_close_callback a \<in> stored a" "ch_error_callback a \<in> stored a" "ch_read_callback a \<in> stored a"
    "ch_write_callback a \<in> stored a" for a
    by (simp_all add: stored_def)
  note fires = life_inv_fire_other [OF _ _ assms(3,4)]
  from assms(1) obtain w1 w2 w3 where
    closing: "fire (run_callback e p junk me) t (\<lambda>r. r AND EPOLLHUP \<noteq> 0 \<and> r AND EPOLLIN = 0) ch_close_callback ch w = Inr w1"
    and error: "fire (run_callback e p junk me) t (\<lambda>r. r AND EPOLLERR \<noteq> 0) ch_error_callback ch w1 = Inr w2"
    and reading: "fire (run_callback e p junk me) t (\<lambda>r. r AND (EPOLLIN OR EPOLLPRI) \<noteq> 0) ch_read_callback ch w2 = Inr w3"
    and writing: "fire (run_callback e p junk me) t (\<lambda>r. r AND EPOLLOUT \<noteq> 0) ch_write_callback ch w3 = Inr w'"
    by (auto simp: HandleEventWithGuard_def andThen_eq_Inr)
  from fires [OF writing fires [OF reading fires [OF error fires [OF closing start _ slots(1)] _ slots(2)] _ slots(3)] _ slots(4)]
  show ?thesis by simp
qed

lemma life_inv_HandleEvent:
  assumes "HandleEvent (run_callback e p junk me) lock t ch w = Inr w'" and "life_inv {} B w"
    and "ch < next_ptr w" and "ch_events (chans w ch) \<noteq> 0" and "closes_once (ch_revents (chans w ch))"
  shows "life_inv {} B w'"
proof (cases "\<exists>cb c. Some cb \<in> stored (chans w ch) \<and> conn_callback cb = Some c")
  case True
  then obtain c where c: "live c w" "ch = tc_channel (conns w c)" using life_invD(1) [OF assms(2)] by metis
  show ?thesis
    using assms(1,2) life_inv_dispatch_connection [OF _ assms(2) c assms(4,5)] unfolding HandleEvent_def
    by (simp split: if_splits)
next
  case False
  then have none: "conn_callback cb = None" if "Some cb \<in> stored (chans w ch)" for cb using that by (cases "conn_callback cb") auto
  show ?thesis
    using assms(1,2) life_inv_dispatch_other [OF _ assms(2,3) none] unfolding HandleEvent_def by (simp split: if_splits)
qed

end
