(* ===== verification/Callback_Order.thy ===== *)
theory Callback_Order
  imports Life_Invariant
begin

text \<open>
  The order in which the application sees the callbacks of a connection, over the whole running
  program: the steps of a server with any number of threads, which keep the invariant of \<open>Life_Invariant\<close>; the
  construction of a server, after which it holds; the protocol; and that the loop of the code and the loop of the
  server's destructor take exactly such steps.
\<close>

section \<open>The running program\<close>

text \<open>
  When a loop may dispatch a channel it found active: the channel exists, belongs to the loop and is
  interested in something, and what occurred closes it at most once. A channel that has withdrawn all its
  interest is not registered with the kernel and so not reported, as \<open>Poll_reports_registered_channels\<close> has it.
\<close>

definition current :: "ptr \<Rightarrow> ptr \<Rightarrow> ('k, 'm) server_world_scheme \<Rightarrow> bool" where
  "current l ch w \<longleftrightarrow> ch < next_ptr w \<and> ch_loop (chans w ch) = l \<and> ch_events (chans w ch) \<noteq> 0
     \<and> closes_once (ch_revents (chans w ch))"

text \<open>
  The steps of a running server with any number of threads, with the batches \<open>B\<close> that its loops have
  taken out of their queues: the kernel moves on; a loop enters \<open>Loop\<close>, polls, dispatches a channel, takes its
  pending functors, runs them one by one, ends the batch, leaves \<open>Loop\<close>; any thread calls the library; the destructor
  of a server gives up a connection, that of an acceptor or a loop ends it.
\<close>

inductive system_step ::
  "'k env \<Rightarrow> inet \<Rightarrow> InetAddress \<Rightarrow> (ptr \<Rightarrow> ('k, 'm) server_world_scheme \<Rightarrow> bool) \<Rightarrow>
   (ptr \<Rightarrow> Functor list) \<times> ('k, 'm) server_world_scheme \<Rightarrow> (ptr \<Rightarrow> Functor list) \<times> ('k, 'm) server_world_scheme \<Rightarrow> bool"
  for e :: "'k env" and p :: inet and junk :: InetAddress and lock :: "ptr \<Rightarrow> ('k, 'm) server_world_scheme \<Rightarrow> bool" where
  kernel_moves: "system_step e p junk lock (B, w) (B, w\<lparr>kern := k\<rparr>)"
| loop_starts: "system_step e p junk lock (B, w) (B, on_loop (\<lambda>lp. lp\<lparr>el_looping := True, el_quit := False\<rparr>) l w)"
| loop_polls: "Poll e l kPollTimeMs [] (on_loop (\<lambda>lp. lp\<lparr>el_active_channels := []\<rparr>) l w) = (now, chs, w1) \<Longrightarrow>
    system_step e p junk lock (B, w) (B, on_loop (\<lambda>lp. lp\<lparr>el_poll_return_time := now, el_active_channels := chs\<rparr>) l w1)"
| loop_dispatches: "current l ch w \<Longrightarrow> HandleEvent (run_callback e p junk (el_thread_id (loops w l))) lock t ch w = Inr w' \<Longrightarrow>
    system_step e p junk lock (B, w) (B, w')"
| loop_takes_batch: "B l = [] \<Longrightarrow> system_step e p junk lock (B, w) (B(l := el_pending_functors (loops w l)),
    on_loop (\<lambda>lp. lp\<lparr>el_calling_pending_functors := True, el_pending_functors := []\<rparr>) l w)"
| loop_runs_functor: "B l = f # fs \<Longrightarrow> run_functor e (el_thread_id (loops w l)) f w = Inr w' \<Longrightarrow>
    system_step e p junk lock (B, w) (B(l := fs), w')"
| loop_ends_batch: "B l = [] \<Longrightarrow>
    system_step e p junk lock (B, w) (B, on_loop (\<lambda>lp. lp\<lparr>el_calling_pending_functors := False\<rparr>) l w)"
| loop_returns: "system_step e p junk lock (B, w) (B, on_loop (\<lambda>lp. lp\<lparr>el_looping := False\<rparr>) l w)"
| thread_calls: "perform e me buf a w = Inr w' \<Longrightarrow> system_step e p junk lock (B, w) (B, w')"
| server_drops: "drop_connection e me s name w = Inr w' \<Longrightarrow> system_step e p junk lock (B, w) (B, w')"
| acceptor_ends: "listens a w \<Longrightarrow> delete_Acceptor e a w = Inr w' \<Longrightarrow> system_step e p junk lock (B, w) (B, w')"
| loop_ends: "ch_read_callback (chans w (el_wakeup_channel (loops w l))) = Some (LoopHandleRead l) \<Longrightarrow>
    delete_EventLoop e me l w = Inr w' \<Longrightarrow> system_step e p junk lock (B, w) (B, w')"

lemma life_inv_requeue:
  assumes "life_inv X B w" and "conns w' = conns w" and "chans w' = chans w" and "trace w' = trace w" and more: "tcp_world.more w' = tcp_world.more w"
    and "\<And>l. queue B' w' l = queue B w l"
  shows "life_inv X B' w'"
proof -
  note same = more_server [OF more]
  have live: "live c w' = live c w" for c by (simp add: live_def conn_chan_def assms same)
  have "listens a w' = listens a w" for a by (simp add: listens_def assms same)
  with live have "functor_ok w' l f = functor_ok w l f" for l f
    by (simp add: functor_ok_def follow_up_def assms split: Functor.splits)
  with live assms show ?thesis by (simp add: life_inv_def phase_ok_def conn_chan_def no_phantoms_def same)
qed

lemma life_inv_Poll:
  assumes "Poll e l t chs w = (now, chs', w')" and "life_inv {} B w"
  shows "life_inv {} B w'"
proof -
  have "\<exists>xs. trace w' = trace w @ map LogError xs"
    using assms(1) by (auto simp: Poll_def Let_def case_prod_beta' FillActiveChannels_spec(3) split: sysres.splits if_splits prod.splits
        intro: exI [of _ "[]"] exI [of _ "[_]"])
  then obtain xs where tr: "trace w' = trace w @ map LogError xs" by blast
  have ch: "wiring (chans w' c) = wiring (chans w c) \<and> ch_events (chans w' c) = ch_events (chans w c)" for c
    using assms(1) by (auto simp: Poll_def Let_def case_prod_beta' FillActiveChannels_spec(6,7) split: sysres.splits if_splits prod.splits)
  note same = Poll_loops [OF assms(1)]
  have con: "conns w' = conns w" "next_ptr w' = next_ptr w" "servers w' = servers w" "acceptors w' = acceptors w"
    using more_conns [of w' w] more_server [of w' w] same by simp_all
  have "cbs (chans w' c) = cbs (chans w c)" for c using ch [of c] by (simp add: cbs_def wiring_def)
  then show ?thesis
    by (intro life_inv_keep [OF assms(2) con(2)]) (use life_invD(2) [OF assms(2)] in \<open>auto simp: con same tr ch phase_ok_def conn_chan_def\<close>)
qed

lemma life_inv_dequeue:
  assumes "life_inv {} B w" and "B l = f # fs"
  shows "life_inv (establishing f) (B(l := fs)) w" and "functor_ok w l f"
    and "f = FConnectEstablished c \<Longrightarrow> tc_state (conns w c) = kConnecting"
proof -
  show ok: "functor_ok w l f" using life_invD(4) [OF assms(1), of f l] assms(2) by (simp add: queue_def)
  have queue: "queue B w m = (if m = l then f # queue (B(l := fs)) w l else queue (B(l := fs)) w m)" for m
    using assms(2) by (simp add: queue_def)
  show "tc_state (conns w c) = kConnecting" if "f = FConnectEstablished c"
    using life_invD(3) [OF assms(1), of c] ok that queue [of l] by (auto simp: functor_ok_def split: if_splits)
  show "life_inv (establishing f) (B(l := fs)) w"
    unfolding life_inv_def
  proof (intro conjI allI impI ballI)
    fix c assume c: "live c w"
    then show "phase_ok c w" by (rule life_invD(2) [OF assms(1)])
    show "count_list (queue (B(l := fs)) w (tc_loop (conns w c))) (FConnectEstablished c)
        = (if tc_state (conns w c) = kConnecting \<and> c \<notin> establishing f then 1 else 0)"
      using life_invD(3) [OF assms(1) c] queue [of "tc_loop (conns w c)"] ok
      by (auto simp: establishing_def functor_ok_def split: if_splits)
  next
    fix m g assume "g \<in> set (queue (B(l := fs)) w m)"
    then show "functor_ok w m g" using life_invD(4) [OF assms(1), of g m] queue [of m] by (auto split: if_splits)
  qed (use life_invD(1,5-7) [OF assms(1)] in auto)
qed

lemma life_inv_drop_connection:
  assumes "drop_connection e me s name w = Inr w'" and "life_inv X B w"
  shows "life_inv X B w'"
proof (cases "sv_connections (servers w s) name")
  case (Some c)
  let ?w = "on_server (\<lambda>sv. sv\<lparr>sv_connections := (sv_connections sv)(name := None)\<rparr>) s w"
  have inv: "life_inv X B ?w" and live: "live c ?w" using assms(2) life_invD(7) [OF assms(2) Some] by simp_all
  then have "functor_ok ?w l (FConnectDestroyed c)" for l by (simp add: functor_ok_def)
  then show ?thesis
    using assms(1) life_inv_ConnectDestroyed [OF _ inv live] life_inv_queue [OF inv]
    by (auto simp: drop_connection_def Some RunInLoop_def split: if_splits)
qed (use assms in \<open>simp add: drop_connection_def\<close>)

lemma life_inv_system_step:
  assumes "system_step e p junk lock (B, w) (B', w')" and "life_inv {} B w"
  shows "life_inv {} B' w'"
  using assms(1)
proof cases
  case (kernel_moves k)
  then show ?thesis using life_inv_calm [OF calm_basic(2) assms(2)] by simp
next
  case (loop_starts l)
  show ?thesis
    by (rule life_inv_requeue [OF assms(2)]) (use loop_starts in \<open>auto simp: queue_def on_loop_def\<close>)
next
  case (loop_polls l now chs w1)
  have "life_inv {} B (on_loop (\<lambda>lp. lp\<lparr>el_active_channels := []\<rparr>) l w)"
    by (rule life_inv_requeue [OF assms(2)]) (auto simp: queue_def on_loop_def)
  then have "life_inv {} B w1" by (rule life_inv_Poll [OF loop_polls(3)])
  then have "life_inv {} B (on_loop f l w1)" if "\<And>lp. el_pending_functors (f lp) = el_pending_functors lp" for f
    by (rule life_inv_requeue) (auto simp: queue_def on_loop_def that)
  then show ?thesis using loop_polls(1,2) by simp
next
  case (loop_dispatches l ch t)
  then have ch: "ch < next_ptr w" "ch_events (chans w ch) \<noteq> 0" "closes_once (ch_revents (chans w ch))" by (simp_all add: current_def)
  show ?thesis
    unfolding loop_dispatches(1) by (rule life_inv_HandleEvent [OF loop_dispatches(3) assms(2) ch])
next
  case (loop_takes_batch l)
  show ?thesis
    by (rule life_inv_requeue [OF assms(2)]) (use loop_takes_batch in \<open>auto simp: queue_def on_loop_def\<close>)
next
  case (loop_runs_functor l f fs)
  note dequeued = life_inv_dequeue [OF assms(2) loop_runs_functor(2)]
  show ?thesis
    unfolding loop_runs_functor(1) by (rule life_inv_run_functor [OF loop_runs_functor(3) dequeued])
next
  case (loop_ends_batch l)
  show ?thesis
    by (rule life_inv_requeue [OF assms(2)]) (use loop_ends_batch in \<open>auto simp: queue_def on_loop_def\<close>)
next
  case (loop_returns l)
  show ?thesis
    by (rule life_inv_requeue [OF assms(2)]) (use loop_returns in \<open>auto simp: queue_def on_loop_def\<close>)
next
  case (thread_calls a me buf)
  show ?thesis
    unfolding thread_calls(1) by (rule life_inv_calm [OF calm_perform [OF thread_calls(2) life_invD(6) [OF assms(2)]] assms(2)])
next
  case (server_drops me s name)
  show ?thesis unfolding server_drops(1) by (rule life_inv_drop_connection [OF server_drops(2) assms(2)])
next
  case (acceptor_ends a)
  show ?thesis unfolding acceptor_ends(1) by (rule life_inv_delete_Acceptor [OF acceptor_ends(3) assms(2) acceptor_ends(2)])
next
  case (loop_ends l me)
  show ?thesis unfolding loop_ends(1) by (rule life_inv_delete_EventLoop [OF loop_ends(3) assms(2) loop_ends(2)])
qed

text \<open>
  A server before its first connection: no channel calls a connection, nothing but application functors
  and the server's own \<open>Listen\<close> is queued, no object in the store of connections is a connected one, and no
  server has a connection.
\<close>

definition no_connections :: "('k, 'm) server_world_scheme \<Rightarrow> bool" where
  "no_connections w \<longleftrightarrow> (\<forall>ch cb. Some cb \<in> stored (chans w ch) \<longrightarrow> conn_callback cb = None)
     \<and> (\<forall>l. \<forall>f \<in> set (el_pending_functors (loops w l)). (\<exists>n. f = FUser n) \<or> (\<exists>a. f = FListen a \<and> listens a w))
     \<and> (\<forall>s name. sv_connections (servers w s) name = None) \<and> (\<forall>c. history c (trace w) = [] \<and> tc_state (conns w c) \<noteq> kConnected)"

lemma no_connectionsD:
  assumes "no_connections w"
  shows "Some cb \<in> stored (chans w ch) \<Longrightarrow> conn_callback cb = None"
    and "f \<in> set (el_pending_functors (loops w l)) \<Longrightarrow> (\<exists>n. f = FUser n) \<or> (\<exists>a. f = FListen a \<and> listens a w)"
    and "sv_connections (servers w s) name = None" and "history c (trace w) = []" and "tc_state (conns w c) \<noteq> kConnected"
    and "\<not> live c w"
proof -
  show none: "conn_callback cb = None" if "Some cb \<in> stored (chans w ch)" for ch cb
    using assms that unfolding no_connections_def by blast
  show "\<not> live c w"
  proof
    assume "live c w"
    then have "Some (ConnHandleRead c) \<in> stored (conn_chan w c)" by (simp add: live_def wired_def stored_def)
    from none [OF this [unfolded conn_chan_def]] show False by (simp add: conn_callback_def)
  qed
qed (use assms in \<open>simp_all add: no_connections_def\<close>)

lemma life_inv_no_connections:
  assumes "no_connections w"
  shows "life_inv {} (\<lambda>_. []) w"
proof -
  note none = no_connectionsD [OF assms]
  have "functor_ok w l f" if "f \<in> set (el_pending_functors (loops w l))" for l f
    using none(2) [OF that] by (auto simp: functor_ok_def follow_up_def)
  then show ?thesis using none by (auto simp: life_inv_def no_phantoms_def queue_def)
qed

lemma life_inv_system_steps:
  assumes "(system_step e p junk lock)\<^sup>*\<^sup>* (B, w) (B', w')" and "life_inv {} B w"
  shows "life_inv {} B' w'"
  using assms(1)
proof (induction rule: rtranclp_induct2)
  case (step B1 w1 B2 w2)
  then show ?case using life_inv_system_step by blast
qed (rule assms(2))

section \<open>The construction of a server\<close>

text \<open>
  A world without connections stays one while servers, their acceptors and their pools are built
  and started, provided that the objects built are not those of an acceptor already there.
\<close>

lemma no_connections_keep:
  assumes inv: "no_connections w"
    and slots: "\<And>ch cb. Some cb \<in> stored (chans w' ch) \<Longrightarrow> Some cb \<in> stored (chans w ch) \<or> conn_callback cb = None"
    and listens: "\<And>a. listens a w \<Longrightarrow> listens a w'"
    and queued: "\<And>l f. f \<in> set (el_pending_functors (loops w' l)) \<Longrightarrow>
      f \<in> set (el_pending_functors (loops w l)) \<or> (\<exists>n. f = FUser n) \<or> (\<exists>a. f = FListen a \<and> listens a w')"
    and maps: "\<And>s name. sv_connections (servers w' s) name = None"
    and past: "\<And>c. history c (trace w') = history c (trace w)"
    and idle: "\<And>c. tc_state (conns w' c) \<noteq> kConnected"
  shows "no_connections w'"
  unfolding no_connections_def
proof (intro conjI allI impI ballI)
  fix l f assume "f \<in> set (el_pending_functors (loops w' l))"
  then show "(\<exists>n. f = FUser n) \<or> (\<exists>a. f = FListen a \<and> listens a w')"
    using queued no_connectionsD(2) [OF inv] listens by blast
qed (use slots no_connectionsD(1) [OF inv] maps past no_connectionsD(4) [OF inv] idle in \<open>auto\<close>)

definition same_acceptors :: "('k, 'm) server_world_scheme \<Rightarrow> ('k, 'm) server_world_scheme \<Rightarrow> bool" where
  "same_acceptors w w' \<longleftrightarrow> acceptors w' = acceptors w \<and> (\<forall>a. listens a w' = listens a w)"

lemma same_acceptors_trans [trans]: "same_acceptors a b \<Longrightarrow> same_acceptors b c \<Longrightarrow> same_acceptors a c"
  by (simp add: same_acceptors_def)

lemma same_acceptors_refl [simp]: "same_acceptors w w"
  by (simp add: same_acceptors_def)

lemma no_connections_calm:
  assumes "calm w w'" and "no_connections w"
  shows "no_connections w' \<and> same_acceptors w w'"
proof -
  note none = no_connectionsD [OF assms(2)]
  have listens: "listens a w' = listens a w" for a
    by (rule listens_cong) (simp_all add: calm_ids [OF assms(1)] calm_acceptors [OF assms(1)] disp_cbs [OF calmD(3) [OF assms(1)]])
  have "no_connections w'"
  proof (rule no_connections_keep [OF assms(2)])
    fix l f assume "f \<in> set (el_pending_functors (loops w' l))"
    moreover have "\<exists>n. f = FUser n" if "follow_up w f" using that none(6) by (auto simp: follow_up_def split: Functor.splits)
    ultimately show "f \<in> set (el_pending_functors (loops w l)) \<or> (\<exists>n. f = FUser n) \<or> (\<exists>a. f = FListen a \<and> listens a w')"
      using calmD(7) [OF assms(1), of l] by auto
  next
    fix ch cb assume "Some cb \<in> stored (chans w' ch)"
    then show "Some cb \<in> stored (chans w ch) \<or> conn_callback cb = None" by (simp add: stored_cbs [OF disp_cbs [OF calmD(3) [OF assms(1)]]])
  qed (use none not_connected_calm [OF assms(1)] in \<open>simp_all add: listens calm_ids [OF assms(1)] calmD(2) [OF assms(1)]\<close>)
  with listens show ?thesis by (simp add: same_acceptors_def calm_acceptors [OF assms(1)])
qed

lemma no_connections_performs:
  assumes "foldE (perform e me buf) acts w = Inr w'" and "no_connections w"
  shows "no_connections w' \<and> same_acceptors w w'"
  using no_connections_calm [OF calm_performs [OF assms(1)] assms(2)] no_connectionsD(5) [OF assms(2)] by (simp add: no_phantoms_def)

lemma no_connections_thread_init:
  assumes "thread_init_callback e me l w = Inr w'" and "no_connections w"
  shows "no_connections w' \<and> same_acceptors w w'"
proof -
  from assms(1) obtain acts k where run: "foldE (perform e me None) acts (w\<lparr>kern := k, trace := trace w @ [ThreadInitCb l]\<rparr>) = Inr w'"
    by (auto simp: thread_init_callback_def split: prod.splits)
  have "calm w (w\<lparr>kern := k, trace := trace w @ [ThreadInitCb l]\<rparr>)" by (rule calm_same) (simp_all add: history_def)
  from no_connections_calm [OF this assms(2)] show ?thesis
    using no_connections_performs [OF run] same_acceptors_trans by blast
qed

lemma no_connections_new_EventLoop:
  assumes "new_EventLoop e me l c w = Inr w'" and "no_connections w" and "\<And>a. listens a w \<Longrightarrow> ac_channel (acceptors w a) \<noteq> c"
  shows "no_connections w' \<and> same_acceptors w w'"
proof -
  from assms(1) obtain k evtfd ps lp lt w1 where
    up: "EnableReading (Channel_Update e) c (w\<lparr>kern := k, chans := (chans w)(c := new_Channel l evtfd), pollers := ps,
      loops := (loops w)(l := lp), loop_in_this_thread := lt\<rparr>) = Inr w1" and lp: "el_pending_functors lp = []"
    and w': "w' = on_chan (SetReadCallback (LoopHandleRead l)) c w1"
    by (auto simp: new_EventLoop_def Let_def andThen_eq_Inr split: prod.splits if_splits)
  note parts = interest_parts [OF up [unfolded EnableReading_def]]
  have cbs: "cbs (chans w' d) = (if d = c then (Some (LoopHandleRead l), None, None, None) else cbs (chans w d))" for d
    using disp_cbs [OF parts(6), of d] by (auto simp: w' cbs_def new_Channel_def SetReadCallback_def)
  have same: "next_ptr w' = next_ptr w" "acceptors w' = acceptors w" "servers w' = servers w" "conns w' = conns w"
    "loops w' = (loops w)(l := lp)" "history d (trace w') = history d (trace w)" for d
    using parts by (simp_all add: w' on_chan_def)
  have listens: "listens a w' = listens a w" for a
    using assms(3) [of a] cbs [of "ac_channel (acceptors w a)"] by (auto simp: listens_def same cbs_def split: if_splits)
  have "no_connections w'"
  proof (rule no_connections_keep [OF assms(2)])
    fix ch cb assume "Some cb \<in> stored (chans w' ch)"
    then show "Some cb \<in> stored (chans w ch) \<or> conn_callback cb = None"
      using cbs [of ch] by (auto simp: stored_def cbs_def conn_callback_def split: if_splits)
  qed (use no_connectionsD [OF assms(2)] in \<open>auto simp: listens same lp split: if_splits\<close>)
  with listens show ?thesis by (simp add: same_acceptors_def same)
qed

text \<open>The channels of the loops that a pool starts are new.\<close>

definition new_channels :: "(tid \<times> ptr \<times> ptr) list \<Rightarrow> ('k, 'm) server_world_scheme \<Rightarrow> bool" where
  "new_channels news w \<longleftrightarrow> (\<forall>(t, l, c) \<in> set news. \<forall>a. listens a w \<longrightarrow> ac_channel (acceptors w a) \<noteq> c)"

lemma new_channels_same: "same_acceptors w w' \<Longrightarrow> new_channels news w' = new_channels news w"
  by (simp add: same_acceptors_def new_channels_def)

lemma no_connections_start_threads:
  assumes "start_threads e cb i news pl w = Inr (pl', w')" and "no_connections w" and "new_channels news w"
  shows "no_connections w' \<and> same_acceptors w w'"
  using assms
proof (induction news arbitrary: i pl w)
  case (Cons new news)
  obtain t l c where new: "new = (t, l, c)" by (metis prod_cases3)
  from Cons.prems(1) new obtain w1 w2 where w1: "new_EventLoop e t l c w = Inr w1"
    and w2: "w2 = w1 \<or> thread_init_callback e t l w1 = Inr w2"
    and rest: "\<exists>i pl. start_threads e cb i news pl w2 = Inr (pl', w')"
    by (auto simp: StartLoop_def andThen_eq_Inr split: if_splits)
  have fresh: "ac_channel (acceptors w a) \<noteq> c" if "listens a w" for a using Cons.prems(3) that by (auto simp: new new_channels_def)
  have "no_connections w1 \<and> same_acceptors w w1" by (rule no_connections_new_EventLoop [OF w1 Cons.prems(2) fresh])
  then have ok: "no_connections w2 \<and> same_acceptors w w2" using w2 no_connections_thread_init same_acceptors_trans by blast
  have "new_channels news w" using Cons.prems(3) by (simp add: new_channels_def)
  then have "new_channels news w2" using new_channels_same ok by blast
  then show ?case using Cons.IH rest ok same_acceptors_trans by blast
qed simp

lemma no_connections_Pool_Start:
  assumes "Pool_Start e cb me news pl w = Inr (pl', w')" and "no_connections w" and "new_channels news w"
  shows "no_connections w' \<and> same_acceptors w w'"
proof -
  from assms(1) obtain w1 where run: "start_threads e cb 0 (take (nat (tp_num_threads pl)) news) (pl\<lparr>tp_started := True\<rparr>) w = Inr (pl', w1)"
    and w': "w' = w1 \<or> thread_init_callback e me (tp_base_loop pl') w1 = Inr w'"
    by (auto simp: Pool_Start_def andThen_eq_Inr split: if_splits)
  have "new_channels (take (nat (tp_num_threads pl)) news) w"
    using assms(3) set_take_subset [of _ news] by (fastforce simp: new_channels_def)
  then have "no_connections w1 \<and> same_acceptors w w1" by (rule no_connections_start_threads [OF run assms(2)])
  then show ?thesis using w' no_connections_thread_init same_acceptors_trans by blast
qed

text \<open>\<open>Start\<close> listens at once, or leaves \<open>Listen\<close> in the queue of the base loop.\<close>

lemma no_connections_Listen:
  assumes "Listen e a w = Inr w'" and "no_connections w" and "listens a w"
  shows "no_connections w'"
proof -
  note parts = Listen_parts [OF assms(1)]
  have "listens b w' = listens b w" for b by (rule listens_cong) (simp_all add: parts disp_cbs [OF parts(4)])
  then show ?thesis
    by (intro no_connections_keep [OF assms(2)])
       (use no_connectionsD [OF assms(2)] in \<open>auto simp: parts stored_cbs [OF disp_cbs [OF parts(4)]]\<close>)
qed

lemma no_connections_on_server:
  assumes "no_connections w" and "\<And>sv. sv_connections (g sv) = sv_connections sv"
  shows "no_connections (on_server g s w)" and "listens a (on_server g s w) = listens a w"
proof -
  show listens: "listens a (on_server g s w) = listens a w" for a by (rule listens_cong) simp_all
  show "no_connections (on_server g s w)"
    by (rule no_connections_keep [OF assms(1)]) (use no_connectionsD [OF assms(1)] in \<open>auto simp: listens assms(2)\<close>)
qed

lemma no_connections_queue_Listen:
  assumes "no_connections w" and "listens a w"
  shows "no_connections (QueueInLoop e me l (FListen a) w)"
proof -
  obtain xs where "trace (QueueInLoop e me l (FListen a) w) = trace w @ map LogError xs" using QueueInLoop_trace [of e me l "FListen a" w] by blast
  then show ?thesis
    by (intro no_connections_keep [OF assms(1)]) (use no_connectionsD [OF assms(1)] assms(2) in \<open>auto split: if_splits\<close>)
qed

lemma no_connections_Server_Start:
  assumes "Server_Start e me news s w = Inr w'" and "no_connections w" and "new_channels news w"
    and "listens (sv_acceptor (servers w s)) w"
  shows "no_connections w'"
proof -
  let ?a = "sv_acceptor (servers w s)"
  let ?w1 = "on_server (\<lambda>sv. sv\<lparr>sv_started := sv_started sv + 1\<rparr>) s w"
  have w1: "no_connections ?w1" "listens a ?w1 = listens a w" for a by (rule no_connections_on_server [OF assms(2)]; simp)+
  then have news: "new_channels news ?w1" using assms(3) by (simp add: new_channels_def)
  show ?thesis
  proof (cases "sv_started (servers w s) = 0")
    case True
    with assms(1) obtain pool w2 where
      pool: "Pool_Start e (sv_thread_init_callback (servers ?w1 s)) me news (sv_pool (servers ?w1 s)) ?w1 = Inr (pool, w2)"
      and run: "RunInLoop e me (\<lambda>_. Listen e ?a) (sv_loop (servers w s)) (FListen ?a)
        (on_server (\<lambda>sv. sv\<lparr>sv_pool := pool\<rparr>) s w2) = Inr w'"
      by (auto simp: Server_Start_def Let_def andThen_eq_Inr)
    let ?w3 = "on_server (\<lambda>sv. sv\<lparr>sv_pool := pool\<rparr>) s w2"
    have w2: "no_connections w2" "listens ?a w2"
      using no_connections_Pool_Start [OF pool w1(1) news] w1(2) assms(4) by (simp_all add: same_acceptors_def)
    have "no_connections ?w3" "listens ?a ?w3" using no_connections_on_server [OF w2(1)] w2(2) by simp_all
    then show ?thesis using run no_connections_Listen no_connections_queue_Listen by (auto simp: RunInLoop_def split: if_splits)
  qed (use assms(1) w1(1) in \<open>simp add: Server_Start_def\<close>)
qed

text \<open>The constructor.\<close>

lemma no_connections_new_TcpServer:
  assumes "new_TcpServer e p loop s a ch listen_addr name option w = Inr w'" and "no_connections w" and "ch < next_ptr w"
    and "\<And>b. listens b w \<Longrightarrow> b \<noteq> a \<and> ac_channel (acceptors w b) \<noteq> ch"
  shows "no_connections w' \<and> listens a w' \<and> sv_acceptor (servers w' s) = a"
proof -
  note none = no_connectionsD [OF assms(2)]
  let ?sv = "\<lambda>l. \<lparr>sv_loop = l, sv_ip_port = ToIpPort p listen_addr, sv_name = name, sv_acceptor = a,
     sv_pool = new_EventLoopThreadPool l name, sv_connection_callback = False, sv_message_callback = False,
     sv_write_complete_callback = False, sv_thread_init_callback = False, sv_num_threads = 0,
     sv_started = 0, sv_next_conn_id = 1, sv_connections = Map.empty\<rparr>"
  from assms(1) obtain l w1 where built: "new_Acceptor e l a ch listen_addr (option = kReusePort) w = Inr w1"
    and w': "w' = on_acceptor (SetNewConnectionCallback s) a (w1\<lparr>servers := (servers w1)(s := ?sv l)\<rparr>)"
    by (auto simp: new_TcpServer_def andThen_eq_Inr Let_def)
  from built obtain sock k where w1: "w1 = on_chan (SetReadCallback (AcceptorHandleRead a)) ch (BindAddress e listen_addr sock
      (w\<lparr>chans := (chans w)(ch := new_Channel l sock), acceptors := (acceptors w)(a := \<lparr>ac_loop = l, ac_socket = sock, ac_channel = ch, ac_listening = False,
           ac_new_connection_callback = None\<rparr>),
         kern := sys_setsockopt e sock SO_REUSEPORT (if option = kReusePort then 1 else 0) (sys_setsockopt e sock SO_REUSEADDR 1 k)\<rparr>))"
    by (auto simp: new_Acceptor_def Let_def andThen_eq_Inr SetReusePort_def SetReuseAddr_def)
  have fields: "chans w' = (chans w)(ch := SetReadCallback (AcceptorHandleRead a) (new_Channel l sock))"
    "loops w' = loops w" "conns w' = conns w" "next_ptr w' = next_ptr w" "servers w' = (servers w)(s := ?sv l)"
    "ac_channel (acceptors w' b) = (if b = a then ch else ac_channel (acceptors w b))" "history c (trace w') = history c (trace w)" for b c
    by (auto simp: w' w1 BindAddress_def SetNewConnectionCallback_def on_chan_def on_acceptor_def split: prod.split sysres.split)
  have listens: "listens b w' \<longleftrightarrow> b = a \<or> listens b w" for b
    using assms(3) assms(4) [of b] by (auto simp: listens_def fields SetReadCallback_def)
  have "no_connections w'"
  proof (rule no_connections_keep [OF assms(2)])
    fix c cb assume "Some cb \<in> stored (chans w' c)"
    then show "Some cb \<in> stored (chans w c) \<or> conn_callback cb = None"
      by (auto simp: fields stored_def conn_callback_def new_Channel_def SetReadCallback_def split: if_splits)
  qed (use none in \<open>simp_all add: fields listens\<close>)
  then show ?thesis by (simp add: listens fields)
qed

section \<open>The loop takes these steps\<close>

text \<open>The channels of one \<open>Poll\<close> are current when their turn comes.\<close>

primrec all_current ::
  "(callback \<Rightarrow> int \<Rightarrow> ('k, 'm) server_op) \<Rightarrow> (ptr \<Rightarrow> ('k, 'm) server_world_scheme \<Rightarrow> bool) \<Rightarrow> ptr \<Rightarrow> ptr list \<Rightarrow>
   ('k, 'm) server_world_scheme \<Rightarrow> bool" where
  "all_current run lock l [] w \<longleftrightarrow> True"
| "all_current run lock l (ch # chs) w \<longleftrightarrow> current l ch w \<and>
     (case HandleEvent run lock (el_poll_return_time (loops w l)) ch w of Inl x \<Rightarrow> True | Inr w' \<Rightarrow> all_current run lock l chs w')"

lemma dispatches_are_steps:
  assumes "foldE (\<lambda>c w. HandleEvent (run_callback e p junk me) lock (el_poll_return_time (loops w l)) c w) chs w = Inr w'"
    and "all_current (run_callback e p junk me) lock l chs w" and "el_thread_id (loops w l) = me"
  shows "(system_step e p junk lock)\<^sup>*\<^sup>* (B, w) (B, w')"
  using assms
proof (induction chs arbitrary: w)
  case (Cons ch chs)
  then obtain w1 where w1: "HandleEvent (run_callback e p junk me) lock (el_poll_return_time (loops w l)) ch w = Inr w1"
    and rest: "foldE (\<lambda>c w. HandleEvent (run_callback e p junk me) lock (el_poll_return_time (loops w l)) c w) chs w1 = Inr w'"
    by auto
  have "system_step e p junk lock (B, w) (B, w1)"
    by (rule loop_dispatches [of l ch]) (use Cons.prems w1 in simp_all)
  moreover have "el_thread_id (loops w1 l) = me"
    using loop_keptD [OF loops_keptD [OF lib.HandleEvent_kept [OF w1]]] Cons.prems(3) by simp
  ultimately show ?case
    using Cons.IH [OF rest] Cons.prems(2) w1 by (simp add: converse_rtranclp_into_rtranclp)
qed simp

lemma functors_are_steps:
  assumes "foldE (run_functor e me) fs w = Inr w'" and "el_thread_id (loops w l) = me"
  shows "(system_step e p junk lock)\<^sup>*\<^sup>* (B(l := fs), w) (B(l := []), w')"
  using assms
proof (induction fs arbitrary: w)
  case (Cons f fs)
  then obtain w1 where w1: "run_functor e me f w = Inr w1" and rest: "foldE (run_functor e me) fs w1 = Inr w'" by auto
  have "system_step e p junk lock (B(l := f # fs), w) (B(l := fs), w1)"
    using loop_runs_functor [of "B(l := f # fs)" l f fs e w w1] Cons.prems(2) w1 by simp
  moreover have "el_thread_id (loops w1 l) = me"
    using loop_keptD [OF loops_keptD [OF lib.exec_kept [OF w1]]] Cons.prems(2) by simp
  ultimately show ?case using converse_rtranclp_into_rtranclp Cons.IH [OF rest] by metis
qed simp

lemma DoPendingFunctors_is_steps:
  assumes "DoPendingFunctors (run_functor e me) l w = Inr w'" and "el_thread_id (loops w l) = me" and "B l = []"
  shows "(system_step e p junk lock)\<^sup>*\<^sup>* (B, w) (B, w')"
proof -
  let ?fs = "el_pending_functors (loops w l)"
    and ?w1 = "on_loop (\<lambda>lp. lp\<lparr>el_calling_pending_functors := True, el_pending_functors := []\<rparr>) l w"
  from assms(1) obtain w2 where run: "foldE (run_functor e me) ?fs ?w1 = Inr w2"
    and w': "w' = on_loop (\<lambda>lp. lp\<lparr>el_calling_pending_functors := False\<rparr>) l w2"
    by (auto simp: DoPendingFunctors_def Let_def andThen_eq_Inr)
  have B: "B(l := []) = B" using assms(3) by auto
  have "system_step e p junk lock (B, w) (B(l := ?fs), ?w1)" by (rule loop_takes_batch) (rule assms(3))
  also have "(system_step e p junk lock)\<^sup>*\<^sup>* (B(l := ?fs), ?w1) (B(l := []), w2)"
    by (rule functors_are_steps [OF run]) (simp add: assms(2))
  also have "system_step e p junk lock (B(l := []), w2) (B, w')" unfolding w' B by (rule loop_ends_batch) (rule assms(3))
  finally show ?thesis .
qed

text \<open>The loop of the server's destructor takes system steps too.\<close>

lemma drops_are_steps:
  assumes "foldE (drop_connection e me s) order w = Inr w'"
  shows "(system_step e p junk lock)\<^sup>*\<^sup>* (B, w) (B, w')"
  using assms
proof (induction order arbitrary: w)
  case (Cons name order)
  then obtain w1 where w1: "drop_connection e me s name w = Inr w1" and rest: "foldE (drop_connection e me s) order w1 = Inr w'" by auto
  show ?case by (rule converse_rtranclp_into_rtranclp [OF server_drops [OF w1] Cons.IH [OF rest]])
qed simp

section \<open>A sample run\<close>

text \<open>A server of thread 100 whose acceptor's channel 4 has been reported readable.\<close>

definition accepting :: "test_kernel server_world \<Rightarrow> bool" where
  "accepting w \<longleftrightarrow> servers w = (\<lambda>_. sample_server) \<and> next_ptr w = 40 \<and> kern w = test_kernel0 \<and> trace w = []
     \<and> pollers w = (\<lambda>_. \<lparr>po_channels = Map.empty, po_epoll_fd = 4, po_events_size = 16\<rparr>)
     \<and> (\<forall>l. el_thread_id (loops w l) = 100 \<and> el_pending_functors (loops w l) = [])
     \<and> ac_socket (acceptors w 3) = 3 \<and> ac_new_connection_callback (acceptors w 3) = Some 2
     \<and> chans w 4 = SetRevents EPOLLIN (SetEvents kReadEvent (SetReadCallback (AcceptorHandleRead 3) (new_Channel 0 3)))"

lemma test_established:
  assumes "ch = tc_channel (conns w c)" and "ch_index (chans w ch) = kNew" and "tc_connection_callback (conns w c)"
    and "tk_ints (kern w) (po_epoll_fd (pollers w (ch_loop (chans w ch)))) (ch_fd (chans w ch)) = None"
    and "d \<noteq> ch" and "chans w d = a" and "trace w = []" and "loops w = ls"
  shows "\<exists>w'. ConnectEstablished test_env me c w = Inr w' \<and> tc_state (conns w' c) = kConnected
     \<and> chans w' d = a \<and> trace w' = [ConnectionCb c True] \<and> loops w' = ls"
  using assms
  by (simp add: ConnectEstablished_def EnableReading_def Channel_Update_def EventLoop_UpdateChannel_def UpdateChannel_def Update_def
      Let_def test_env_def SetIndex_def SetEvents_def Tie_def SetState_def connection_callback_def IsConnected_def)

lemma accepting_creates:
  assumes "accepting w"
  shows "\<exists>w'. NewConnection test_env 100 2 7 peer w = Inr w' \<and> tc_state (conns w' 40) = kConnected
     \<and> chans w' 4 = chans w 4 \<and> trace w' = [ConnectionCb 40 True] \<and> loops w' = loops w"
proof -
  obtain b where b: "new_Buffer kInitialSize = Inr b"
    by (rule wf_new_Buffer [of kInitialSize]) (simp_all add: kInitialSize_def vector_max_size_def)
  have calls: "GetNextLoop (sv_pool sample_server) = Inr (30, sv_pool sample_server)"
    "local_address test_env f w = (\<lparr>sin_family = 2, sin_port = 80, sin_addr = 16777343\<rparr>, w)"
    "SetKeepAlive test_env on f w = w" "sv_next_conn_id sample_server = 1" "sv_connection_callback sample_server"
    for f on and w :: "test_kernel server_world"
    by (simp_all add: sample_server_def GetNextLoop_def new_EventLoopThreadPool_def local_address_def SetKeepAlive_def test_env_def)
  show ?thesis
    using assms unfolding accepting_def
    by (simp add: NewConnection_def calls b new_TcpConnection_def CheckLoopNotNull_def RunInLoop_def IsInLoopThread_def Let_def)
       (rule test_established [OF refl]; simp add: calls new_Channel_def SetErrorCallback_def SetCloseCallback_def SetWriteCallback_def
         SetReadCallback_def SetConnectionCallback_def Conn_SetCloseCallback_def SetWriteCompleteCallback_def SetMessageCallback_def test_kernel0_def kNew_def)
qed

definition no_addr :: InetAddress where
  "no_addr = \<lparr>sin_family = 0, sin_port = 0, sin_addr = 0\<rparr>"

lemma accepting_dispatches:
  assumes "accepting w"
  shows "current 0 4 w"
    and "\<exists>w'. HandleEvent (run_callback test_env dotted_inet no_addr 100) (\<lambda>_ _. True) t 4 w = Inr w'
      \<and> tc_state (conns w' 40) = kConnected \<and> trace w' = [ConnectionCb 40 True] \<and> loops w' = loops w"
proof -
  show "current 0 4 w"
    using assms by (simp add: accepting_def current_def closes_once_def new_Channel_def SetRevents_def SetEvents_def SetReadCallback_def
        epoll_bits kReadEvent_def)
  have acc: "Accept test_env a f w = (SysOk 7, \<lparr>sin_family = 2, sin_port = 80, sin_addr = 16777343\<rparr>, w)" for a f
    by (simp add: Accept_def test_env_def SetSockAddr_def)
  obtain w' where w': "NewConnection test_env 100 2 7 \<lparr>sin_family = 2, sin_port = 80, sin_addr = 16777343\<rparr> w = Inr w'"
    "tc_state (conns w' 40) = kConnected" "chans w' 4 = chans w 4" "trace w' = [ConnectionCb 40 True]" "loops w' = loops w"
    using accepting_creates [OF assms] by blast
  have "HandleEvent (run_callback test_env dotted_inet no_addr 100) (\<lambda>_ _. True) t 4 w = Inr w'"
    using w'(1,3) assms by (simp add: accepting_def HandleEvent_def HandleEventWithGuard_def fire_def acc run_callback_def
        Acceptor_HandleRead_def new_Channel_def SetRevents_def SetEvents_def SetReadCallback_def epoll_bits)
  with w' show "\<exists>w'. HandleEvent (run_callback test_env dotted_inet no_addr 100) (\<lambda>_ _. True) t 4 w = Inr w'
      \<and> tc_state (conns w' 40) = kConnected \<and> trace w' = [ConnectionCb 40 True] \<and> loops w' = loops w" by blast
qed

text \<open>The same server before its loop has polled, and after.\<close>

definition polling_world :: "test_kernel server_world" where
  "polling_world = sample_server_world\<lparr>kern := test_kernel0\<lparr>tk_ready := [\<lparr>ev_events = EPOLLIN, ev_data = 4\<rparr>]\<rparr>,
     loops := \<lambda>_. sample_loop, conns := \<lambda>_. sample_conn\<lparr>tc_state := kConnecting\<rparr>,
     chans := (\<lambda>c. new_Channel 0 (int c))(4 := SetEvents kReadEvent (SetReadCallback (AcceptorHandleRead 3) (new_Channel 0 3)))\<rparr>"

definition polled_world :: "test_kernel server_world" where
  "polled_world = on_chan (SetRevents EPOLLIN) 4 ((on_loop (\<lambda>lp. lp\<lparr>el_active_channels := []\<rparr>) 0 polling_world)\<lparr>kern := test_kernel0\<rparr>)"

lemma polling_world_polls:
  "Poll test_env 0 kPollTimeMs [] (on_loop (\<lambda>lp. lp\<lparr>el_active_channels := []\<rparr>) 0 polling_world) = (0, [4], polled_world)"
  by (simp add: Poll_def test_env_def polled_world_def polling_world_def test_kernel0_def sample_server_world_def Let_def)

lemma polled_world_accepting:
  assumes "\<And>lp. el_thread_id (f lp) = el_thread_id lp \<and> el_pending_functors (f lp) = el_pending_functors lp"
  shows "accepting (on_loop f 0 polled_world)"
  using assms by (simp add: accepting_def polled_world_def polling_world_def sample_server_world_def sample_loop_def on_chan_def on_loop_def)

lemma polling_world_ok: "no_connections polling_world" "no_connections polled_world"
  by (auto simp: sample_server_def sample_conn_def no_connections_def stored_def conn_callback_def sample_loop_def on_chan_def on_loop_def
      polled_world_def polling_world_def sample_server_world_def new_Channel_def SetRevents_def SetEvents_def SetReadCallback_def split: if_splits)

lemma sample_run:
  obtains w where "(system_step test_env dotted_inet no_addr (\<lambda>_ _. True))\<^sup>*\<^sup>* (\<lambda>_. [], polled_world) (\<lambda>_. [], w)"
    and "tc_state (conns w 40) = kConnected" and "trace w = [ConnectionCb 40 True]"
proof -
  have acc: "accepting polled_world" using polled_world_accepting [of id] by (simp add: on_loop_def)
  obtain w where w: "HandleEvent (run_callback test_env dotted_inet no_addr 100) (\<lambda>_ _. True) 0 4 polled_world = Inr w"
    "tc_state (conns w 40) = kConnected" "trace w = [ConnectionCb 40 True]"
    using accepting_dispatches(2) [OF acc] by blast
  have "system_step test_env dotted_inet no_addr (\<lambda>_ _. True) (\<lambda>_. [], polled_world) (\<lambda>_. [], w)"
    by (rule loop_dispatches [OF accepting_dispatches(1) [OF acc]]) (use w(1) acc in \<open>simp add: accepting_def\<close>)
  then show ?thesis by (intro that) (use w(2,3) in simp_all)
qed

text \<open>The connection that a functor is about.\<close>

definition conn_functor :: "Functor \<Rightarrow> ptr option" where
  "conn_functor f = (case f of
      FSendInLoop c msg \<Rightarrow> Some c
    | FSendBuffer c d \<Rightarrow> Some c
    | FShutdownInLoop c \<Rightarrow> Some c
    | FWriteComplete c \<Rightarrow> Some c
    | FHighWaterMark c n \<Rightarrow> Some c
    | FConnectEstablished c \<Rightarrow> Some c
    | FConnectDestroyed c \<Rightarrow> Some c
    | FRemoveConnectionInLoop s c \<Rightarrow> Some c
    | _ \<Rightarrow> None)"

section \<open>Properties\<close>

text \<open>
  C17: the loop of the code takes the steps of the system. Whatever an iteration of \<open>Loop\<close> does when it returns, polling,
  dispatching and running what was queued, is a sequence of system steps, provided the channels it
  polled are current when their turn comes; so what holds of all reachable states holds of each state
  that the code's own loop reaches.
\<close>

theorem loop_iteration_is_system_steps:
  assumes "loop_iteration e (run_callback e p junk me) lock (run_functor e me) l w = Inr w'"
    and "el_thread_id (loops w l) = me" and "B l = []"
    and "Poll e l kPollTimeMs [] (on_loop (\<lambda>lp. lp\<lparr>el_active_channels := []\<rparr>) l w) = (now, chs, w1)"
    and "all_current (run_callback e p junk me) lock l chs (on_loop (\<lambda>lp. lp\<lparr>el_poll_return_time := now, el_active_channels := chs\<rparr>) l w1)"
  shows "(system_step e p junk lock)\<^sup>*\<^sup>* (B, w) (B, w')"
proof -
  let ?w2 = "on_loop (\<lambda>lp. lp\<lparr>el_poll_return_time := now, el_active_channels := chs\<rparr>) l w1"
  from assms(1,4) obtain w3 where
    w3: "foldE (\<lambda>c w. HandleEvent (run_callback e p junk me) lock (el_poll_return_time (loops w l)) c w) chs ?w2 = Inr w3"
      "DoPendingFunctors (run_functor e me) l w3 = Inr w'"
    by (auto simp: loop_iteration_def Let_def andThen_eq_Inr)
  have me: "el_thread_id (loops ?w2 l) = me" using Poll_loops [OF assms(4)] assms(2) by simp
  then have me3: "el_thread_id (loops w3 l) = me"
    using loop_keptD [OF loops_keptD [OF lib.dispatch_kept [OF w3(1)]]] by simp
  have "system_step e p junk lock (B, w) (B, ?w2)" by (rule loop_polls [OF assms(4)])
  also have "(system_step e p junk lock)\<^sup>*\<^sup>* (B, ?w2) (B, w3)" by (rule dispatches_are_steps [OF w3(1) assms(5) me])
  also have "(system_step e p junk lock)\<^sup>*\<^sup>* (B, w3) (B, w')"
    by (rule DoPendingFunctors_is_steps [OF w3(2) me3]) (rule assms(3))
  finally show ?thesis .
qed


text \<open>
  C4: every closure is well typed. Whatever a running server has done, each connection callback
  that a channel holds, each functor that is queued or in a batch, and each entry of a server's map names a connection that has been
  created; a channel calls only the connection that owns it, two connections never share a
  channel, \<open>ConnectEstablished\<close> waits only in the loop of its connection, \<open>Listen\<close> only for an acceptor
  that has been constructed, and nothing but a created connection is ever connected.
\<close>

theorem closures_name_what_exists:
  assumes "no_connections w0" and "(system_step e p junk lock)\<^sup>*\<^sup>* (\<lambda>_. [], w0) (B, w)"
  shows "(\<forall>ch cb c. Some cb \<in> stored (chans w ch) \<and> conn_callback cb = Some c \<longrightarrow> live c w \<and> tc_channel (conns w c) = ch)
    \<and> (\<forall>c d. live c w \<and> live d w \<and> tc_channel (conns w c) = tc_channel (conns w d) \<longrightarrow> c = d)
    \<and> (\<forall>l c. \<forall>f \<in> set (queue B w l). conn_functor f = Some c \<longrightarrow> live c w \<and> (f = FConnectEstablished c \<longrightarrow> l = tc_loop (conns w c)))
    \<and> (\<forall>l a. FListen a \<in> set (queue B w l) \<longrightarrow> listens a w)
    \<and> (\<forall>s name c. sv_connections (servers w s) name = Some c \<longrightarrow> live c w)
    \<and> (\<forall>c. tc_state (conns w c) = kConnected \<longrightarrow> live c w)"
proof -
  have inv: "life_inv {} B w" by (rule life_inv_system_steps [OF assms(2) life_inv_no_connections [OF assms(1)]])
  note facts = life_invD [OF inv]
  have "live c w \<and> (f = FConnectEstablished c \<longrightarrow> l = tc_loop (conns w c))"
    if "f \<in> set (queue B w l)" "conn_functor f = Some c" for f l c
    using facts(4) [OF that(1)] that(2) by (auto simp: functor_ok_def follow_up_def conn_functor_def split: Functor.splits)
  moreover have "listens a w" if "FListen a \<in> set (queue B w l)" for a l
    using facts(4) [OF that] by (simp add: functor_ok_def follow_up_def)
  moreover have "live c w" if "tc_state (conns w c) = kConnected" for c
    using facts(6) that unfolding no_phantoms_def by blast
  ultimately show ?thesis using facts(1,7) live_channel_inj by blast
qed


theorem closures_name_what_exists_witness:
  "\<exists>B w. (system_step test_env dotted_inet no_addr (\<lambda>_ _. True))\<^sup>*\<^sup>* (\<lambda>_. [], polled_world) (B, w)
     \<and> tc_state (conns w 40) = kConnected \<and> live 40 w"
proof -
  obtain w where w: "(system_step test_env dotted_inet no_addr (\<lambda>_ _. True))\<^sup>*\<^sup>* (\<lambda>_. [], polled_world) (\<lambda>_. [], w)"
    "tc_state (conns w 40) = kConnected"
    by (rule sample_run)
  then have "live 40 w" using closures_name_what_exists [OF polling_world_ok(2) w(1)] by blast
  with w show ?thesis by blast
qed

theorem loop_iteration_is_system_steps_witness:
  "\<exists>w. loop_iteration test_env (run_callback test_env dotted_inet no_addr 100) (\<lambda>_ _. True) (run_functor test_env 100) 0 polling_world = Inr w
     \<and> trace w = [ConnectionCb 40 True]
     \<and> (system_step test_env dotted_inet no_addr (\<lambda>_ _. True))\<^sup>*\<^sup>* (\<lambda>_. [], polling_world) (\<lambda>_. [], w)"
proof -
  let ?w2 = "on_loop (\<lambda>lp. lp\<lparr>el_poll_return_time := 0, el_active_channels := [4]\<rparr>) 0 polled_world"
  have acc: "accepting ?w2" by (rule polled_world_accepting) simp
  obtain w3 where w3: "HandleEvent (run_callback test_env dotted_inet no_addr 100) (\<lambda>_ _. True) (el_poll_return_time (loops ?w2 0)) 4 ?w2 = Inr w3"
    "trace w3 = [ConnectionCb 40 True]" "loops w3 = loops ?w2"
    using accepting_dispatches(2) [OF acc] by blast
  have "el_pending_functors (loops ?w2 0) = []" using acc unfolding accepting_def by blast
  then have none: "el_pending_functors (loops w3 0) = []" unfolding w3(3) .
  obtain w where it: "loop_iteration test_env (run_callback test_env dotted_inet no_addr 100) (\<lambda>_ _. True) (run_functor test_env 100) 0 polling_world = Inr w"
    "trace w = [ConnectionCb 40 True]"
  proof (rule that)
    show "loop_iteration test_env (run_callback test_env dotted_inet no_addr 100) (\<lambda>_ _. True) (run_functor test_env 100) 0 polling_world
        = Inr (on_loop (\<lambda>lp. lp\<lparr>el_calling_pending_functors := False\<rparr>) 0
            (on_loop (\<lambda>lp. lp\<lparr>el_calling_pending_functors := True, el_pending_functors := []\<rparr>) 0 w3))"
      using polling_world_polls w3(1) none by (simp add: loop_iteration_def Let_def DoPendingFunctors_def)
  qed (simp add: w3(2))
  have current: "all_current (run_callback test_env dotted_inet no_addr 100) (\<lambda>_ _. True) 0 [4] ?w2"
    using accepting_dispatches(1) [OF acc] w3(1) by simp
  have "(system_step test_env dotted_inet no_addr (\<lambda>_ _. True))\<^sup>*\<^sup>* (\<lambda>_. [], polling_world) (\<lambda>_. [], w)"
    by (rule loop_iteration_is_system_steps [OF it(1) _ _ polling_world_polls current]) (simp_all add: polling_world_def sample_loop_def)
  with it show ?thesis by (intro exI [of _ w]) simp
qed

end
