(* ===== verification/Registrations.thy ===== *)
theory Registrations
  imports Callback_Order
begin

text \<open>
  The registrations of a whole program: any number of loops with their pollers, and all channels that have
  been constructed, on one kernel. Changing the interest of any channel, or removing it, succeeds and keeps all
  pollers, all channels and the kernel in agreement. The kernel's promises are gathered in \<open>kernel_laws\<close>.
\<close>

section \<open>The kernel\<close>

text \<open>
  What the statements of this theory speak about beside the program's state: the interest lists and the open
  descriptors of a kernel state, and the loops that exist.
\<close>

record 'k ghost =
  g_ints :: "'k interest"
  g_open :: "'k \<Rightarrow> fd set"

definition quiet :: "'k ghost \<Rightarrow> 'k \<Rightarrow> 'k \<Rightarrow> bool" where
  "quiet G k k' \<longleftrightarrow> g_ints G k' = g_ints G k \<and> g_open G k \<subseteq> g_open G k'"

lemma quiet_refl [simp, intro]: "quiet G k k"
  by (simp add: quiet_def)

lemma quiet_trans [trans]: "quiet G a b \<Longrightarrow> quiet G b c \<Longrightarrow> quiet G a c"
  by (auto simp: quiet_def)

text \<open>
  The manual pages: \<open>epoll_ctl(2)\<close>, \<open>epoll_wait(2)\<close>, \<open>write(2)\<close>, \<open>readv(2)\<close> as in \<open>Environment\<close>; no call but
  \<open>epoll_ctl\<close> changes an interest list, none but \<open>close(2)\<close> closes a descriptor; and the calls that open a
  descriptor return one that was not open.
\<close>

definition io_quiet :: "'k env \<Rightarrow> 'k ghost \<Rightarrow> bool" where
  "io_quiet e G \<longleftrightarrow>
     (\<forall>f bs k. quiet G k (snd (sys_write e f bs k))) \<and> (\<forall>f ls k. quiet G k (snd (sys_readv e f ls k)))
     \<and> (\<forall>f n k. quiet G k (snd (sys_read e f n k))) \<and> (\<forall>f k. quiet G k (snd (sys_shutdown e f k)))
     \<and> (\<forall>f opt v k. quiet G k (sys_setsockopt e f opt v k)) \<and> (\<forall>f k. quiet G k (snd (sys_getsockopt_error e f k)))
     \<and> (\<forall>f k. quiet G k (snd (sys_getsockname e f k))) \<and> (\<forall>f n k. quiet G k (snd (sys_listen e f n k)))
     \<and> (\<forall>f a k. quiet G k (snd (sys_bind e f a k))) \<and> (\<forall>k. quiet G k (snd (sys_time e k)))"

definition opens :: "'k ghost \<Rightarrow> fd \<Rightarrow> 'k \<Rightarrow> 'k \<Rightarrow> bool" where
  "opens G f k k' \<longleftrightarrow> f \<notin> g_open G k \<and> f \<in> g_open G k'"

definition fresh_descriptors :: "'k env \<Rightarrow> 'k ghost \<Rightarrow> bool" where
  "fresh_descriptors e G \<longleftrightarrow>
     (\<forall>f k r k'. sys_accept4 e f k = (r, k') \<longrightarrow> quiet G k k' \<and> (\<forall>g addr. r = SysOk (g, addr) \<longrightarrow> opens G g k k'))
     \<and> (\<forall>k r k'. sys_socket e k = (r, k') \<longrightarrow> quiet G k k' \<and> (\<forall>g. r = SysOk g \<longrightarrow> opens G g k k'))
     \<and> (\<forall>k r k'. sys_eventfd e k = (r, k') \<longrightarrow> quiet G k k' \<and> (\<forall>g. r = SysOk g \<longrightarrow> opens G g k k'))
     \<and> (\<forall>k ep k'. sys_epoll_create1 e k = (ep, k') \<longrightarrow> opens G ep k k' \<and> g_open G k \<subseteq> g_open G k'
          \<and> g_ints G k' = (g_ints G k)(ep := (\<lambda>_. None)))"

definition epoll_keeps_open :: "'k env \<Rightarrow> 'k ghost \<Rightarrow> bool" where
  "epoll_keeps_open e G \<longleftrightarrow> (\<forall>ep op f ev k. g_open G k \<subseteq> g_open G (snd (sys_epoll_ctl e ep op f ev k)))
     \<and> (\<forall>ep n t k. g_open G k \<subseteq> g_open G (snd (sys_epoll_wait e ep n t k)))"

definition kernel_laws :: "'k env \<Rightarrow> 'k ghost \<Rightarrow> bool" where
  "kernel_laws e G \<longleftrightarrow> epoll_ctl_ok e (g_ints G) \<and> epoll_ctl_accepts e (g_ints G) \<and> epoll_wait_ok e (g_ints G)
     \<and> write_ok e \<and> readv_ok e \<and> io_quiet e G \<and> fresh_descriptors e G \<and> epoll_keeps_open e G"

text \<open>
  The application: its callbacks may use the kernel, but leave the library's epoll instances and descriptors
  alone, and what they send is a \<open>std::string\<close>, no longer than a string can be.
\<close>

definition sendable :: "action \<Rightarrow> bool" where
  "sendable a \<longleftrightarrow> (case a of DoSend c bs \<Rightarrow> length bs \<le> vector_max_size | _ \<Rightarrow> True)"

definition calls_ok :: "'k ghost \<Rightarrow> 'k \<Rightarrow> action list \<times> 'k \<Rightarrow> bool" where
  "calls_ok G k r \<longleftrightarrow> quiet G k (snd r) \<and> (\<forall>a \<in> set (fst r). sendable a)"

definition application_laws :: "'k env \<Rightarrow> 'k ghost \<Rightarrow> bool" where
  "application_laws e G \<longleftrightarrow>
     (\<forall>c up k. calls_ok G k (on_connection e c up k)) \<and> (\<forall>c bs t k. calls_ok G k (on_message e c bs t k))
     \<and> (\<forall>c k. calls_ok G k (on_write_complete e c k)) \<and> (\<forall>c n k. calls_ok G k (on_high_water_mark e c n k))
     \<and> (\<forall>n k. calls_ok G k (on_functor e n k)) \<and> (\<forall>l k. calls_ok G k (on_thread_init e l k))"

lemma kernel_lawsD:
  assumes "kernel_laws e G"
  shows "epoll_ctl_ok e (g_ints G)" and "epoll_ctl_accepts e (g_ints G)" and "write_ok e" and "readv_ok e"
  using assms by (simp_all add: kernel_laws_def)

lemma io_quietD:
  assumes "kernel_laws e G"
  shows "sys_write e f bs k = (r1, k') \<Longrightarrow> quiet G k k'" and "sys_readv e f ls k = (r2, k') \<Longrightarrow> quiet G k k'"
    and "sys_read e f n k = (r2, k') \<Longrightarrow> quiet G k k'" and "sys_shutdown e f k = (r3, k') \<Longrightarrow> quiet G k k'"
    and "quiet G k (sys_setsockopt e f opt v k)" and "sys_getsockopt_error e f k = (r4, k') \<Longrightarrow> quiet G k k'"
    and "sys_getsockname e f k = (r5, k') \<Longrightarrow> quiet G k k'" and "sys_listen e f i k = (r6, k') \<Longrightarrow> quiet G k k'"
    and "sys_time e k = (t, k') \<Longrightarrow> quiet G k k'" and "sys_bind e f addr k = (r7, k') \<Longrightarrow> quiet G k k'"
proof -
  have "io_quiet e G" using assms by (simp add: kernel_laws_def)
  then show "sys_write e f bs k = (r1, k') \<Longrightarrow> quiet G k k'" and "sys_readv e f ls k = (r2, k') \<Longrightarrow> quiet G k k'"
    and "sys_read e f n k = (r2, k') \<Longrightarrow> quiet G k k'" and "sys_shutdown e f k = (r3, k') \<Longrightarrow> quiet G k k'"
    and "quiet G k (sys_setsockopt e f opt v k)" and "sys_getsockopt_error e f k = (r4, k') \<Longrightarrow> quiet G k k'"
    and "sys_getsockname e f k = (r5, k') \<Longrightarrow> quiet G k k'" and "sys_listen e f i k = (r6, k') \<Longrightarrow> quiet G k k'"
    and "sys_time e k = (t, k') \<Longrightarrow> quiet G k k'" and "sys_bind e f addr k = (r7, k') \<Longrightarrow> quiet G k k'"
    unfolding io_quiet_def by (metis snd_conv)+
qed

lemma wait_quiet:
  assumes "kernel_laws e G" and "sys_epoll_wait e ep n i k = (r, k')"
  shows "quiet G k k'"
proof -
  have "epoll_keeps_open e G" using assms(1) by (simp add: kernel_laws_def)
  then have "g_open G k \<subseteq> g_open G (snd (sys_epoll_wait e ep n i k))" unfolding epoll_keeps_open_def by blast
  moreover have "g_ints G k' = g_ints G k" using assms unfolding kernel_laws_def epoll_wait_ok_def by blast
  ultimately show ?thesis using assms(2) by (simp add: quiet_def)
qed

lemma fresh_descriptorsD:
  assumes "kernel_laws e G"
  shows "sys_accept4 e f k = (r, k') \<Longrightarrow> quiet G k k'"
    and "sys_accept4 e f k = (SysOk (g, addr), k') \<Longrightarrow> opens G g k k'"
    and "sys_socket e k = (SysOk g, k') \<Longrightarrow> quiet G k k' \<and> opens G g k k'"
    and "sys_eventfd e k = (SysOk g, k') \<Longrightarrow> quiet G k k' \<and> opens G g k k'"
    and "sys_epoll_create1 e k = (ep, k') \<Longrightarrow> opens G ep k k' \<and> g_open G k \<subseteq> g_open G k' \<and> g_ints G k' = (g_ints G k)(ep := (\<lambda>_. None))"
proof -
  have "fresh_descriptors e G" using assms by (simp add: kernel_laws_def)
  then show "sys_accept4 e f k = (r, k') \<Longrightarrow> quiet G k k'"
    and "sys_accept4 e f k = (SysOk (g, addr), k') \<Longrightarrow> opens G g k k'"
    and "sys_socket e k = (SysOk g, k') \<Longrightarrow> quiet G k k' \<and> opens G g k k'"
    and "sys_eventfd e k = (SysOk g, k') \<Longrightarrow> quiet G k k' \<and> opens G g k k'"
    and "sys_epoll_create1 e k = (ep, k') \<Longrightarrow> opens G ep k k' \<and> g_open G k \<subseteq> g_open G k' \<and> g_ints G k' = (g_ints G k)(ep := (\<lambda>_. None))"
    unfolding fresh_descriptors_def by simp_all
qed

section \<open>The registrations\<close>

text \<open>A channel that has been constructed: everything the library builds has a read callback.\<close>

definition managed :: "ptr \<Rightarrow> ('k, 'm) server_world_scheme \<Rightarrow> bool" where
  "managed ch w \<longleftrightarrow> ch_read_callback (chans w ch) \<noteq> None"

definition registrations_ok :: "'k ghost \<Rightarrow> ptr set \<Rightarrow> ('k, 'm) server_world_scheme \<Rightarrow> bool" where
  "registrations_ok G L w \<longleftrightarrow>
     (\<forall>l \<in> L. poller_inv (g_ints G) l w)
     \<and> inj_on (\<lambda>l. po_epoll_fd (pollers w l)) (L)
     \<and> (\<forall>ch. managed ch w \<longrightarrow> ch < next_ptr w \<and> ch_loop (chans w ch) \<in> L
          \<and> index_ok (ch_loop (chans w ch)) ch w \<and> ch_fd (chans w ch) \<in> g_open G (kern w))
     \<and> (\<forall>ch d. managed ch w \<and> managed d w \<and> ch_fd (chans w ch) = ch_fd (chans w d) \<longrightarrow> ch = d)
     \<and> (\<forall>l \<in> L. \<forall>f c. po_channels (pollers w l) f = Some c \<longrightarrow> managed c w \<and> ch_loop (chans w c) = l)
     \<and> (\<forall>l \<in> L. po_epoll_fd (pollers w l) \<in> g_open G (kern w))"

lemma registrations_okD:
  assumes "registrations_ok G L w"
  shows "l \<in> L \<Longrightarrow> poller_inv (g_ints G) l w"
    and "l \<in> L \<Longrightarrow> m \<in> L \<Longrightarrow> po_epoll_fd (pollers w l) = po_epoll_fd (pollers w m) \<Longrightarrow> l = m"
    and "managed ch w \<Longrightarrow> ch < next_ptr w" and "managed ch w \<Longrightarrow> ch_loop (chans w ch) \<in> L"
    and "managed ch w \<Longrightarrow> index_ok (ch_loop (chans w ch)) ch w" and "managed ch w \<Longrightarrow> ch_fd (chans w ch) \<in> g_open G (kern w)"
    and "managed ch w \<Longrightarrow> managed d w \<Longrightarrow> ch_fd (chans w ch) = ch_fd (chans w d) \<Longrightarrow> ch = d"
    and "l \<in> L \<Longrightarrow> po_channels (pollers w l) f = Some c \<Longrightarrow> managed c w"
    and "l \<in> L \<Longrightarrow> po_channels (pollers w l) f = Some c \<Longrightarrow> ch_loop (chans w c) = l"
    and "l \<in> L \<Longrightarrow> po_epoll_fd (pollers w l) \<in> g_open G (kern w)"
  using assms unfolding registrations_ok_def inj_on_def by blast+

text \<open>What the registrations depend on in a channel.\<close>

definition reg :: "callback channel \<Rightarrow> ptr \<times> fd \<times> bits32 \<times> int \<times> (callback option \<times> callback option \<times> callback option \<times> callback option)" where
  "reg ch = (ch_loop ch, ch_fd ch, ch_events ch, ch_index ch, cbs ch)"

lemma regD:
  assumes "reg a = reg b"
  shows "ch_loop a = ch_loop b" and "ch_fd a = ch_fd b" and "ch_events a = ch_events b" and "ch_index a = ch_index b" and "cbs a = cbs b"
  using assms by (simp_all add: reg_def)

lemma reg_setters [simp]: "reg (SetRevents r ch) = reg ch" "reg (Tie x ch) = reg ch"
  by (simp_all add: reg_def SetRevents_def Tie_def cbs_def)

lemma managed_cbs: "cbs (chans w' ch) = cbs (chans w ch) \<Longrightarrow> managed ch w' = managed ch w"
  by (simp add: managed_def cbs_def)

lemma index_ok_cong:
  assumes "ch_index (chans w' c) = ch_index (chans w c)" and "ch_fd (chans w' c) = ch_fd (chans w c)"
    and "po_channels (pollers w' l) (ch_fd (chans w c)) = po_channels (pollers w l) (ch_fd (chans w c))"
  shows "index_ok l c w' = index_ok l c w"
  using assms by (simp add: index_ok_def HasChannel_def)

lemma registrations_ok_cong:
  assumes ok: "registrations_ok G L w" and quiet: "quiet G (kern w) (kern w')"
    and polls: "\<And>l. po_channels (pollers w' l) = po_channels (pollers w l)" "\<And>l. po_epoll_fd (pollers w' l) = po_epoll_fd (pollers w l)"
    and regs: "\<And>ch. reg (chans w' ch) = reg (chans w ch)" and np: "next_ptr w' = next_ptr w"
  shows "registrations_ok G L w'"
proof -
  note same = regD [OF regs]
  have managed: "managed ch w' = managed ch w" for ch by (rule managed_cbs) (rule same)
  have "poller_inv (g_ints G) l w'" if "l \<in> L" for l
    by (rule poller_inv_cong [OF registrations_okD(1) [OF ok that]]) (use quiet polls same in \<open>simp_all add: quiet_def\<close>)
  moreover have "index_ok l ch w' = index_ok l ch w" for l ch by (rule index_ok_cong) (simp_all add: same polls)
  ultimately show ?thesis
    using ok quiet unfolding registrations_ok_def managed np polls same quiet_def by blast
qed

text \<open>
  One registration step: channel \<open>ch\<close> and its loop's poller change, as far as the descriptor of the channel is
  concerned, and agree again.
\<close>

lemma registrations_ok_step:
  assumes ok: "registrations_ok G L w" and ch: "managed ch w" and l: "l = ch_loop (chans w ch)"
    and inv: "poller_inv (g_ints G) l w'" and idx: "index_ok l ch w'"
    and chans: "\<And>d. d \<noteq> ch \<Longrightarrow> chans w' d = chans w d"
    and same: "ch_loop (chans w' ch) = l" "ch_fd (chans w' ch) = ch_fd (chans w ch)" "cbs (chans w' ch) = cbs (chans w ch)"
    and others: "\<And>m. m \<noteq> l \<Longrightarrow> pollers w' m = pollers w m" and ep: "\<And>m. po_epoll_fd (pollers w' m) = po_epoll_fd (pollers w m)"
    and map: "\<And>f. f \<noteq> ch_fd (chans w ch) \<Longrightarrow> po_channels (pollers w' l) f = po_channels (pollers w l) f"
    and own: "po_channels (pollers w' l) (ch_fd (chans w ch)) \<in> {None, Some ch}"
    and opn: "g_open G (kern w) \<subseteq> g_open G (kern w')"
    and ints: "\<And>x. x \<noteq> po_epoll_fd (pollers w l) \<Longrightarrow> g_ints G (kern w') x = g_ints G (kern w) x"
    and np: "next_ptr w' = next_ptr w"
  shows "registrations_ok G L w'"
proof -
  note D = registrations_okD [OF ok]
  have L: "l \<in> L" using D(4) [OF ch] l by simp
  have managed: "managed d w' = managed d w" for d by (rule managed_cbs) (cases "d = ch"; simp add: chans same)
  have fields: "ch_loop (chans w' d) = ch_loop (chans w d)" "ch_fd (chans w' d) = ch_fd (chans w d)" for d
    by (cases "d = ch"; simp add: chans same l)+
  have "poller_inv (g_ints G) m w'" if m: "m \<in> L" for m
  proof (cases "m = l")
    case False
    have foreign: "c \<noteq> ch" if "po_channels (pollers w m) f = Some c" for f c using D(9) [OF m that] False l by auto
    have "po_epoll_fd (pollers w m) \<noteq> po_epoll_fd (pollers w l)" using D(2) [OF m L] False by blast
    then have "g_ints G (kern w') (po_epoll_fd (pollers w m)) = g_ints G (kern w) (po_epoll_fd (pollers w m))" by (rule ints)
    then show ?thesis
      using D(1) [OF m] foreign others [OF False] chans
      unfolding poller_inv_def by (auto split: option.splits)
  qed (simp add: inv)
  moreover have "index_ok (ch_loop (chans w d)) d w'" if d: "managed d w" for d
  proof (cases "d = ch")
    case False
    then have "ch_fd (chans w d) \<noteq> ch_fd (chans w ch)" using D(7) [OF d ch] by blast
    then have "po_channels (pollers w' m) (ch_fd (chans w d)) = po_channels (pollers w m) (ch_fd (chans w d))" for m
      using map others by (cases "m = l") simp_all
    then show ?thesis using D(5) [OF d] index_ok_cong [of w' d w] chans [OF False] by simp
  qed (use idx l in simp)
  moreover have "managed c w \<and> ch_loop (chans w c) = m" if "m \<in> L" "po_channels (pollers w' m) f = Some c" for m f c
    using that D(8,9) [OF that(1), of f c] own map [of f] others [of m] ch l
    by (cases "m = l"; cases "f = ch_fd (chans w ch)") auto
  ultimately show ?thesis
    unfolding registrations_ok_def managed fields np
  proof (intro conjI allI ballI impI; (elim conjE)?)
    show "inj_on (\<lambda>l. po_epoll_fd (pollers w' l)) L" using ok by (simp add: registrations_ok_def ep)
    show "d = c" if "managed d w" "managed c w" "ch_fd (chans w d) = ch_fd (chans w c)" for d c by (rule D(7) [OF that])
    show "d < next_ptr w" "ch_loop (chans w d) \<in> L" "ch_fd (chans w d) \<in> g_open G (kern w')" if "managed d w" for d
      using D(3,4,6) [OF that] opn by auto
    show "po_epoll_fd (pollers w' m) \<in> g_open G (kern w')" if "m \<in> L" for m using D(10) [OF that] opn by (auto simp: ep)
  qed blast+
qed


text \<open>Changing an interest and removing a channel are such steps.\<close>

lemma epoll_ctl_effect:
  assumes "kernel_laws e G" and "k' = snd (sys_epoll_ctl e ep op f ev k)"
  shows "g_open G k \<subseteq> g_open G k'" and "x \<noteq> ep \<Longrightarrow> g_ints G k' x = g_ints G k x"
proof -
  show "g_open G k \<subseteq> g_open G k'" using assms by (simp add: kernel_laws_def epoll_keeps_open_def)
  have ok: "epoll_ctl_ok e (g_ints G)" using assms(1) by (simp add: kernel_laws_def)
  obtain r where r: "sys_epoll_ctl e ep op f ev k = (r, k')" using assms(2) by (metis surjective_pairing)
  show "g_ints G k' x = g_ints G k x" if "x \<noteq> ep"
    using epoll_ctl_okD [OF ok, of ep op f ev k] epoll_ctl_ok_errD [OF ok, of ep op f ev k] r that by (cases r) simp_all
qed

lemma Update_kern:
  assumes "Update e l op c w = Inr w'"
  shows "kern w' = snd (sys_epoll_ctl e (po_epoll_fd (pollers w l)) op (ch_fd (chans w c)) (registration (chans w c) c) (kern w))"
  using assms by (auto simp: Update_def split: prod.splits sysres.splits if_splits)

lemma UpdateChannel_effect:
  assumes "UpdateChannel e l c w = Inr w'"
  shows "\<exists>op ev. kern w' = snd (sys_epoll_ctl e (po_epoll_fd (pollers w l)) op (ch_fd (chans w c)) ev (kern w))"
    and "f \<noteq> ch_fd (chans w c) \<Longrightarrow> po_channels (pollers w' l) f = po_channels (pollers w l) f"
    and "po_channels (pollers w' l) (ch_fd (chans w c)) \<in> {Some c, po_channels (pollers w l) (ch_fd (chans w c))}"
proof -
  show "\<exists>op ev. kern w' = snd (sys_epoll_ctl e (po_epoll_fd (pollers w l)) op (ch_fd (chans w c)) ev (kern w))"
    using assms by (fastforce simp: UpdateChannel_def Let_def dest: Update_kern split: if_splits)
  show "f \<noteq> ch_fd (chans w c) \<Longrightarrow> po_channels (pollers w' l) f = po_channels (pollers w l) f"
    "po_channels (pollers w' l) (ch_fd (chans w c)) \<in> {Some c, po_channels (pollers w l) (ch_fd (chans w c))}"
    using assms by (auto simp: UpdateChannel_def Let_def dest!: Update_frame split: if_splits)
qed

lemma RemoveChannel_effect:
  assumes "RemoveChannel e l c w = Inr w'"
  shows "kern w' = kern w \<or> (\<exists>op ev. kern w' = snd (sys_epoll_ctl e (po_epoll_fd (pollers w l)) op (ch_fd (chans w c)) ev (kern w)))"
    and "po_channels (pollers w' l) f = (if f = ch_fd (chans w c) then None else po_channels (pollers w l) f)"
proof -
  show "kern w' = kern w \<or> (\<exists>op ev. kern w' = snd (sys_epoll_ctl e (po_epoll_fd (pollers w l)) op (ch_fd (chans w c)) ev (kern w)))"
    using assms by (fastforce simp: RemoveChannel_def Let_def andThen_eq_Inr dest: Update_kern split: if_splits)
  show "po_channels (pollers w' l) f = (if f = ch_fd (chans w c) then None else po_channels (pollers w l) f)"
    using assms by (auto simp: RemoveChannel_def Let_def andThen_eq_Inr dest!: Update_frame split: if_splits)
qed

lemma managed_host:
  assumes "kernel_laws e G" and "registrations_ok G L w" and "managed ch w"
  shows "poller_inv (g_ints G) (ch_loop (chans w ch)) w" and "index_ok (ch_loop (chans w ch)) ch w"
    and "po_channels (pollers w (ch_loop (chans w ch))) (ch_fd (chans w ch)) \<in> {None, Some ch}"
proof -
  show "poller_inv (g_ints G) (ch_loop (chans w ch)) w" using registrations_okD(1,4) [OF assms(2)] assms(3) by blast
  show idx: "index_ok (ch_loop (chans w ch)) ch w" by (rule registrations_okD(5) [OF assms(2,3)])
  then show "po_channels (pollers w (ch_loop (chans w ch))) (ch_fd (chans w ch)) \<in> {None, Some ch}"
    by (auto simp: index_ok_def HasChannel_def split: if_splits)
qed

lemma interest_succeeds:
  assumes laws: "kernel_laws e G" and ok: "registrations_ok G L w" and ch: "managed ch w"
  obtains w' i where "Channel_Update e ch (on_chan (\<lambda>c. SetEvents (m c) c) ch w) = Inr w'" and "registrations_ok G L w'"
    and "chans w' = (chans w)(ch := SetIndex i (SetEvents (m (chans w ch)) (chans w ch)))"
    and "loops w' = loops w" and "conns w' = conns w" and "tcp_world.more w' = tcp_world.more w"
    and "loop_in_this_thread w' = loop_in_this_thread w" and "g_open G (kern w) \<subseteq> g_open G (kern w')"
proof -
  let ?l = "ch_loop (chans w ch)" and ?ev = "m (chans w ch)"
  note host = managed_host [OF laws ok ch]
  have same: "on_chan (\<lambda>c. SetEvents (m c) c) ch w = on_chan (SetEvents ?ev) ch w" by (simp add: on_chan_def)
  obtain w' where w': "set_interest e ?l ?ev ch w = Inr w'" "poller_inv (g_ints G) ?l w'" "index_ok ?l ch w'"
    by (rule set_interest_registers [OF kernel_lawsD(1,2) [OF laws] host(1,2), of ?ev])
  then have up: "Channel_Update e ch (on_chan (SetEvents ?ev) ch w) = Inr w'"
    by (simp add: Channel_Update_def EventLoop_UpdateChannel_def set_interest_def)
  note fr = Channel_Update_frame [OF up] and con = Channel_Update_conns [OF up]
    and upd = w'(1) [unfolded set_interest_def] and frame = UpdateChannel_frame [OF w'(1) [unfolded set_interest_def]]
  obtain i where i: "chans w' = (chans w)(ch := SetIndex i (SetEvents ?ev (chans w ch)))" using fr(4) by auto
  obtain op ev where "kern w' = snd (sys_epoll_ctl e (po_epoll_fd (pollers w ?l)) op (ch_fd (chans w ch)) ev (kern w))"
    using UpdateChannel_effect(1) [OF upd] by auto
  note eff = epoll_ctl_effect [OF laws this]
  have np: "next_ptr w' = next_ptr w" using more_server(3) [of w' w] con(2) by (simp add: on_chan_def)
  have "registrations_ok G L w'"
  proof (rule registrations_ok_step [OF ok ch refl w'(2,3)])
    show "po_channels (pollers w' ?l) (ch_fd (chans w ch)) \<in> {None, Some ch}"
      using UpdateChannel_effect(3) [OF upd] host(3) by auto
    show "po_channels (pollers w' ?l) f = po_channels (pollers w ?l) f" if "f \<noteq> ch_fd (chans w ch)" for f
      using UpdateChannel_effect(2) [OF upd] that by simp
  qed (use eff frame(2,3) np i in \<open>simp_all add: cbs_def SetIndex_def SetEvents_def\<close>)
  then show ?thesis using up fr con i eff(1) by (intro that [of w' i]) (simp_all add: same on_chan_def)
qed

lemma removal_succeeds:
  assumes laws: "kernel_laws e G" and ok: "registrations_ok G L w" and ch: "managed ch w"
  obtains w' where "Channel_Remove e ch w = Inr w'" and "registrations_ok G L w'"
    and "chans w' = (chans w)(ch := SetIndex (-1) (chans w ch))"
    and "loops w' = loops w" and "conns w' = conns w" and "tcp_world.more w' = tcp_world.more w"
    and "loop_in_this_thread w' = loop_in_this_thread w" and "g_open G (kern w) \<subseteq> g_open G (kern w')"
proof -
  let ?l = "ch_loop (chans w ch)"
  note host = managed_host [OF laws ok ch]
  obtain w' where w': "RemoveChannel e ?l ch w = Inr w'" "poller_inv (g_ints G) ?l w'" "index_ok ?l ch w'"
    by (rule RemoveChannel_unregisters [OF kernel_lawsD(1,2) [OF laws] host(1,2)])
  then have rem: "Channel_Remove e ch w = Inr w'" by (simp add: Channel_Remove_def EventLoop_RemoveChannel_def)
  note fr = Channel_Remove_frame [OF rem] and con = Channel_Remove_conns [OF rem] and frame = RemoveChannel_frame [OF w'(1)]
  have chans: "chans w' = (chans w)(ch := SetIndex (-1) (chans w ch))" using fr(4) by auto
  have eff: "g_open G (kern w) \<subseteq> g_open G (kern w')" "x \<noteq> po_epoll_fd (pollers w ?l) \<Longrightarrow> g_ints G (kern w') x = g_ints G (kern w) x" for x
    using RemoveChannel_effect(1) [OF w'(1)] epoll_ctl_effect [OF laws] by (elim disjE exE; simp)+
  have "registrations_ok G L w'"
    by (rule registrations_ok_step [OF ok ch refl w'(2,3)])
       (use eff frame(2,3) more_server(3) [OF con(2)] chans RemoveChannel_effect(2) [OF w'(1)] in \<open>simp_all add: cbs_def SetIndex_def\<close>)
  then show ?thesis using rem fr con chans eff(1) by (intro that [of w']) simp_all
qed

text \<open>A new channel, at the next free address and for a descriptor that was not open.\<close>

lemma registrations_ok_new_channel:
  assumes ok: "registrations_ok G L w" and quiet: "quiet G (kern w) (kern w')" and polls: "pollers w' = pollers w"
    and chans: "chans w' = (chans w)(ch := a)" and ch: "\<not> managed ch w" "next_ptr w \<le> next_ptr w'" "ch < next_ptr w'"
    and a: "ch_loop a \<in> L" "ch_index a = kNew" "ch_fd a \<in> g_open G (kern w')" "\<And>c. managed c w \<Longrightarrow> ch_fd a \<noteq> ch_fd (chans w c)"
  shows "registrations_ok G L w'"
proof -
  note D = registrations_okD [OF ok]
  have old: "d \<noteq> ch" if "managed d w" for d using that ch(1) by blast
  have entry: "c \<noteq> ch" if "l \<in> L" "po_channels (pollers w l) f = Some c" for l f c using old [OF D(8) [OF that]] .
  have managed: "managed d w' \<Longrightarrow> d = ch \<or> managed d w" for d by (auto simp: managed_def chans split: if_splits)
  have kept: "managed d w'" if "managed d w" for d using that old by (auto simp: managed_def chans)
  have fresh: "po_channels (pollers w l) (ch_fd a) = None" if l: "l \<in> L" for l
  proof (rule ccontr)
    assume "po_channels (pollers w l) (ch_fd a) \<noteq> None"
    then obtain c where c: "po_channels (pollers w l) (ch_fd a) = Some c" by blast
    then have "ch_fd (chans w c) = ch_fd a" using D(1) [OF l] by (simp add: poller_inv_def)
    then show False using a(4) [OF D(8) [OF l c]] by simp
  qed
  have inv: "poller_inv (g_ints G) l w'" if l: "l \<in> L" for l
    using D(1) [OF l] entry [OF l] quiet unfolding poller_inv_def quiet_def polls
    by (auto simp: chans split: option.splits)
  have idx: "index_ok (ch_loop (chans w' d)) d w'" if "managed d w'" for d
  proof (cases "d = ch")
    case False
    then show ?thesis using managed [OF that] D(5) [of d] index_ok_cong [of w' d w] by (simp add: chans polls)
  qed (use a fresh in \<open>simp add: index_ok_def chans polls\<close>)
  show ?thesis
    unfolding registrations_ok_def
  proof (intro conjI allI ballI impI; (elim conjE)?)
    show "inj_on (\<lambda>l. po_epoll_fd (pollers w' l)) L" using ok by (simp add: registrations_ok_def polls)
    show "po_epoll_fd (pollers w' m) \<in> g_open G (kern w')" if "m \<in> L" for m using D(10) [OF that] quiet by (auto simp: polls quiet_def)
    fix d assume d: "managed d w'"
    then show "d < next_ptr w'" "ch_loop (chans w' d) \<in> L" "ch_fd (chans w' d) \<in> g_open G (kern w')"
      using managed [OF d] D(3,4,6) [of d] a ch quiet by (auto simp: chans quiet_def)
    show "d = c" if "managed c w'" "ch_fd (chans w' d) = ch_fd (chans w' c)" for c
      proof (cases "d = ch"; cases "c = ch")
      assume "d = ch" "c \<noteq> ch"
      then show ?thesis using a(4) [of c] managed [OF that(1)] that(2) by (simp add: chans)
    next
      assume "d \<noteq> ch" "c = ch"
      then show ?thesis using a(4) [of d] managed [OF d] that(2) by (simp add: chans)
    next
      assume "d \<noteq> ch" "c \<noteq> ch"
      then show ?thesis using managed [OF that(1)] managed [OF d] that(2) by (intro D(7)) (simp_all add: chans)
    qed simp
  next
    fix l f c assume "l \<in> L" "po_channels (pollers w' l) f = Some c"
    then show "managed c w'" "ch_loop (chans w' c) = l" using D(8,9) [of l f c] entry [of l f c] kept [of c] by (simp_all add: polls chans)
  qed (use inv idx in auto)
qed


text \<open>A new loop, with a poller whose epoll instance was not open.\<close>

lemma registrations_ok_new_loop:
  assumes ok: "registrations_ok G L w" and l: "l \<notin> L" and ep: "opens G ep (kern w) (kern w')" "g_open G (kern w) \<subseteq> g_open G (kern w')"
    "g_ints G (kern w') = (g_ints G (kern w))(ep := (\<lambda>_. None))"
    and polls: "pollers w' = (pollers w)(l := p)" "po_channels p = Map.empty" "po_epoll_fd p = ep"
    and chans: "chans w' = chans w" and np: "next_ptr w' = next_ptr w"
  shows "registrations_ok G (insert l L) w'"
proof -
  note D = registrations_okD [OF ok]
  have managed: "managed d w' = managed d w" for d by (simp add: managed_def chans)
  have other: "m \<noteq> l" if "m \<in> L" for m using that l by blast
  have far: "po_epoll_fd (pollers w m) \<noteq> ep" if "m \<in> L" for m using D(10) [OF that] ep(1) by (auto simp: opens_def)
  have inv: "poller_inv (g_ints G) m w'" if "m \<in> insert l L" for m
  proof (cases "m = l")
    case False
    then have "m \<in> L" using that by simp
    then show ?thesis using D(1) [of m] far [of m] False unfolding poller_inv_def chans by (simp add: polls ep)
  qed (simp add: poller_inv_def polls ep)
  have entry: "managed c w \<and> ch_loop (chans w c) = m" if "m \<in> insert l L" "po_channels (pollers w' m) f = Some c" for m f c
  proof (cases "m = l")
    case False
    then show ?thesis using that D(8,9) [of m f c] by (simp add: polls)
  qed (use that in \<open>simp add: polls\<close>)
  show ?thesis
    unfolding registrations_ok_def managed chans np
  proof (intro conjI allI ballI impI; (elim conjE)?)
    show "inj_on (\<lambda>l. po_epoll_fd (pollers w' l)) (insert l L)"
      unfolding inj_on_def polls(1) using D(2) far other by (simp add: polls(3)) metis
    show "d < next_ptr w" "ch_loop (chans w d) \<in> insert l L" "ch_fd (chans w d) \<in> g_open G (kern w')" if "managed d w" for d
      using D(3,4,6) [OF that] ep(2) by auto
    show "index_ok (ch_loop (chans w d)) d w'" if "managed d w" for d
      using index_ok_cong [of w' d w "ch_loop (chans w d)"] D(4,5) [OF that] other [of "ch_loop (chans w d)"] by (simp add: chans polls)
    show "d = c" if "managed d w" "managed c w" "ch_fd (chans w d) = ch_fd (chans w c)" for d c by (rule D(7) [OF that])
    show "po_epoll_fd (pollers w' m) \<in> g_open G (kern w')" if "m \<in> insert l L" for m
      using that D(10) [of m] ep(1,2) by (cases "m = l") (auto simp: polls opens_def)
  qed (use inv entry in simp_all)
qed

text \<open>Addresses are taken from \<open>next_ptr\<close> on.\<close>

lemma registrations_ok_alloc:
  assumes "registrations_ok G L w" and "next_ptr w \<le> n"
  shows "registrations_ok G L (w\<lparr>next_ptr := n\<rparr>)"
proof -
  have "poller_inv (g_ints G) l (w\<lparr>next_ptr := n\<rparr>)" if "poller_inv (g_ints G) l w" for l
    by (rule poller_inv_cong [OF that]) simp_all
  moreover have "index_ok l ch (w\<lparr>next_ptr := n\<rparr>) = index_ok l ch w" for l ch by (rule index_ok_cong) simp_all
  ultimately show ?thesis using assms by (auto simp: registrations_ok_def managed_def)
qed

end
