(* ===== verification/Safe_Operations.thy ===== *)
theory Safe_Operations
  imports Registrations
begin

text \<open>
  The invariant of a running program, \<open>good\<close>, and the operations under it: the registrations agree, every closure in a channel,
  in a queue or in a batch names an object that exists and may be called, and every server can take connections. Each
  operation that a callback, a functor or a thread runs is \<open>safe\<close>: it keeps the invariant, and the only faults it
  may end in are that a vector cannot grow any further and that a server has used up its connection ids.
\<close>

section \<open>The invariant\<close>

text \<open>
  A server that can take connections: its pool hands out loops that exist, and the application has set the
  callbacks that the library calls unconditionally.
\<close>

definition server_ready :: "ptr set \<Rightarrow> tcp_server \<Rightarrow> bool" where
  "server_ready L sv \<longleftrightarrow> pool_ok (sv_pool sv) \<and> set (GetAllLoops (sv_pool sv)) \<subseteq> L
     \<and> sv_connection_callback sv \<and> sv_message_callback sv"

definition acceptor_ready :: "ptr set \<Rightarrow> ('k, 'm) server_world_scheme \<Rightarrow> ptr \<Rightarrow> bool" where
  "acceptor_ready L w a \<longleftrightarrow> managed (ac_channel (acceptors w a)) w
     \<and> (\<exists>s. ac_new_connection_callback (acceptors w a) = Some s \<and> server_ready L (servers w s))"

definition conn_sound :: "('k, 'm) server_world_scheme \<Rightarrow> ptr \<Rightarrow> bool" where
  "conn_sound w c \<longleftrightarrow> wf_buffer (tc_input_buffer (conns w c)) \<and> wf_buffer (tc_output_buffer (conns w c))
     \<and> tc_connection_callback (conns w c) \<and> tc_message_callback (conns w c) \<and> (\<exists>s. tc_close_callback (conns w c) = Some (s, c))"

text \<open>What a closure needs in order to run.\<close>

definition callback_sound :: "ptr set \<Rightarrow> ('k, 'm) server_world_scheme \<Rightarrow> callback \<Rightarrow> bool" where
  "callback_sound L w cb \<longleftrightarrow> (case cb of
      LoopHandleRead l \<Rightarrow> True
    | AcceptorHandleRead a \<Rightarrow> acceptor_ready L w a
    | ConnHandleRead c \<Rightarrow> live c w
    | ConnHandleWrite c \<Rightarrow> live c w
    | ConnHandleClose c \<Rightarrow> live c w
    | ConnHandleError c \<Rightarrow> live c w)"

definition functor_sound :: "ptr set \<Rightarrow> ('k, 'm) server_world_scheme \<Rightarrow> Functor \<Rightarrow> bool" where
  "functor_sound L w f \<longleftrightarrow> (case f of
      FSendInLoop c msg \<Rightarrow> live c w \<and> length msg \<le> vector_max_size
    | FSendBuffer c d \<Rightarrow> live c w \<and> live d w
    | FShutdownInLoop c \<Rightarrow> live c w
    | FWriteComplete c \<Rightarrow> live c w \<and> tc_write_complete_callback (conns w c)
    | FHighWaterMark c n \<Rightarrow> live c w \<and> tc_high_water_mark_callback (conns w c)
    | FConnectEstablished c \<Rightarrow> live c w
    | FConnectDestroyed c \<Rightarrow> live c w
    | FRemoveConnectionInLoop s c \<Rightarrow> live c w
    | FListen a \<Rightarrow> acceptor_ready L w a
    | FUser n \<Rightarrow> True)"

definition objects_ok :: "ptr set \<Rightarrow> ('k, 'm) server_world_scheme \<Rightarrow> bool" where
  "objects_ok L w \<longleftrightarrow> (\<forall>ch cb. Some cb \<in> stored (chans w ch) \<longrightarrow> callback_sound L w cb)
     \<and> (\<forall>c. live c w \<longrightarrow> conn_sound w c) \<and> no_phantoms w
     \<and> (\<forall>s name c. sv_connections (servers w s) name = Some c \<longrightarrow> live c w)"

definition good :: "'k ghost \<Rightarrow> ptr set \<Rightarrow> (ptr \<Rightarrow> Functor list) \<Rightarrow> ('k, 'm) server_world_scheme \<Rightarrow> bool" where
  "good G L B w \<longleftrightarrow> registrations_ok G L w \<and> objects_ok L w \<and> (\<forall>l. \<forall>f \<in> set (queue B w l). functor_sound L w f)"

lemma goodD:
  assumes "good G L B w"
  shows "registrations_ok G L w" and "Some cb \<in> stored (chans w ch) \<Longrightarrow> callback_sound L w cb"
    and "live c w \<Longrightarrow> conn_sound w c" and "tc_state (conns w c) = kConnected \<Longrightarrow> live c w"
    and "sv_connections (servers w s) name = Some c \<Longrightarrow> live c w"
    and "f \<in> set (queue B w l) \<Longrightarrow> functor_sound L w f"
  using assms unfolding good_def objects_ok_def no_phantoms_def by blast+

lemma conn_soundD:
  assumes "conn_sound w c"
  shows "wf_buffer (tc_input_buffer (conns w c))" and "wf_buffer (tc_output_buffer (conns w c))"
    and "tc_connection_callback (conns w c)" and "tc_message_callback (conns w c)"
    and "\<exists>s. tc_close_callback (conns w c) = Some (s, c)"
  using assms by (simp_all add: conn_sound_def)

lemma good_buffers:
  assumes "good G L B w" and "live c w"
  shows "wf_buffer (tc_input_buffer (conns w c))" and "wf_buffer (tc_output_buffer (conns w c))"
  using conn_soundD(1,2) [OF goodD(3) [OF assms]] .

lemma live_managed: "live c w \<Longrightarrow> managed (tc_channel (conns w c)) w"
  by (simp add: live_def wired_def managed_def conn_chan_def)

text \<open>What stays true of the objects while the program runs.\<close>

definition persists :: "ptr set \<Rightarrow> ('k, 'm) server_world_scheme \<Rightarrow> ('k, 'm) server_world_scheme \<Rightarrow> bool" where
  "persists L w w' \<longleftrightarrow> (\<forall>c. live c w \<longrightarrow> live c w' \<and> same_conn (conns w c) (conns w' c))
     \<and> (\<forall>a. acceptor_ready L w a \<longrightarrow> acceptor_ready L w' a)"

lemma persists_refl [simp, intro]: "persists L w w"
  by (simp add: persists_def)

lemma persists_trans [trans]: "persists L a b \<Longrightarrow> persists L b c \<Longrightarrow> persists L a c"
  unfolding persists_def by (meson same_conn_trans)

lemma persistsD:
  assumes "persists L w w'" and "live c w"
  shows "live c w'" and "same_conn (conns w c) (conns w' c)"
  using assms by (simp_all add: persists_def)

lemma same_conn_cbs:
  assumes "same_conn a b"
  shows "tc_connection_callback b = tc_connection_callback a" and "tc_message_callback b = tc_message_callback a"
    and "tc_write_complete_callback b = tc_write_complete_callback a"
    and "tc_high_water_mark_callback b = tc_high_water_mark_callback a"
  using assms unfolding same_conn_def
  by (auto dest: arg_cong [of _ _ tc_connection_callback] arg_cong [of _ _ tc_message_callback]
      arg_cong [of _ _ tc_write_complete_callback] arg_cong [of _ _ tc_high_water_mark_callback])

lemma functor_sound_persists:
  assumes "persists L w w'" and "functor_sound L w f"
  shows "functor_sound L w' f"
  using assms(2) persistsD [OF assms(1)] same_conn_cbs assms(1) unfolding functor_sound_def persists_def
  by (cases f) (simp_all, metis+)

lemma callback_sound_persists: "persists L w w' \<Longrightarrow> callback_sound L w cb \<Longrightarrow> callback_sound L w' cb"
  by (auto simp: callback_sound_def persists_def split: callback.splits)

text \<open>
  Preservation, once and for all steps that construct nothing: the registrations are in order, callback slots
  and identities stay, buffers stay well formed, and what is queued is sound.
\<close>

lemma good_keep:
  assumes good: "good G L B w" and reg: "registrations_ok G L w'"
    and slots: "\<And>ch. cbs (chans w' ch) = cbs (chans w ch)" and np: "next_ptr w' = next_ptr w"
    and acc: "\<And>a. ac_channel (acceptors w' a) = ac_channel (acceptors w a)"
      "\<And>a. ac_new_connection_callback (acceptors w' a) = ac_new_connection_callback (acceptors w a)"
    and srv: "\<And>s. server_ready L (servers w s) \<Longrightarrow> server_ready L (servers w' s)"
    and ids: "\<And>c. same_conn (conns w c) (conns w' c)"
    and bufs: "\<And>c. live c w \<Longrightarrow> wf_buffer (tc_input_buffer (conns w' c)) \<and> wf_buffer (tc_output_buffer (conns w' c))"
    and idle: "\<And>c. \<not> live c w \<Longrightarrow> tc_state (conns w c) \<noteq> kConnected \<Longrightarrow> tc_state (conns w' c) \<noteq> kConnected"
    and maps: "\<And>s name c. sv_connections (servers w' s) name = Some c \<Longrightarrow> live c w"
    and queued: "\<And>l f. f \<in> set (queue B' w' l) \<Longrightarrow> functor_sound L w f"
  shows "good G L B' w' \<and> persists L w w'"
proof -
  have live: "live c w' = live c w" for c by (rule live_cong [OF np same_connD(6) [OF ids] slots])
  have managed: "managed ch w' = managed ch w" for ch by (rule managed_cbs) (rule slots)
  have "acceptor_ready L w a \<Longrightarrow> acceptor_ready L w' a" for a
    using srv unfolding acceptor_ready_def managed acc by blast
  then have persists: "persists L w w'" unfolding persists_def live using ids by blast
  have "callback_sound L w' cb" if "Some cb \<in> stored (chans w' ch)" for ch cb
    using that goodD(2) [OF good] callback_sound_persists [OF persists] unfolding stored_cbs [OF slots] by blast
  moreover have "conn_sound w' c" if "live c w" for c
    using conn_soundD [OF goodD(3) [OF good that]] bufs [OF that] same_conn_cbs [OF ids [of c]] same_connD(2) [OF ids [of c]]
    by (simp add: conn_sound_def)
  moreover have "no_phantoms w'" using goodD(4) [OF good] idle unfolding no_phantoms_def live by blast
  ultimately have "objects_ok L w'" using maps unfolding objects_ok_def live by blast
  then show ?thesis using reg persists queued functor_sound_persists [OF persists] unfolding good_def by blast
qed

lemma good_step:
  assumes good: "good G L B w" and "quiet G (kern w) (kern w')"
    and "\<And>l. po_channels (pollers w' l) = po_channels (pollers w l)" "\<And>l. po_epoll_fd (pollers w' l) = po_epoll_fd (pollers w l)"
    and regs: "\<And>ch. reg (chans w' ch) = reg (chans w ch)" and np: "next_ptr w' = next_ptr w"
    and "\<And>a. ac_channel (acceptors w' a) = ac_channel (acceptors w a)"
      "\<And>a. ac_new_connection_callback (acceptors w' a) = ac_new_connection_callback (acceptors w a)"
    and "\<And>s. server_ready L (servers w s) \<Longrightarrow> server_ready L (servers w' s)"
    and "\<And>c. same_conn (conns w c) (conns w' c)"
    and "\<And>c. live c w \<Longrightarrow> wf_buffer (tc_input_buffer (conns w' c)) \<and> wf_buffer (tc_output_buffer (conns w' c))"
    and "\<And>c. \<not> live c w \<Longrightarrow> tc_state (conns w c) \<noteq> kConnected \<Longrightarrow> tc_state (conns w' c) \<noteq> kConnected"
    and "\<And>s name c. sv_connections (servers w' s) name = Some c \<Longrightarrow> live c w"
    and "\<And>l f. f \<in> set (queue B' w' l) \<Longrightarrow> functor_sound L w f"
  shows "good G L B' w' \<and> persists L w w'"
  by (rule good_keep [OF good registrations_ok_cong [OF goodD(1) [OF good] assms(2-6)] regD(5) [OF regs] np assms(7-)]) auto

text \<open>The case of most steps: nothing of the server changes but the kernel's state, the trace and the loops' flags.\<close>

lemma good_same:
  assumes good: "good G L B w" and "quiet G (kern w) (kern w')" and "pollers w' = pollers w"
    and "\<And>ch. reg (chans w' ch) = reg (chans w ch)" and "conns w' = conns w" and more: "tcp_world.more w' = tcp_world.more w"
    and queued: "\<And>l f. f \<in> set (queue B' w' l) \<Longrightarrow> functor_sound L w f"
  shows "good G L B' w' \<and> persists L w w'"
  by (rule good_step [OF good]) (use assms more_server [OF more] good_buffers [OF good] goodD(5) [OF good] in \<open>simp_all\<close>)

section \<open>Safe operations\<close>

definition safe :: "'k ghost \<Rightarrow> ptr set \<Rightarrow> (ptr \<Rightarrow> Functor list) \<Rightarrow> ('k, 'm) server_world_scheme \<Rightarrow> ('k, 'm) server_world_scheme result \<Rightarrow> bool" where
  "safe G L B w r \<longleftrightarrow> (case r of Inl x \<Rightarrow> x = LengthError \<or> x = IntOverflow | Inr w' \<Rightarrow> good G L B w' \<and> persists L w w')"

lemma safe_Inr [simp]: "safe G L B w (Inr w') \<longleftrightarrow> good G L B w' \<and> persists L w w'"
  by (simp add: safe_def)

lemma safe_Inl [simp]: "safe G L B w (Inl x) \<longleftrightarrow> x = LengthError \<or> x = IntOverflow"
  by (simp add: safe_def)

lemma safe_after: "persists L w v \<Longrightarrow> safe G L B v r \<Longrightarrow> safe G L B w r"
  unfolding safe_def by (auto split: sum.splits intro: persists_trans)

lemma safe_andThen:
  assumes "safe G L B w m" and "\<And>v. m = Inr v \<Longrightarrow> good G L B v \<Longrightarrow> persists L w v \<Longrightarrow> safe G L B v (f v)"
  shows "safe G L B w (andThen m f)"
  using assms by (cases m) (auto intro: safe_after)

lemma safe_foldE:
  assumes "good G L B w" and "\<And>x v. x \<in> set xs \<Longrightarrow> good G L B v \<Longrightarrow> persists L w v \<Longrightarrow> safe G L B v (f x v)"
  shows "safe G L B w (foldE f xs w)"
  using assms
proof (induction xs arbitrary: w)
  case (Cons x xs)
  have "safe G L B v (foldE f xs v)" if "good G L B v" "persists L w v" for v
    using Cons.prems(2) persists_trans [OF that(2)] by (intro Cons.IH [OF that(1)]) simp_all
  then show ?case using Cons.prems by (auto intro!: safe_andThen)
qed simp


section \<open>The operations of loops and channels\<close>

lemma good_queue: "good G L B w \<Longrightarrow> f \<in> set (queue B w l) \<Longrightarrow> functor_sound L w f"
  by (rule goodD(6))

lemma Wakeup_quiet:
  assumes "kernel_laws e G"
  shows "quiet G (kern w) (kern (Wakeup e l w))"
  using io_quietD(1) [OF assms] by (auto simp: Wakeup_def split: prod.split)

lemma QueueInLoop_quiet:
  assumes "kernel_laws e G"
  shows "quiet G (kern w) (kern (QueueInLoop e me l f w))" and "quiet G (kern w) (kern (Quit e me l w))"
  using Wakeup_quiet [OF assms, of "on_loop (\<lambda>lp. lp\<lparr>el_pending_functors := el_pending_functors lp @ [f]\<rparr>) l w" l]
    Wakeup_quiet [OF assms, of "on_loop (\<lambda>lp. lp\<lparr>el_quit := True\<rparr>) l w" l]
  by (simp_all add: QueueInLoop_def Quit_def Let_def)

lemma good_QueueInLoop:
  assumes "kernel_laws e G" and good: "good G L B w" and f: "functor_sound L w f"
  shows "good G L B (QueueInLoop e me l f w) \<and> persists L w (QueueInLoop e me l f w)"
proof (rule good_same [OF good QueueInLoop_quiet(1) [OF assms(1)]])
  fix m g assume "g \<in> set (queue B (QueueInLoop e me l f w) m)"
  then show "functor_sound L w g" using f goodD(6) [OF good, of g m] by (auto simp: queue_def split: if_splits)
qed simp_all

lemma good_Quit:
  assumes "kernel_laws e G" and good: "good G L B w"
  shows "good G L B (Quit e me l w) \<and> persists L w (Quit e me l w)"
proof (rule good_same [OF good QueueInLoop_quiet(2) [OF assms(1)]])
  fix m g assume "g \<in> set (queue B (Quit e me l w) m)"
  then show "functor_sound L w g" using goodD(6) [OF good, of g m] by (auto simp: queue_def split: if_splits)
qed simp_all

lemma good_kern:
  assumes "good G L B w" and "quiet G (kern w) k"
  shows "good G L B (w\<lparr>kern := k\<rparr>) \<and> persists L w (w\<lparr>kern := k\<rparr>)"
    and "good G L B (w\<lparr>kern := k, trace := tr\<rparr>) \<and> persists L w (w\<lparr>kern := k, trace := tr\<rparr>)"
  by (rule good_same [OF assms(1)]; use assms goodD(6) [OF assms(1)] in \<open>simp add: queue_def\<close>)+

lemma good_log_error:
  assumes "good G L B w"
  shows "good G L B (log_error m w) \<and> persists L w (log_error m w)"
  by (rule good_same [OF assms]) (use goodD(6) [OF assms] in \<open>simp_all add: queue_def\<close>)

lemma safe_RunInLoop:
  assumes "kernel_laws e G" and "good G L B w" and "functor_sound L w f" and "IsInLoopThread me l w \<Longrightarrow> safe G L B w (exec f w)"
  shows "safe G L B w (RunInLoop e me exec l f w)"
  using assms by (auto simp: RunInLoop_def good_QueueInLoop)

lemma safe_interest:
  assumes laws: "kernel_laws e G" and good: "good G L B w" and ch: "managed ch w"
  shows "safe G L B w (Channel_Update e ch (on_chan (\<lambda>c. SetEvents (m c) c) ch w))"
proof -
  obtain w' i where w': "Channel_Update e ch (on_chan (\<lambda>c. SetEvents (m c) c) ch w) = Inr w'" "registrations_ok G L w'"
    "chans w' = (chans w)(ch := SetIndex i (SetEvents (m (chans w ch)) (chans w ch)))"
    "loops w' = loops w" "conns w' = conns w" "tcp_world.more w' = tcp_world.more w"
    by (rule interest_succeeds [OF laws goodD(1) [OF good] ch])
  have "cbs (chans w' d) = cbs (chans w d)" for d by (simp add: w'(3) cbs_def SetIndex_def SetEvents_def)
  then have "good G L B w' \<and> persists L w w'"
    by (intro good_keep [OF good w'(2)])
       (use w'(4,5) more_server [OF w'(6)] good_buffers [OF good] goodD(5,6) [OF good] in \<open>simp_all add: queue_def\<close>)
  with w'(1) show ?thesis by simp
qed

lemma safe_interests:
  assumes "kernel_laws e G" and "good G L B w" and "managed ch w"
  shows "safe G L B w (EnableReading (Channel_Update e) ch w)" and "safe G L B w (EnableWriting (Channel_Update e) ch w)"
    and "safe G L B w (DisableWriting (Channel_Update e) ch w)" and "safe G L B w (DisableAll (Channel_Update e) ch w)"
  unfolding EnableReading_def EnableWriting_def DisableWriting_def DisableAll_def
  by (rule safe_interest [OF assms])+

lemma safe_removal:
  assumes laws: "kernel_laws e G" and good: "good G L B w" and ch: "managed ch w"
  shows "safe G L B w (Channel_Remove e ch w)"
proof -
  obtain w' where w': "Channel_Remove e ch w = Inr w'" "registrations_ok G L w'"
    "chans w' = (chans w)(ch := SetIndex (-1) (chans w ch))"
    "loops w' = loops w" "conns w' = conns w" "tcp_world.more w' = tcp_world.more w"
    by (rule removal_succeeds [OF laws goodD(1) [OF good] ch])
  have "cbs (chans w' d) = cbs (chans w d)" for d by (simp add: w'(3) cbs_def SetIndex_def)
  then have "good G L B w' \<and> persists L w w'"
    by (intro good_keep [OF good w'(2)])
       (use w'(4,5) more_server [OF w'(6)] good_buffers [OF good] goodD(5,6) [OF good] in \<open>simp_all add: queue_def\<close>)
  with w'(1) show ?thesis by simp
qed

section \<open>The operations of connections\<close>

text \<open>Changes of one live connection: its state, its buffers.\<close>

lemma good_on_conn:
  assumes good: "good G L B w" and "\<And>a. same_conn a (f a)"
    and "live c w \<Longrightarrow> wf_buffer (tc_input_buffer (f (conns w c))) \<and> wf_buffer (tc_output_buffer (f (conns w c)))"
    and "\<not> live c w \<Longrightarrow> tc_state (conns w c) \<noteq> kConnected \<Longrightarrow> tc_state (f (conns w c)) \<noteq> kConnected"
  shows "good G L B (on_conn f c w) \<and> persists L w (on_conn f c w)"
proof -
  have more: "tcp_world.more (on_conn f c w) = tcp_world.more w" by simp
  show ?thesis
    by (rule good_step [OF good]) (use assms more_server [OF more] good_buffers [OF good] goodD(5,6) [OF good] in \<open>auto simp: queue_def\<close>)
qed

lemma good_buffer_update:
  assumes "good G L B w" and "live c w \<Longrightarrow> wf_buffer (g (conns w c))"
  shows "good G L B (on_conn (\<lambda>conn. conn\<lparr>tc_input_buffer := g conn\<rparr>) c w) \<and> persists L w (on_conn (\<lambda>conn. conn\<lparr>tc_input_buffer := g conn\<rparr>) c w)"
    and "good G L B (on_conn (\<lambda>conn. conn\<lparr>tc_output_buffer := g conn\<rparr>) c w) \<and> persists L w (on_conn (\<lambda>conn. conn\<lparr>tc_output_buffer := g conn\<rparr>) c w)"
  by (rule good_on_conn [OF assms(1)]; use assms good_buffers [OF assms(1)] in \<open>simp add: same_conn_def\<close>)+

lemma good_retrieve:
  assumes "good G L B w"
  shows "good G L B (on_conn (\<lambda>conn. conn\<lparr>tc_input_buffer := Retrieve n (tc_input_buffer conn)\<rparr>) c w)
      \<and> persists L w (on_conn (\<lambda>conn. conn\<lparr>tc_input_buffer := Retrieve n (tc_input_buffer conn)\<rparr>) c w)"
    and "good G L B (on_conn (\<lambda>conn. conn\<lparr>tc_input_buffer := RetrieveAll (tc_input_buffer conn)\<rparr>) c w)
      \<and> persists L w (on_conn (\<lambda>conn. conn\<lparr>tc_input_buffer := RetrieveAll (tc_input_buffer conn)\<rparr>) c w)"
  by (rule good_buffer_update(1) [OF assms]; use good_buffers(1) [OF assms] in blast)+

lemma good_SetState:
  assumes "good G L B w" and "live c w"
  shows "good G L B (on_conn (SetState st) c w) \<and> persists L w (on_conn (SetState st) c w)"
  by (rule good_on_conn [OF assms(1)]) (use assms good_buffers [OF assms(1)] in \<open>simp_all add: same_conn_def SetState_def\<close>)

lemma good_SetContext:
  assumes "good G L B w"
  shows "good G L B (on_conn (SetContext v) c w) \<and> persists L w (on_conn (SetContext v) c w)"
  by (rule good_on_conn [OF assms(1)]) (use assms good_buffers [OF assms(1)] in \<open>simp_all add: same_conn_def SetContext_def\<close>)

lemma good_ShutdownWrite:
  assumes "kernel_laws e G" and "good G L B w"
  shows "good G L B (ShutdownWrite e f w) \<and> persists L w (ShutdownWrite e f w)"
  using good_kern(2) [OF assms(2)] io_quietD(4) [OF assms(1)] by (auto simp: ShutdownWrite_def split: prod.split sysres.split)


section \<open>Sending\<close>

lemma send_now_good:
  assumes laws: "kernel_laws e G" and good: "good G L B w" and live: "live c w" and len: "length data \<le> vector_max_size"
    and now: "send_now e me c data w = (nwrote, remaining, fault, w')"
  shows "good G L B w' \<and> persists L w w'" and "unat remaining \<le> length (drop nwrote data)"
proof -
  have n: "unat (of_nat (length data) :: size_t) = length data" using len by (intro unat_of_nat_size_t) (simp add: vector_max_size_def)
  obtain r k where r: "sys_write e (ch_fd (conn_chan w c)) data (kern w) = (r, k)" by fastforce
  have quiet: "quiet G (kern w) k" by (rule io_quietD(1) [OF laws r])
  note same = good_kern [OF good quiet]
  have rem: "unat (of_nat (length data) - of_nat m :: size_t) \<le> length (drop m data)" if "r = SysOk m" for m
  proof -
    have m: "m \<le> length data" using r that kernel_lawsD(3) [OF laws] unfolding write_ok_def by blast
    then have "unat (of_nat m :: size_t) = m" using len by (intro unat_of_nat_size_t) (simp add: vector_max_size_def)
    then show ?thesis using n m by (simp add: unat_diff_size_t word_le_nat_alt)
  qed
  have queued: "good G L B (QueueInLoop e me l (FWriteComplete c) v) \<and> persists L w (QueueInLoop e me l (FWriteComplete c) v)"
    if v: "good G L B v \<and> persists L w v" and cb: "tc_write_complete_callback (conns w c)" for l v
  proof -
    have "functor_sound L v (FWriteComplete c)"
      using functor_sound_persists [of L w v "FWriteComplete c"] v live cb by (simp add: functor_sound_def)
    then show ?thesis using good_QueueInLoop [OF laws] v persists_trans by blast
  qed
  show "good G L B w' \<and> persists L w w'"
  proof (cases "\<not> IsWriting (conn_chan w c) \<and> ReadableBytes (tc_output_buffer (conns w c)) = 0")
    case True
    show ?thesis
    proof (cases r)
      case (SysErr errno)
      have "good G L B (log_error m (w\<lparr>kern := k\<rparr>)) \<and> persists L w (log_error m (w\<lparr>kern := k\<rparr>))" for m
        using same(1) good_log_error persists_trans by blast
      then show ?thesis using now r same(1) True SysErr by (auto simp: send_now_def Let_def split: if_splits)
    next
      case (SysOk m)
      then show ?thesis using now r same(2) queued True by (auto simp: send_now_def Let_def split: if_splits)
    qed
  qed (use now good in \<open>auto simp: send_now_def Let_def\<close>)
  show "unat remaining \<le> length (drop nwrote data)"
    using now r rem n by (auto simp: send_now_def Let_def split: if_splits sysres.splits)
qed

lemma safe_send_rest:
  assumes laws: "kernel_laws e G" and good: "good G L B w" and live: "live c w"
    and len: "unat remaining \<le> length rest" "length rest \<le> vector_max_size"
  shows "safe G L B w (send_rest e me c rest remaining w)"
proof -
  let ?old = "ReadableBytes (tc_output_buffer (conns w c))"
  define v where "v = (if ?old + remaining \<ge> tc_high_water_mark (conns w c) \<and> ?old < tc_high_water_mark (conns w c)
      \<and> tc_high_water_mark_callback (conns w c)
    then QueueInLoop e me (tc_loop (conns w c)) (FHighWaterMark c (?old + remaining)) w else w)"
  have v: "good G L B v \<and> persists L w v"
    using good good_QueueInLoop [OF laws good, of "FHighWaterMark c (?old + remaining)"] live by (simp add: v_def functor_sound_def)
  have con: "conns v = conns w" by (simp add: v_def)
  have liv: "live c v" using persistsD(1) v live by blast
  have "safe G L B v (andThen (Append rest remaining (tc_output_buffer (conns w c))) (\<lambda>b.
           let u = on_conn (\<lambda>conn. conn\<lparr>tc_output_buffer := b\<rparr>) c v
           in if \<not> IsWriting (conn_chan u c) then EnableWriting (Channel_Update e) (tc_channel (conns w c)) u else Inr u))"
    using Append_outcome [OF good_buffers(2) [OF good live] len(1) order_trans [OF len]]
  proof (elim disjE exE conjE)
    fix b assume b: "Append rest remaining (tc_output_buffer (conns w c)) = Inr b" "wf_buffer b"
    let ?u = "on_conn (\<lambda>conn. conn\<lparr>tc_output_buffer := b\<rparr>) c v"
    have u: "good G L B ?u \<and> persists L v ?u" using good_buffer_update(2) [of G L B v c "\<lambda>_. b"] v b(2) by blast
    then have "managed (tc_channel (conns w c)) ?u" using live_managed [of c ?u] persistsD(1) [of L v ?u] liv by (simp add: con)
    then have "safe G L B v (EnableWriting (Channel_Update e) (tc_channel (conns w c)) ?u)"
      using safe_after safe_interests(2) [OF laws] u by blast
    then show ?thesis using u b(1) by (simp add: Let_def)
  qed simp_all
  then show ?thesis using safe_after v unfolding send_rest_def Let_def v_def [symmetric] by blast
qed

lemma safe_SendInLoop:
  assumes laws: "kernel_laws e G" and good: "good G L B w" and live: "live c w" and len: "length data \<le> vector_max_size"
  shows "safe G L B w (SendInLoop e me c data w)"
proof -
  obtain nwrote remaining fault v where now: "send_now e me c data w = (nwrote, remaining, fault, v)" by (metis prod_cases4)
  note v = send_now_good [OF laws good live len now]
  have "safe G L B v (send_rest e me c (drop nwrote data) remaining v)"
    using safe_send_rest [OF laws _ persistsD(1) [OF _ live] v(2), of L B] v(1) len by auto
  then show ?thesis using v(1) safe_after good_log_error [OF good] by (auto simp: SendInLoop_def now)
qed

lemma safe_send_buffer_body:
  assumes laws: "kernel_laws e G" and good: "good G L B w" and live: "live c w" "live d w"
  shows "safe G L B w (send_buffer_body e me c d w)"
proof -
  let ?b = "tc_input_buffer (conns w d)"
  note wf = good_buffers(1) [OF good live(2)]
  have "length (content ?b) \<le> vector_max_size" using wf unfolding length_content [OF wf] unat_ReadableBytes [OF wf] wf_buffer_def by linarith
  then have "safe G L B w (SendInLoop e me c (content ?b) w)" by (rule safe_SendInLoop [OF laws good live(1)])
  then have "safe G L B w (andThen (SendInLoop e me c (content ?b) w) (\<lambda>w.
      Inr (on_conn (\<lambda>conn. conn\<lparr>tc_input_buffer := RetrieveAll (tc_input_buffer conn)\<rparr>) d w)))"
  proof (rule safe_andThen)
    fix v assume "good G L B v"
    then show "safe G L B v (Inr (on_conn (\<lambda>conn. conn\<lparr>tc_input_buffer := RetrieveAll (tc_input_buffer conn)\<rparr>) d v))"
      unfolding safe_Inr by (rule good_retrieve(2))
  qed
  then show ?thesis by (simp add: send_buffer_body_def Let_def read_bytes_all [OF wf])
qed

lemma safe_ShutdownInLoop:
  assumes "kernel_laws e G" and "good G L B w"
  shows "safe G L B w (ShutdownInLoop e c w)"
  using good_ShutdownWrite [OF assms] assms(2) by (simp add: ShutdownInLoop_def)

section \<open>Library calls of the application\<close>

text \<open>\<open>Send\<close> and \<open>Shutdown\<close> do something for a connected connection only, and such a connection exists.\<close>

lemma safe_perform:
  assumes laws: "kernel_laws e G" and good: "good G L B w" and a: "sendable a" and buf: "\<And>d. buf = Some d \<Longrightarrow> live d w"
  shows "safe G L B w (perform e me buf a w)"
proof (cases a)
  case (DoSend c bs)
  then have len: "length bs \<le> vector_max_size" using a by (simp add: sendable_def)
  show ?thesis
    using DoSend good safe_SendInLoop [OF laws good goodD(4) [OF good] len]
      safe_RunInLoop [OF laws good, of "FSendInLoop c bs"] goodD(4) [OF good] len
    by (simp add: perform_def Send_def functor_sound_def)
next
  case (DoSendBuffer c)
  then show ?thesis
    using good buf safe_send_buffer_body [OF laws good goodD(4) [OF good]] safe_RunInLoop [OF laws good] goodD(4) [OF good]
    by (simp add: perform_def Send_Buffer_def functor_sound_def split: option.split)
next
  case (DoShutdown c)
  let ?w = "on_conn (SetState kDisconnecting) c w"
  show ?thesis
  proof (cases "tc_state (conns w c) = kConnected")
    case True
    then have live: "live c w" by (rule goodD(4) [OF good])
    have w: "good G L B ?w \<and> persists L w ?w" by (rule good_SetState [OF good live])
    then have "functor_sound L ?w (FShutdownInLoop c)" using persistsD(1) [of L w ?w c] live by (simp add: functor_sound_def)
    then have "safe G L B ?w (RunInLoop e me (\<lambda>_. ShutdownInLoop e c) (tc_loop (conns w c)) (FShutdownInLoop c) ?w)"
      using w safe_ShutdownInLoop [OF laws] by (intro safe_RunInLoop [OF laws]) blast+
    then show ?thesis using DoShutdown True w safe_after by (simp add: perform_def Shutdown_def) blast
  qed (use DoShutdown good in \<open>simp add: perform_def Shutdown_def\<close>)
next
  case (DoRetrieve n)
  then show ?thesis
    using good good_retrieve(1) [OF good] by (simp add: perform_def split: option.split)
next
  case DoRetrieveAll
  then show ?thesis
    using good good_retrieve(2) [OF good] by (simp add: perform_def split: option.split)
next
  case (DoQueueInLoop l n)
  then show ?thesis using good_QueueInLoop [OF laws good, of "FUser n"] by (simp add: perform_def functor_sound_def)
qed (use good_Quit [OF laws good] good_SetContext [OF good] in \<open>simp_all add: perform_def\<close>)

lemma safe_performs:
  assumes laws: "kernel_laws e G" and good: "good G L B w" and calls: "calls_ok G (kern w) (acts, k)" and buf: "\<And>d. buf = Some d \<Longrightarrow> live d w"
  shows "safe G L B w (foldE (perform e me buf) acts (w\<lparr>kern := k, trace := tr\<rparr>))"
proof -
  let ?w = "w\<lparr>kern := k, trace := tr\<rparr>"
  have quiet: "quiet G (kern w) k" and acts: "\<And>a. a \<in> set acts \<Longrightarrow> sendable a" using calls by (simp_all add: calls_ok_def)
  note w = good_kern(2) [OF good quiet, of tr]
  have "safe G L B ?w (foldE (perform e me buf) acts ?w)"
  proof (rule safe_foldE)
    fix a v assume v: "a \<in> set acts" "good G L B v" "persists L ?w v"
    have "live d v" if "buf = Some d" for d using persistsD(1) [OF persists_trans [OF _ v(3)] buf [OF that]] w by blast
    then show "safe G L B v (perform e me buf a v)" using safe_perform [OF laws v(2) acts [OF v(1)]] by blast
  qed (use w in blast)
  then show ?thesis using safe_after w by blast
qed

lemma safe_application_callbacks:
  assumes laws: "kernel_laws e G" "application_laws e G" and good: "good G L B w" and live: "live c w"
  shows "safe G L B w (connection_callback e me c w)" and "safe G L B w (message_callback e me t c w)"
    and "tc_write_complete_callback (conns w c) \<Longrightarrow> safe G L B w (write_complete_callback e me c w)"
    and "tc_high_water_mark_callback (conns w c) \<Longrightarrow> safe G L B w (high_water_mark_callback e me c n w)"
proof -
  note run = safe_performs [OF laws(1) good]
  note cbs = conn_soundD(3,4) [OF goodD(3) [OF good live]]
  note ok = laws(2) [unfolded application_laws_def]
  show "safe G L B w (connection_callback e me c w)"
    using run cbs ok by (auto simp: connection_callback_def split: prod.split) (metis option.distinct(1))
  show "safe G L B w (message_callback e me t c w)"
    using run cbs ok live by (auto simp: message_callback_def Let_def split: prod.split) (metis option.inject)
  show "safe G L B w (write_complete_callback e me c w)" if "tc_write_complete_callback (conns w c)"
    using run that ok by (auto simp: write_complete_callback_def split: prod.split) (metis option.distinct(1))
  show "safe G L B w (high_water_mark_callback e me c n w)" if "tc_high_water_mark_callback (conns w c)"
    using run that ok by (auto simp: high_water_mark_callback_def split: prod.split) (metis option.distinct(1))
qed


section \<open>Servers\<close>

lemma good_on_server:
  assumes good: "good G L B w" and "server_ready L (servers w s) \<Longrightarrow> server_ready L (f (servers w s))"
    and "\<And>name c. sv_connections (f (servers w s)) name = Some c \<Longrightarrow> live c w"
  shows "good G L B (on_server f s w) \<and> persists L w (on_server f s w)"
  by (rule good_step [OF good]) (use assms good_buffers [OF good] goodD(5,6) [OF good] in \<open>auto simp: queue_def split: if_splits\<close>)

lemma good_forget_connection:
  assumes "good G L B w"
  shows "good G L B (on_server (\<lambda>sv. sv\<lparr>sv_connections := (sv_connections sv)(name := None)\<rparr>) s w)
    \<and> persists L w (on_server (\<lambda>sv. sv\<lparr>sv_connections := (sv_connections sv)(name := None)\<rparr>) s w)"
  by (rule good_on_server [OF assms]) (use goodD(5) [OF assms] in \<open>auto simp: server_ready_def split: if_splits\<close>)

lemma safe_RemoveConnection:
  assumes laws: "kernel_laws e G" and good: "good G L B w" and live: "live c w"
  shows "safe G L B w (RemoveConnectionInLoop e me s c w)" and "safe G L B w (RemoveConnection e me s c w)"
proof -
  let ?w = "on_server (\<lambda>sv. sv\<lparr>sv_connections := (sv_connections sv)(tc_name (conns w c) := None)\<rparr>) s w"
  have w: "good G L B ?w \<and> persists L w ?w" by (rule good_forget_connection [OF good])
  have "functor_sound L ?w (FConnectDestroyed c)" using persistsD(1) [of L w ?w c] w live by (simp add: functor_sound_def)
  then show *: "safe G L B w (RemoveConnectionInLoop e me s c w)"
    using good_QueueInLoop [OF laws, of L B ?w] w persists_trans [of L w ?w] by (simp add: RemoveConnectionInLoop_def)
  show "safe G L B w (RemoveConnection e me s c w)"
    unfolding RemoveConnection_def by (rule safe_RunInLoop [OF laws good]) (use live * in \<open>simp_all add: functor_sound_def\<close>)
qed

section \<open>The handlers of connections\<close>

lemma safe_disconnect:
  assumes laws: "kernel_laws e G" "application_laws e G" and good: "good G L B w" and live: "live c w"
  shows "safe G L B w (DisableAll (Channel_Update e) (tc_channel (conns w c)) (on_conn (SetState kDisconnected) c w))"
proof -
  let ?w = "on_conn (SetState kDisconnected) c w"
  have w: "good G L B ?w \<and> persists L w ?w" by (rule good_SetState [OF good live])
  have "managed (tc_channel (conns w c)) ?w" using live_managed [OF persistsD(1) [of L w ?w c]] w live by (simp add: SetState_def)
  then show ?thesis using safe_interests(4) [OF laws(1)] w safe_after by blast
qed

lemma safe_HandleClose:
  assumes laws: "kernel_laws e G" "application_laws e G" and good: "good G L B w" and live: "live c w"
  shows "safe G L B w (HandleClose e me (RemoveConnection e me) c w)"
  unfolding HandleClose_def
proof (rule safe_andThen [OF safe_disconnect [OF laws good live]], rule safe_andThen)
  fix v assume v: "good G L B v" "persists L w v"
  then have live_v: "live c v" using persistsD(1) live by blast
  then show "safe G L B v (connection_callback e me c v)" by (rule safe_application_callbacks(1) [OF laws v(1)])
  fix u assume u: "good G L B u" "persists L v u"
  then have live_u: "live c u" using persistsD(1) live_v by blast
  then obtain s where "tc_close_callback (conns u c) = Some (s, c)" using conn_soundD(5) goodD(3) [OF u(1)] by blast
  then show "safe G L B u (case tc_close_callback (conns u c) of None \<Rightarrow> Inl BadFunctionCall | Some (srv, captured) \<Rightarrow> RemoveConnection e me srv captured u)"
    using safe_RemoveConnection(2) [OF laws(1) u(1) live_u] by simp
qed

lemma good_HandleError:
  assumes "kernel_laws e G" and good: "good G L B w"
  shows "good G L B (HandleError e c w) \<and> persists L w (HandleError e c w)"
proof -
  obtain r k where r: "sys_getsockopt_error e (ch_fd (conn_chan w c)) (kern w) = (r, k)" by fastforce
  note w = good_kern(1) [OF good io_quietD(6) [OF assms(1) r]]
  show ?thesis
    using good_log_error [of G L B "w\<lparr>kern := k\<rparr>"] w persists_trans unfolding HandleError_def r Let_def by (simp, blast)
qed

lemma safe_Conn_HandleRead:
  assumes laws: "kernel_laws e G" "application_laws e G" and good: "good G L B w" and live: "live c w"
  shows "safe G L B w (Conn_HandleRead e me (RemoveConnection e me) t c w)"
  using ReadFd_outcome [OF good_buffers(1) [OF good live] kernel_lawsD(4) [OF laws(1)], of "ch_fd (conn_chan w c)" "kern w"]
proof (elim disjE exE conjE)
  fix r b assume r: "ReadFd e (ch_fd (conn_chan w c)) (tc_input_buffer (conns w c)) (kern w)
      = Inr (r, b, snd (sys_readv e (ch_fd (conn_chan w c)) (readv_iov (tc_input_buffer (conns w c))) (kern w)))" and b: "wf_buffer b"
  let ?k = "snd (sys_readv e (ch_fd (conn_chan w c)) (readv_iov (tc_input_buffer (conns w c))) (kern w))"
  let ?w = "on_conn (\<lambda>conn. conn\<lparr>tc_input_buffer := b\<rparr>) c (w\<lparr>kern := ?k\<rparr>)"
  have "quiet G (kern w) ?k" by (rule io_quietD(2) [OF laws(1) surjective_pairing])
  then have k: "good G L B (w\<lparr>kern := ?k\<rparr>) \<and> persists L w (w\<lparr>kern := ?k\<rparr>)" by (rule good_kern(1) [OF good])
  then have w: "good G L B ?w" "persists L w ?w" using good_buffer_update(1) [of G L B "w\<lparr>kern := ?k\<rparr>" c "\<lambda>_. b"] b persists_trans by blast+
  then have live: "live c ?w" using persistsD(1) live by blast
  have err: "safe G L B ?w (Inr (HandleError e c (log_error m ?w)))" for m
    using good_HandleError [OF laws(1)] good_log_error [OF w(1)] persists_trans unfolding safe_Inr by blast
  have "safe G L B ?w (case r of
            SysOk n \<Rightarrow> if n > 0 then message_callback e me t c ?w else HandleClose e me (RemoveConnection e me) c ?w
          | SysErr savedErrno \<Rightarrow> Inr (HandleError e c (log_error ''TcpConnection::handleRead'' ?w)))"
    using err safe_application_callbacks(2) [OF laws w(1) live] safe_HandleClose [OF laws w(1) live] by (cases r) auto
  then show ?thesis unfolding Conn_HandleRead_def r andThen_Inr prod.case Let_def by (rule safe_after [OF w(2)])
qed (simp add: Conn_HandleRead_def)

text \<open>What \<open>HandleWrite\<close> does once the output buffer is drained.\<close>

lemma safe_drained:
  assumes laws: "kernel_laws e G" and good: "good G L B w" and live: "live c w"
  shows "safe G L B w (andThen (DisableWriting (Channel_Update e) (tc_channel (conns w c)) w) (\<lambda>w.
      let w = (if tc_write_complete_callback (conns w c) then QueueInLoop e me (tc_loop (conns w c)) (FWriteComplete c) w else w)
      in if tc_state (conns w c) = kDisconnecting then ShutdownInLoop e c w else Inr w))"
proof (rule safe_andThen [OF safe_interests(3) [OF laws good live_managed [OF live]]])
  fix v assume v: "good G L B v" "persists L w v"
  then have "live c v" using persistsD(1) live by blast
  let ?u = "if tc_write_complete_callback (conns v c) then QueueInLoop e me (tc_loop (conns v c)) (FWriteComplete c) v else v"
  have u: "good G L B ?u \<and> persists L v ?u"
    using v good_QueueInLoop [OF laws v(1), of "FWriteComplete c"] \<open>live c v\<close> by (simp add: functor_sound_def)
  then show "safe G L B v (let w = ?u in if tc_state (conns w c) = kDisconnecting then ShutdownInLoop e c w else Inr w)"
    using safe_after [of L v ?u G B] safe_ShutdownInLoop [OF laws, of L B ?u] unfolding Let_def by simp
qed

lemma safe_HandleWrite:
  assumes laws: "kernel_laws e G" and good: "good G L B w" and live: "live c w"
  shows "safe G L B w (HandleWrite e me c w)"
proof (cases "IsWriting (conn_chan w c)")
  case True
  let ?f = "ch_fd (conn_chan w c)" and ?b = "tc_output_buffer (conns w c)"
  note wf = good_buffers(2) [OF good live]
  obtain r k where r: "sys_write e ?f (content ?b) (kern w) = (r, k)" by fastforce
  obtain wrote b where out: "WriteFd e ?f ?b (kern w) = Inr (r, wrote, b, k)" and b: "wf_buffer b"
    using wf r by (cases r) (auto simp: WriteFd_def read_bytes_all)
  let ?v = "w\<lparr>kern := k, trace := (case r of SysErr _ \<Rightarrow> trace w | SysOk _ \<Rightarrow> trace w @ [Wrote ?f wrote])\<rparr>"
  let ?w = "on_conn (\<lambda>conn. conn\<lparr>tc_output_buffer := b\<rparr>) c ?v"
  have "good G L B ?v \<and> persists L w ?v" by (rule good_kern(2) [OF good io_quietD(1) [OF laws r]])
  then have w: "good G L B ?w" "persists L w ?w" using good_buffer_update(2) [of G L B ?v c "\<lambda>_. b"] b persists_trans by blast+
  then have "live c ?w" using persistsD(1) live by blast
  then show ?thesis
    using safe_after [OF w(2)] safe_drained [OF laws w(1), of c me] good_log_error [OF w(1)] True
    unfolding HandleWrite_def out andThen_Inr prod.case Let_def by simp
qed (use good in \<open>simp add: HandleWrite_def\<close>)

lemma safe_ConnectEstablished:
  assumes laws: "kernel_laws e G" "application_laws e G" and good: "good G L B w" and live: "live c w"
  shows "safe G L B w (ConnectEstablished e me c w)"
proof -
  let ?ch = "tc_channel (conns w c)"
  let ?v = "on_conn (SetState kConnected) c w" and ?w = "on_chan (Tie c) ?ch (on_conn (SetState kConnected) c w)"
  have v: "good G L B ?v" "persists L w ?v" using good_SetState [OF good live] by blast+
  have "good G L B ?w \<and> persists L ?v ?w"
    by (rule good_same [OF v(1)]) (use goodD(6) [OF v(1)] in \<open>simp_all add: queue_def\<close>)
  then have w: "good G L B ?w" "persists L w ?w" using v(2) persists_trans by blast+
  then have "live c ?w" using persistsD(1) live by blast
  then have "managed ?ch ?w" using live_managed [of c ?w] by (simp add: SetState_def)
  then have "safe G L B ?w (andThen (EnableReading (Channel_Update e) ?ch ?w) (connection_callback e me c))"
    using \<open>live c ?w\<close> persistsD(1) safe_application_callbacks(1) [OF laws] by (intro safe_andThen [OF safe_interests(1) [OF laws(1) w(1)]]) blast+
  then show ?thesis unfolding ConnectEstablished_def Let_def by (rule safe_after [OF w(2)])
qed

lemma safe_ConnectDestroyed:
  assumes laws: "kernel_laws e G" "application_laws e G" and good: "good G L B w" and live: "live c w"
  shows "safe G L B w (ConnectDestroyed e me c w)"
proof -
  have "safe G L B w (if tc_state (conns w c) = kConnected then
          andThen (DisableAll (Channel_Update e) (tc_channel (conns w c)) (on_conn (SetState kDisconnected) c w))
            (connection_callback e me c)
        else Inr w)"
    using good safe_disconnect [OF laws good live] live persistsD(1) safe_application_callbacks(1) [OF laws]
    by (auto intro!: safe_andThen) (blast+)?
  then show ?thesis
    unfolding ConnectDestroyed_def
    by (rule safe_andThen) (use live persistsD(1) live_managed safe_removal [OF laws(1)] in blast)
qed


section \<open>Accepting\<close>

lemma safe_Listen:
  assumes laws: "kernel_laws e G" and good: "good G L B w" and acc: "acceptor_ready L w a"
  shows "safe G L B w (Listen e a w)"
proof -
  let ?v = "on_acceptor (\<lambda>ac. ac\<lparr>ac_listening := True\<rparr>) a w"
  define u where "u = Socket_Listen e (ac_socket (acceptors ?v a)) ?v"
  have u: "quiet G (kern w) (kern u)" "chans u = chans w" "pollers u = pollers w" "servers u = servers w" "acceptors u = acceptors ?v"
    using io_quietD(8) [OF laws] by (auto simp: u_def Socket_Listen_def split: prod.split sysres.split)
  have g: "good G L B u \<and> persists L w u"
    by (rule good_step [OF good u(1)])
       (use good_buffers [OF good] goodD(5,6) [OF good] in \<open>simp_all add: u(2-5), simp_all add: u_def queue_def\<close>)
  have "managed (ac_channel (acceptors u a)) u" using acc by (simp add: acceptor_ready_def managed_def u)
  then show ?thesis
    using safe_interests(1) [OF laws] g safe_after unfolding Listen_def Let_def u_def [symmetric] by blast
qed

text \<open>A new connection and its channel, at the next free addresses.\<close>

lemma good_created:
  assumes good: "good G L B w" and quiet: "quiet G (kern w) (kern w')" and polls: "pollers w' = pollers w" and loops: "loops w' = loops w"
    and c: "c = next_ptr w" and np: "next_ptr w' = c + 2" and conns: "conns w' = (conns w)(c := conn)" and chans: "chans w' = (chans w)(c + 1 := ch)"
    and acc: "acceptors w' = acceptors w" and srv: "\<And>s. server_ready L (servers w s) \<Longrightarrow> server_ready L (servers w' s)"
    and maps: "\<And>s name d. sv_connections (servers w' s) name = Some d \<Longrightarrow> d = c \<or> sv_connections (servers w s) name = Some d"
    and conn: "tc_channel conn = c + 1" "tc_state conn = kConnecting" "wf_buffer (tc_input_buffer conn)" "wf_buffer (tc_output_buffer conn)"
      "tc_connection_callback conn" "tc_message_callback conn" "\<exists>s. tc_close_callback conn = Some (s, c)"
    and ch: "wired c ch" "ch_loop ch \<in> L" "ch_index ch = kNew" "ch_fd ch \<in> g_open G (kern w')"
      "\<And>d. managed d w \<Longrightarrow> ch_fd ch \<noteq> ch_fd (chans w d)"
  shows "good G L B w' \<and> persists L w w' \<and> live c w'"
proof -
  have below: "d < c" if "managed d w" for d using registrations_okD(3) [OF goodD(1) [OF good] that] c by simp
  have old: "d < c" if "live d w" for d using that c by (simp add: live_def)
  have reg: "registrations_ok G L w'"
    by (rule registrations_ok_new_channel [OF goodD(1) [OF good] quiet polls chans]) (use below [of "c + 1"] ch c np in auto)
  have keeps: "managed d w'" if "managed d w" for d using that below [OF that] by (simp add: managed_def chans)
  have live: "live d w' \<longleftrightarrow> d = c \<or> live d w" for d
  proof (cases "d = c")
    case False
    have "live d w'" if "live d w" using that c np False by (simp add: live_def conn_chan_def conns chans)
    moreover have "live d w" if d: "live d w'"
    proof -
      have "tc_channel (conns w d) \<noteq> c + 1" using d False ch(1) by (auto simp: live_def wired_def conn_chan_def conns chans)
      then have "Some (ConnHandleRead d) \<in> stored (chans w (tc_channel (conns w d)))"
        using d False by (simp add: live_def conn_chan_def conns chans wired_def stored_def)
      then show ?thesis using goodD(2) [OF good] by (fastforce simp: callback_sound_def)
    qed
    ultimately show ?thesis using False by blast
  qed (simp add: live_def conn_chan_def conns chans conn ch np)
  have "acceptor_ready L w a \<Longrightarrow> acceptor_ready L w' a" for a
    using srv keeps unfolding acceptor_ready_def acc by blast
  then have persists: "persists L w w'" unfolding persists_def using live old by (auto simp: conns)
  have "callback_sound L w' cb" if cb: "Some cb \<in> stored (chans w' x)" for x cb
  proof (cases "x = c + 1")
    case True
    then show ?thesis using cb ch(1) live [of c] by (auto simp: chans stored_def wired_def callback_sound_def)
  next
    case False
    then show ?thesis using cb goodD(2) [OF good] callback_sound_persists [OF persists] by (simp add: chans)
  qed
  moreover have "conn_sound w' d" if "live d w'" for d
    using that live goodD(3) [OF good, of d] conn by (cases "d = c") (auto simp: conn_sound_def conns)
  moreover have "no_phantoms w'" using goodD(4) [OF good] conn(2) by (auto simp: no_phantoms_def live conns)
  moreover have "live d w'" if "sv_connections (servers w' s) name = Some d" for s name d
    using maps [OF that] goodD(5) [OF good] live by blast
  ultimately have "objects_ok L w'" unfolding objects_ok_def by blast
  moreover have "functor_sound L w' f" if "f \<in> set (queue B w' l)" for l f
    using that goodD(6) [OF good] functor_sound_persists [OF persists] by (simp add: queue_def loops)
  ultimately show ?thesis using reg persists live [of c] by (simp add: good_def)
qed


text \<open>The constructor of a connection never fails; what it makes.\<close>

lemma new_TcpConnection_makes:
  obtains conn chan where "new_TcpConnection e (Some l) c ch name f la pa w
      = Inr (w\<lparr>kern := sys_setsockopt e f SO_KEEPALIVE 1 (kern w), chans := (chans w)(ch := chan), conns := (conns w)(c := conn)\<rparr>)"
    and "tc_channel conn = ch" and "tc_state conn = kConnecting" and "wf_buffer (tc_input_buffer conn)" and "wf_buffer (tc_output_buffer conn)"
    and "wired c chan" and "ch_loop chan = l" and "ch_index chan = kNew" and "ch_fd chan = f"
proof -
  obtain b where b: "new_Buffer kInitialSize = Inr b" "wf_buffer b"
    by (rule wf_new_Buffer [of kInitialSize]) (simp_all add: kInitialSize_def vector_max_size_def)
  show ?thesis
    by (rule that [of "\<lparr>tc_loop = l, tc_name = name, tc_state = kConnecting, tc_reading = True, tc_socket = f, tc_channel = ch,
          tc_local_addr = la, tc_peer_addr = pa, tc_connection_callback = False, tc_close_callback = None, tc_message_callback = False,
          tc_write_complete_callback = False, tc_high_water_mark = 64 * 1024 * 1024, tc_high_water_mark_callback = False,
          tc_input_buffer = b, tc_output_buffer = b, tc_context = None\<rparr>"
        "SetErrorCallback (ConnHandleError c) (SetCloseCallback (ConnHandleClose c)
          (SetWriteCallback (ConnHandleWrite c) (SetReadCallback (ConnHandleRead c) (new_Channel l f))))"])
       (simp_all add: new_TcpConnection_def CheckLoopNotNull_def b Let_def SetKeepAlive_def wired_def new_Channel_def kNew_def
         SetReadCallback_def SetWriteCallback_def SetCloseCallback_def SetErrorCallback_def)
qed

lemma safe_NewConnection:
  assumes laws: "kernel_laws e G" "application_laws e G" and good: "good G L B w" and srv: "server_ready L (servers w s)"
    and fd: "connfd \<in> g_open G (kern w)" "\<And>d. managed d w \<Longrightarrow> connfd \<noteq> ch_fd (chans w d)"
  shows "safe G L B w (NewConnection e me s connfd peer w)"
proof -
  let ?sv = "servers w s"
  have pool: "pool_ok (sv_pool ?sv)" "set (GetAllLoops (sv_pool ?sv)) \<subseteq> L" using srv by (simp_all add: server_ready_def)
  obtain l p' where nxt: "GetNextLoop (sv_pool ?sv) = Inr (l, p')" "pool_ok p'" "GetAllLoops p' = GetAllLoops (sv_pool ?sv)"
    "l \<in> L"
    using GetNextLoop_step [OF pool(1) refl] GetNextLoop_pool_ok [OF pool(1)] pool(2) by blast
  let ?name = "sv_name ?sv @ conn_suffix ?sv (sv_next_conn_id ?sv)" and ?c = "next_ptr w"
  let ?w1 = "on_server (\<lambda>sv. sv\<lparr>sv_pool := p', sv_next_conn_id := sv_next_conn_id sv + 1\<rparr>) s w"
  obtain la w2 where la: "local_address e connfd ?w1 = (la, w2)" by fastforce
  have w2: "pollers w2 = pollers w" "loops w2 = loops w" "chans w2 = chans w" "conns w2 = conns w" "next_ptr w2 = next_ptr w"
    "servers w2 = servers ?w1" "acceptors w2 = acceptors w"
    using local_address_sel [of e connfd ?w1] local_address_server [of e connfd ?w1] more_server(2) [of w2 ?w1] la by simp_all
  have q2: "quiet G (kern w) (kern w2)"
    using la io_quietD(7) [OF laws(1)] by (auto simp: local_address_def split: prod.splits sysres.splits)
  let ?u = "w2\<lparr>next_ptr := ?c + 2\<rparr>"
  obtain conn chan where built: "new_TcpConnection e (Some l) ?c (?c + 1) ?name connfd la peer ?u
      = Inr (?u\<lparr>kern := sys_setsockopt e connfd SO_KEEPALIVE 1 (kern ?u), chans := (chans ?u)(?c + 1 := chan), conns := (conns ?u)(?c := conn)\<rparr>)"
    and conn: "tc_channel conn = ?c + 1" "tc_state conn = kConnecting" "wf_buffer (tc_input_buffer conn)" "wf_buffer (tc_output_buffer conn)"
    and chan: "wired ?c chan" "ch_loop chan = l" "ch_index chan = kNew" "ch_fd chan = connfd"
    by (rule new_TcpConnection_makes)
  let ?w3 = "?u\<lparr>kern := sys_setsockopt e connfd SO_KEEPALIVE 1 (kern ?u), chans := (chans ?u)(?c + 1 := chan), conns := (conns ?u)(?c := conn)\<rparr>"
  let ?f = "Conn_SetCloseCallback (s, ?c) \<circ> SetWriteCompleteCallback (sv_write_complete_callback ?sv)
     \<circ> SetMessageCallback (sv_message_callback ?sv) \<circ> SetConnectionCallback (sv_connection_callback ?sv)"
  let ?w4 = "on_conn ?f ?c (on_server (\<lambda>sv. sv\<lparr>sv_connections := (sv_connections sv)(?name \<mapsto> ?c)\<rparr>) s ?w3)"
  have q4: "quiet G (kern w) (sys_setsockopt e connfd SO_KEEPALIVE 1 (kern w2))"
    by (rule quiet_trans [OF q2 io_quietD(5) [OF laws(1)]])
  have w4: "good G L B ?w4 \<and> persists L w ?w4 \<and> live ?c ?w4"
  proof (rule good_created [OF good _ _ _ refl])
    show "conns ?w4 = (conns w)(?c := ?f conn)" "chans ?w4 = (chans w)(?c + 1 := chan)" by (simp_all add: on_conn_def on_server_def w2)
    show "server_ready L (servers ?w4 t)" if "server_ready L (servers w t)" for t
      using that nxt by (cases "t = s") (simp_all add: w2 server_ready_def)
    show "ch_fd chan \<in> g_open G (kern ?w4)" using fd(1) q4 by (auto simp: chan quiet_def)
    show "d = ?c \<or> sv_connections (servers w t) name = Some d" if "sv_connections (servers ?w4 t) name = Some d" for t name d
      using that by (auto simp: w2 split: if_splits)
  qed (use conn chan fd(2) q4 nxt(4) srv more_server(2) [of ?w4 ?w3] in \<open>simp_all add: w2 server_ready_def Conn_SetCloseCallback_def SetWriteCompleteCallback_def
        SetMessageCallback_def SetConnectionCallback_def\<close>)
  then have "safe G L B ?w4 (RunInLoop e me (\<lambda>_. ConnectEstablished e me ?c) l (FConnectEstablished ?c) ?w4)"
    by (intro safe_RunInLoop [OF laws(1)] safe_ConnectEstablished [OF laws]) (simp_all add: functor_sound_def)
  then have "safe G L B w (RunInLoop e me (\<lambda>_. ConnectEstablished e me ?c) l (FConnectEstablished ?c) ?w4)"
    using w4 safe_after by blast
  then show ?thesis
    unfolding NewConnection_def nxt(1) andThen_Inr prod.case Let_def la w2(5) built by simp
qed


lemma safe_Acceptor_HandleRead:
  assumes laws: "kernel_laws e G" "application_laws e G" and good: "good G L B w" and acc: "acceptor_ready L w a"
  shows "safe G L B w (Acceptor_HandleRead e p junk (NewConnection e me) a w)"
proof -
  obtain s where s: "ac_new_connection_callback (acceptors w a) = Some s" "server_ready L (servers w s)"
    using acc by (auto simp: acceptor_ready_def)
  obtain r k where r: "sys_accept4 e (ac_socket (acceptors w a)) (kern w) = (r, k)" by fastforce
  note quiet = fresh_descriptorsD(1) [OF laws(1) r]
  note w = good_kern(1) [OF good quiet]
  show ?thesis
  proof (cases r)
    case (SysErr errno)
    have "good G L B (log_error m (w\<lparr>kern := k\<rparr>)) \<and> persists L w (log_error m (w\<lparr>kern := k\<rparr>))"
      "good G L B (log_error m' (log_error m (w\<lparr>kern := k\<rparr>))) \<and> persists L w (log_error m' (log_error m (w\<lparr>kern := k\<rparr>)))" for m m'
      using w good_log_error persists_trans by blast+
    then show ?thesis using r SysErr by (simp add: Acceptor_HandleRead_def Accept_def Let_def)
  next
    case (SysOk res)
    obtain connfd addr where res: "res = (connfd, addr)" by fastforce
    have fresh: "connfd \<notin> g_open G (kern w)" "connfd \<in> g_open G k" using fresh_descriptorsD(2) [OF laws(1)] r SysOk res by (auto simp: opens_def)
    have "connfd \<noteq> ch_fd (chans w d)" if "managed d w" for d using registrations_okD(6) [OF goodD(1) [OF good] that] fresh(1) by blast
    then have "safe G L B (w\<lparr>kern := k\<rparr>) (NewConnection e me s connfd peer (w\<lparr>kern := k\<rparr>))" for peer
      using w s(2) fresh(2) by (intro safe_NewConnection [OF laws]) (simp_all add: managed_def)
    then show ?thesis using r SysOk res s(1) w safe_after by (simp add: Acceptor_HandleRead_def Accept_def) blast
  qed
qed

section \<open>Closures, dispatch and the loop\<close>

lemma safe_run_functor:
  assumes laws: "kernel_laws e G" "application_laws e G" and good: "good G L B w" and f: "functor_sound L w f"
  shows "safe G L B w (run_functor e me f w)"
proof (cases f)
  case (FUser n)
  obtain acts k where "on_functor e n (kern w) = (acts, k)" by fastforce
  moreover from this have "calls_ok G (kern w) (acts, k)" using laws(2) by (metis application_laws_def)
  ultimately show ?thesis using FUser by (auto simp: run_functor_def intro!: safe_performs [OF laws(1) good])
qed (use f in \<open>simp_all add: run_functor_def functor_sound_def safe_SendInLoop [OF laws(1) good] safe_send_buffer_body [OF laws(1) good]
    safe_ShutdownInLoop [OF laws(1) good] safe_application_callbacks [OF laws good] safe_ConnectEstablished [OF laws good]
    safe_ConnectDestroyed [OF laws good] safe_RemoveConnection [OF laws(1) good] safe_Listen [OF laws(1) good]\<close>)

lemma good_EventLoop_HandleRead:
  assumes "kernel_laws e G" and good: "good G L B w"
  shows "good G L B (EventLoop_HandleRead e l w) \<and> persists L w (EventLoop_HandleRead e l w)"
proof -
  have "quiet G (kern w) (kern (EventLoop_HandleRead e l w))"
    using io_quietD(3) [OF assms(1)] by (auto simp: EventLoop_HandleRead_def split: prod.split)
  then show ?thesis
    by (rule good_same [OF good]) (use goodD(6) [OF good] more_conns [OF EventLoop_HandleRead_frame(5)] in \<open>simp_all add: queue_def\<close>)
qed

lemma safe_run_callback:
  assumes laws: "kernel_laws e G" "application_laws e G" and good: "good G L B w" and cb: "callback_sound L w cb"
  shows "safe G L B w (run_callback e p junk me cb t w)"
  using cb by (cases cb) (simp_all add: run_callback_def callback_sound_def good_EventLoop_HandleRead [OF laws(1) good]
      safe_Acceptor_HandleRead [OF laws good] safe_Conn_HandleRead [OF laws good] safe_HandleWrite [OF laws(1) good]
      safe_HandleClose [OF laws good] good_HandleError [OF laws(1) good])

lemma safe_fire:
  assumes laws: "kernel_laws e G" "application_laws e G" and good: "good G L B w" and slot: "\<And>a. slot a \<in> stored a"
  shows "safe G L B w (fire (run_callback e p junk me) t test slot ch w)"
proof (cases "slot (chans w ch)")
  case (Some cb)
  then have "callback_sound L w cb" using goodD(2) [OF good, of cb ch] slot [of "chans w ch"] by simp
  then show ?thesis using Some good safe_run_callback [OF laws good] by (simp add: fire_def)
qed (use good in \<open>simp add: fire_def\<close>)

lemma safe_HandleEvent:
  assumes laws: "kernel_laws e G" "application_laws e G" and good: "good G L B w"
  shows "safe G L B w (HandleEvent (run_callback e p junk me) lock t ch w)"
proof -
  have slots: "ch_close_callback a \<in> stored a" "ch_error_callback a \<in> stored a" "ch_read_callback a \<in> stored a"
    "ch_write_callback a \<in> stored a" for a
    by (simp_all add: stored_def)
  have "safe G L B w (HandleEventWithGuard (run_callback e p junk me) t ch w)"
    unfolding HandleEventWithGuard_def by (intro safe_andThen safe_fire [OF laws] good slots)
  then show ?thesis using good by (simp add: HandleEvent_def)
qed

lemma safe_drop_connection:
  assumes laws: "kernel_laws e G" "application_laws e G" and good: "good G L B w"
  shows "safe G L B w (drop_connection e me s name w)"
proof (cases "sv_connections (servers w s) name")
  case (Some c)
  let ?w = "on_server (\<lambda>sv. sv\<lparr>sv_connections := (sv_connections sv)(name := None)\<rparr>) s w"
  have w: "good G L B ?w" "persists L w ?w" using good_forget_connection [OF good] by blast+
  then have "live c ?w" using persistsD(1) goodD(5) [OF good Some] by blast
  then have "safe G L B ?w (RunInLoop e me (\<lambda>_. ConnectDestroyed e me c) (tc_loop (conns w c)) (FConnectDestroyed c) ?w)"
    by (intro safe_RunInLoop [OF laws(1) w(1)] safe_ConnectDestroyed [OF laws w(1)]) (simp_all add: functor_sound_def)
  then show ?thesis using Some safe_after [OF w(2)] by (simp add: drop_connection_def)
qed (use good in \<open>simp add: drop_connection_def\<close>)

lemma reg_FillActiveChannels: "reg (chans (snd (FillActiveChannels evs chs w)) c) = reg (chans w c)"
  by (induction evs arbitrary: chs w) auto

lemma good_Poll:
  assumes laws: "kernel_laws e G" and good: "good G L B w" and poll: "Poll e l t chs w = (now, chs', w')"
  shows "good G L B w' \<and> persists L w w'"
proof -
  obtain r k1 where r: "sys_epoll_wait e (po_epoll_fd (pollers w l)) (po_events_size (pollers w l)) t (kern w) = (r, k1)" by fastforce
  obtain k2 where k2: "sys_time e k1 = (fst (sys_time e k1), k2)" by (metis surjective_pairing)
  have quiet: "quiet G (kern w) (kern w')"
    using quiet_trans [OF wait_quiet [OF laws r] io_quietD(9) [OF laws k2]] poll r k2
    by (auto simp: Poll_def Let_def case_prod_beta' FillActiveChannels_spec(2) split: sysres.splits if_splits)
  have ch: "reg (chans w' c) = reg (chans w c)" for c
    using poll by (auto simp: Poll_def Let_def case_prod_beta' reg_FillActiveChannels split: sysres.splits if_splits prod.splits)
  have polls: "po_channels (pollers w' m) = po_channels (pollers w m) \<and> po_epoll_fd (pollers w' m) = po_epoll_fd (pollers w m)" for m
    using poll by (auto simp: Poll_def Let_def case_prod_beta' split: sysres.splits if_splits prod.splits)
  note same = Poll_loops [OF poll]
  note more = more_conns [OF conjunct2 [OF conjunct2 [OF same]]]
  show ?thesis
    by (rule good_step [OF good quiet])
       (use polls ch same more more_server [OF more(2)] good_buffers [OF good] goodD(5,6) [OF good] in \<open>simp_all add: queue_def\<close>)
qed

text \<open>A loop's own flags do not matter; a batch moves from the queue to \<open>B\<close>.\<close>

lemma good_on_loop:
  assumes good: "good G L B w" and "\<And>m. set (queue B' (on_loop f l w) m) \<subseteq> set (queue B w m)"
  shows "good G L B' (on_loop f l w) \<and> persists L w (on_loop f l w)"
proof -
  have "conns (on_loop f l w) = conns w" "tcp_world.more (on_loop f l w) = tcp_world.more w" by (simp_all add: on_loop_def)
  then show ?thesis by (intro good_same [OF good]) (use assms(2) goodD(6) [OF good] in auto)
qed

lemma good_dequeue:
  assumes good: "good G L B w" and "B l = f # fs"
  shows "good G L (B(l := fs)) w" and "functor_sound L w f"
proof -
  have "set (queue (B(l := fs)) w m) \<subseteq> set (queue B w m)" for m using assms(2) by (auto simp: queue_def)
  then show "good G L (B(l := fs)) w" using good unfolding good_def by blast
  show "functor_sound L w f" using goodD(6) [OF good, of f l] assms(2) by (simp add: queue_def)
qed

lemma safe_batch:
  assumes laws: "kernel_laws e G" "application_laws e G" and "good G L (B(l := fs)) w" and "B l = []"
  shows "safe G L B w (foldE (run_functor e me) fs w)"
  using assms(3)
proof (induction fs arbitrary: w)
  case Nil
  then show ?case using assms(4) by (simp add: fun_upd_idem)
next
  case (Cons f fs)
  have "good G L (B(l := fs)) w" "functor_sound L w f" using good_dequeue [OF Cons.prems fun_upd_same] unfolding fun_upd_upd .
  then have "safe G L (B(l := fs)) w (run_functor e me f w)" by (rule safe_run_functor [OF laws])
  then show ?case
  proof (cases "run_functor e me f w")
    case (Inr v)
    with \<open>safe G L (B(l := fs)) w (run_functor e me f w)\<close> have "good G L (B(l := fs)) v" "persists L w v" by simp_all
    then show ?thesis unfolding foldE.simps Inr andThen_Inr by (intro safe_after [OF _ Cons.IH])
  qed simp
qed

lemma safe_DoPendingFunctors:
  assumes laws: "kernel_laws e G" "application_laws e G" and good: "good G L B w" and "B l = []"
  shows "safe G L B w (DoPendingFunctors (run_functor e me) l w)"
proof -
  let ?fs = "el_pending_functors (loops w l)"
    and ?v = "on_loop (\<lambda>lp. lp\<lparr>el_calling_pending_functors := True, el_pending_functors := []\<rparr>) l w"
  have v: "good G L (B(l := ?fs)) ?v \<and> persists L w ?v" by (rule good_on_loop [OF good]) (use assms(4) in \<open>auto simp: queue_def\<close>)
  have "safe G L B ?v (andThen (foldE (run_functor e me) ?fs ?v) (\<lambda>w. Inr (on_loop (\<lambda>lp. lp\<lparr>el_calling_pending_functors := False\<rparr>) l w)))"
  proof (rule safe_andThen [OF safe_batch [OF laws]])
    fix u assume "good G L B u"
    then show "safe G L B u (Inr (on_loop (\<lambda>lp. lp\<lparr>el_calling_pending_functors := False\<rparr>) l u))"
      unfolding safe_Inr by (rule good_on_loop) (auto simp: queue_def)
  qed (use v assms(4) in blast)+
  then show ?thesis using v safe_after unfolding DoPendingFunctors_def Let_def by blast
qed

lemma safe_loop_iteration:
  assumes laws: "kernel_laws e G" "application_laws e G" and good: "good G L B w" and "B l = []"
  shows "safe G L B w (loop_iteration e (run_callback e p junk me) lock (run_functor e me) l w)"
proof -
  let ?v = "on_loop (\<lambda>lp. lp\<lparr>el_active_channels := []\<rparr>) l w"
  obtain now chs u where poll: "Poll e l kPollTimeMs [] ?v = (now, chs, u)" by (metis prod_cases3)
  let ?u = "on_loop (\<lambda>lp. lp\<lparr>el_poll_return_time := now, el_active_channels := chs\<rparr>) l u"
  have v: "good G L B ?v \<and> persists L w ?v" by (rule good_on_loop [OF good]) (auto simp: queue_def)
  then have u: "good G L B u \<and> persists L w u" using good_Poll [OF laws(1) _ poll] persists_trans by blast
  then have uu: "good G L B ?u \<and> persists L u ?u" by (intro good_on_loop) (auto simp: queue_def)
  have "safe G L B ?u (andThen (foldE (\<lambda>c w. HandleEvent (run_callback e p junk me) lock (el_poll_return_time (loops w l)) c w) chs ?u)
      (DoPendingFunctors (run_functor e me) l))"
    by (rule safe_andThen [OF safe_foldE]) (use uu safe_HandleEvent [OF laws] safe_DoPendingFunctors [OF laws] assms(4) in blast)+
  then show ?thesis
    using u uu poll safe_after persists_trans unfolding loop_iteration_def Let_def by (simp del: safe_Inr) blast
qed

end
