(* ===== verification/Server_Safety.thy ===== *)
theory Server_Safety
  imports Safe_Operations
begin

text \<open>
  Programs from their start: a step relation for any number of loops, servers and threads that are constructed and run
  in any order, the proof that every state it reaches is \<open>good\<close>, and the property that such a program never
  faults. A concrete server (\<open>serve_env\<close>) shows that the hypotheses hold of a program that accepts connections.
\<close>

section \<open>Construction\<close>

lemma stored_wired: "wired c a \<Longrightarrow> Some (ConnHandleRead c) \<in> stored a"
  by (simp add: wired_def stored_def)

text \<open>The objects a loop or an acceptor adds: a channel that calls no connection.\<close>

lemma good_new_channel:
  assumes good: "good G L B w" and reg: "registrations_ok G M w'" and LM: "L \<subseteq> M"
    and chans: "chans w' = (chans w)(ch := a)" and ch: "\<not> managed ch w"
    and a: "\<And>cb. Some cb \<in> stored a \<Longrightarrow> conn_callback cb = None \<and> callback_sound M w' cb"
    and conns: "conns w' = conns w" and np: "next_ptr w' = next_ptr w"
    and acc: "\<And>b. acceptor_ready L w b \<Longrightarrow> acceptor_ready M w' b"
    and maps: "\<And>s name c. sv_connections (servers w' s) name = Some c \<Longrightarrow> sv_connections (servers w s) name = Some c"
    and queued: "\<And>l. set (queue B' w' l) \<subseteq> set (queue B w l)"
  shows "good G M B' w'"
proof -
  have live: "live c w' = live c w" for c
  proof
    assume c: "live c w"
    then have "tc_channel (conns w c) \<noteq> ch" using live_managed ch by blast
    then show "live c w'" using c by (simp add: live_def conn_chan_def chans conns np)
  next
    assume c: "live c w'"
    have "tc_channel (conns w c) \<noteq> ch"
    proof
      assume "tc_channel (conns w c) = ch"
      then have "wired c a" using c by (simp add: live_def conn_chan_def chans conns)
      then show False using a [OF stored_wired] by (simp add: conn_callback_def)
    qed
    then show "live c w" using c by (simp add: live_def conn_chan_def chans conns np)
  qed
  have callbacks: "callback_sound L w cb \<Longrightarrow> callback_sound M w' cb" for cb
    using acc by (auto simp: callback_sound_def live split: callback.splits)
  have functors: "functor_sound L w f \<Longrightarrow> functor_sound M w' f" for f
    using acc by (auto simp: functor_sound_def live conns split: Functor.splits)
  have "callback_sound M w' cb" if "Some cb \<in> stored (chans w' d)" for d cb
    using that a callbacks goodD(2) [OF good] by (auto simp: chans split: if_splits)
  moreover have "conn_sound w' c" if "live c w" for c using goodD(3) [OF good that] by (simp add: conn_sound_def conns)
  moreover have "no_phantoms w'" using goodD(4) [OF good] by (auto simp: no_phantoms_def live conns)
  moreover have "live c w" if "sv_connections (servers w' s) name = Some c" for s name c using maps [OF that] goodD(5) [OF good] by blast
  ultimately have "objects_ok M w'" unfolding objects_ok_def live by blast
  moreover have "functor_sound M w' f" if "f \<in> set (queue B' w' l)" for l f
    using that queued goodD(6) [OF good] functors by blast
  ultimately show ?thesis using reg by (simp add: good_def)
qed

lemma good_alloc:
  assumes good: "good G L B w" and "next_ptr w \<le> n"
  shows "good G L B (w\<lparr>next_ptr := n\<rparr>)" and "acceptor_ready L w a \<Longrightarrow> acceptor_ready L (w\<lparr>next_ptr := n\<rparr>) a"
proof -
  let ?w = "w\<lparr>next_ptr := n\<rparr>"
  have live: "live c ?w = live c w" for c
  proof
    assume "live c ?w"
    then have "Some (ConnHandleRead c) \<in> stored (chans w (tc_channel (conns w c)))" by (simp add: live_def conn_chan_def stored_wired)
    from goodD(2) [OF good this] show "live c w" by (simp add: callback_sound_def)
  qed (use assms(2) in \<open>auto simp: live_def conn_chan_def\<close>)
  have acc: "acceptor_ready L ?w b = acceptor_ready L w b" for b by (simp add: acceptor_ready_def managed_def)
  then show "acceptor_ready L w a \<Longrightarrow> acceptor_ready L (w\<lparr>next_ptr := n\<rparr>) a" by simp
  have "callback_sound L ?w cb = callback_sound L w cb" "functor_sound L ?w f = functor_sound L w f" for cb f
    by (simp_all add: callback_sound_def functor_sound_def live acc split: callback.split Functor.split)
  then show "good G L B ?w"
    using registrations_ok_alloc [OF goodD(1) [OF good] assms(2)] good
    by (simp add: good_def objects_ok_def live no_phantoms_def conn_sound_def queue_def)
qed

text \<open>
  A new loop. Its constructor registers the wakeup channel before it sets the channel's read callback; the other
  order would do the same, because registering does not look at callbacks.
\<close>

lemma EnableReading_new:
  assumes "ch_index (chans w c) = kNew"
  shows "EnableReading (Channel_Update e) c w =
    (let l = ch_loop (chans w c); f = ch_fd (chans w c); ev = ch_events (chans w c) OR kReadEvent in
     case sys_epoll_ctl e (po_epoll_fd (pollers w l)) EPOLL_CTL_ADD f \<lparr>ev_events = ev, ev_data = c\<rparr> (kern w) of
       (SysErr errno, k) \<Rightarrow> Inl LogFatal
     | (SysOk u, k) \<Rightarrow> Inr (w\<lparr>kern := k, chans := (chans w)(c := SetIndex kAdded (SetEvents ev (chans w c))),
         pollers := (pollers w)(l := (pollers w l)\<lparr>po_channels := (po_channels (pollers w l))(f \<mapsto> c)\<rparr>)\<rparr>))"
  using assms by (simp add: EnableReading_def Channel_Update_def EventLoop_UpdateChannel_def UpdateChannel_def Update_def registration_def
      on_chan_def Let_def split: prod.split sysres.split)

lemma callback_before_registration:
  assumes "ch_index (chans w c) = kNew"
  shows "andThen (EnableReading (Channel_Update e) c w) (\<lambda>w. Inr (on_chan (SetReadCallback cb) c w))
    = EnableReading (Channel_Update e) c (on_chan (SetReadCallback cb) c w)"
proof -
  have "SetReadCallback cb (SetIndex i (SetEvents ev a)) = SetIndex i (SetEvents ev (SetReadCallback cb a))"
    "ch_index (SetReadCallback cb a) = ch_index a" "ch_loop (SetReadCallback cb a) = ch_loop a" "ch_fd (SetReadCallback cb a) = ch_fd a"
    "ch_events (SetReadCallback cb a) = ch_events a" for i ev and a :: "callback channel"
    by (simp_all add: SetReadCallback_def SetIndex_def SetEvents_def)
  then show ?thesis
    using assms by (simp add: EnableReading_new Let_def on_chan_def split: prod.split sysres.split)
qed

lemma acceptor_ready_more:
  assumes "acceptor_ready L w a" and "L \<subseteq> M" and "acceptors w' = acceptors w" and "servers w' = servers w"
    and "\<And>ch. managed ch w \<Longrightarrow> managed ch w'"
  shows "acceptor_ready M w' a"
  using assms by (auto simp: acceptor_ready_def server_ready_def)

lemma good_new_EventLoop:
  assumes laws: "kernel_laws e G" and good: "good G L B w" and l: "l \<notin> L" and c: "\<not> managed c w" "c < next_ptr w"
    and new: "new_EventLoop e me l c w = Inr w'"
  shows "good G (insert l L) B w'" and "acceptor_ready L w a \<Longrightarrow> acceptor_ready (insert l L) w' a"
    and "d \<noteq> c \<Longrightarrow> managed d w' = managed d w" and "next_ptr w' = next_ptr w" and "servers w' = servers w"
proof -
  obtain ep k1 where ep: "sys_epoll_create1 e (kern w) = (ep, k1)" by fastforce
  obtain evtfd k2 where fd: "sys_eventfd e k1 = (SysOk evtfd, k2)"
    using new ep by (auto simp: new_EventLoop_def NewDefaultPoller_def new_EpollPoller_def CreateEventfd_def Let_def split: prod.splits sysres.splits)
  note opened = fresh_descriptorsD(5) [OF laws ep] fresh_descriptorsD(4) [OF laws fd]
  let ?a = "SetReadCallback (LoopHandleRead l) (new_Channel l evtfd)"
  let ?p = "\<lparr>po_channels = Map.empty, po_epoll_fd = ep, po_events_size = kInitEventListSize\<rparr>"
  let ?lp = "\<lparr>el_looping = False, el_quit = False, el_poll_return_time = 0, el_active_channels = [], el_thread_id = me,
      el_wakeup_fd = evtfd, el_wakeup_channel = c, el_pending_functors = [], el_calling_pending_functors = False\<rparr>"
  let ?v = "w\<lparr>kern := k1, pollers := (pollers w)(l := ?p)\<rparr>"
  let ?u = "w\<lparr>kern := k2, chans := (chans w)(c := ?a), pollers := (pollers w)(l := ?p), loops := (loops w)(l := ?lp),
      loop_in_this_thread := (loop_in_this_thread w)(me := Some l)\<rparr>"
  have "registrations_ok G (insert l L) ?v"
    by (rule registrations_ok_new_loop [OF goodD(1) [OF good] l]) (use opened in auto)
  then have reg: "registrations_ok G (insert l L) ?u"
  proof (rule registrations_ok_new_channel)
    show "quiet G (kern ?v) (kern ?u)" using opened by simp
    show "ch_fd ?a \<noteq> ch_fd (chans ?v d)" if "managed d ?v" for d
    proof -
      have "managed d w" using that by (simp add: managed_def)
      then have "ch_fd (chans w d) \<in> g_open G k1" using registrations_okD(6) [OF goodD(1) [OF good]] opened(1) by blast
      then show ?thesis using opened(2) by (auto simp: opens_def SetReadCallback_def new_Channel_def)
    qed
  qed (use c opened in \<open>simp_all add: managed_def SetReadCallback_def new_Channel_def kNew_def opens_def\<close>)
  have managed: "managed d ?u \<longleftrightarrow> d = c \<or> managed d w" for d by (simp add: managed_def SetReadCallback_def)
  have acc: "acceptor_ready (insert l L) ?u b" if "acceptor_ready L w b" for b
    by (rule acceptor_ready_more [OF that]) (auto simp: managed)
  have u: "good G (insert l L) B ?u"
    by (rule good_new_channel [OF good reg subset_insertI _ c(1) _ _ _ acc])
       (auto simp: stored_def SetReadCallback_def new_Channel_def conn_callback_def callback_sound_def queue_def)
  let ?b = "w\<lparr>kern := k2, chans := (chans w)(c := new_Channel l evtfd), pollers := (pollers w)(l := ?p), loops := (loops w)(l := ?lp),
      loop_in_this_thread := (loop_in_this_thread w)(me := Some l)\<rparr>"
  have "andThen (EnableReading (Channel_Update e) c ?b) (\<lambda>w. Inr (on_chan (SetReadCallback (LoopHandleRead l)) c w)) = Inr w'"
    using new ep fd by (simp add: new_EventLoop_def NewDefaultPoller_def new_EpollPoller_def CreateEventfd_def Let_def split: if_splits)
  moreover have "on_chan (SetReadCallback (LoopHandleRead l)) c ?b = ?u" by (simp add: on_chan_def)
  moreover have "ch_index (chans ?b c) = kNew" by (simp add: new_Channel_def kNew_def)
  ultimately have "EnableReading (Channel_Update e) c ?u = Inr w'" using callback_before_registration by metis
  moreover from this have "safe G (insert l L) B ?u (Inr w')" using safe_interests(1) [OF laws u, of c] by (simp add: managed)
  ultimately have w': "good G (insert l L) B w'" "persists (insert l L) ?u w'" and fr: "EnableReading (Channel_Update e) c ?u = Inr w'"
    by simp_all
  show "good G (insert l L) B w'" by (rule w'(1))
  show "acceptor_ready L w a \<Longrightarrow> acceptor_ready (insert l L) w' a" using acc w'(2) by (simp add: persists_def)
  note parts = interest_parts [OF fr [unfolded EnableReading_def]]
  show "managed d w' = managed d w" if "d \<noteq> c" using managed_cbs [OF disp_cbs [OF parts(6)], of d] managed [of d] that by simp
  show "next_ptr w' = next_ptr w" "servers w' = servers w" using parts(2,3) by simp_all
qed


text \<open>A new server, configured by the application as it must be before \<open>Start\<close>: with a connection and a message callback.\<close>

definition configured :: "int \<Rightarrow> bool \<Rightarrow> bool \<Rightarrow> tcp_server \<Rightarrow> tcp_server" where
  "configured n write_complete thread_init = Server_SetThreadNum n \<circ> SetThreadInitCallback thread_init
     \<circ> Server_SetWriteCompleteCallback write_complete \<circ> Server_SetMessageCallback True \<circ> Server_SetConnectionCallback True"

lemma configured_sel [simp]:
  "sv_connection_callback (configured n wc ti sv)" "sv_message_callback (configured n wc ti sv)"
  "sv_pool (configured n wc ti sv) = Pool_SetThreadNum n (sv_pool sv)" "sv_acceptor (configured n wc ti sv) = sv_acceptor sv"
  "sv_connections (configured n wc ti sv) = sv_connections sv" "sv_started (configured n wc ti sv) = sv_started sv"
  "sv_loop (configured n wc ti sv) = sv_loop sv"
  by (simp_all add: configured_def Server_SetThreadNum_def SetThreadInitCallback_def Server_SetWriteCompleteCallback_def
      Server_SetMessageCallback_def Server_SetConnectionCallback_def)

lemma new_TcpServer_makes:
  assumes laws: "kernel_laws e G" and new: "new_TcpServer e p loop s a ch addr name option w = Inr w'"
  obtains l sock sv where "loop = Some l" and "opens G sock (kern w) (kern w')" and "quiet G (kern w) (kern w')"
    and "chans w' = (chans w)(ch := SetReadCallback (AcceptorHandleRead a) (new_Channel l sock))"
    and "pollers w' = pollers w" and "loops w' = loops w" and "conns w' = conns w" and "next_ptr w' = next_ptr w"
    and "servers w' = (servers w)(s := sv)" and "sv_pool sv = new_EventLoopThreadPool l name" and "sv_acceptor sv = a"
    and "sv_connections sv = Map.empty" and "sv_started sv = 0" and "sv_loop sv = l"
    and "acceptors w' = (acceptors w)(a := \<lparr>ac_loop = l, ac_socket = sock, ac_channel = ch, ac_listening = False,
           ac_new_connection_callback = Some s\<rparr>)"
proof -
  let ?sv = "\<lambda>l. \<lparr>sv_loop = l, sv_ip_port = ToIpPort p addr, sv_name = name, sv_acceptor = a,
     sv_pool = new_EventLoopThreadPool l name, sv_connection_callback = False, sv_message_callback = False,
     sv_write_complete_callback = False, sv_thread_init_callback = False, sv_num_threads = 0,
     sv_started = 0, sv_next_conn_id = 1, sv_connections = Map.empty\<rparr>"
  obtain l w1 where l: "loop = Some l" and built: "new_Acceptor e l a ch addr (option = kReusePort) w = Inr w1"
    and w': "w' = on_acceptor (SetNewConnectionCallback s) a (w1\<lparr>servers := (servers w1)(s := ?sv l)\<rparr>)"
    using new by (auto simp: new_TcpServer_def Server_CheckLoopNotNull_def andThen_eq_Inr Let_def split: option.splits)
  obtain sock k where sock: "sys_socket e (kern w) = (SysOk sock, k)"
    using built by (auto simp: new_Acceptor_def CreateNonblocking_def andThen_eq_Inr split: prod.splits sysres.splits)
  let ?k = "sys_setsockopt e sock SO_REUSEPORT (if option = kReusePort then 1 else 0) (sys_setsockopt e sock SO_REUSEADDR 1 k)"
  obtain r k' where bind: "sys_bind e sock addr ?k = (r, k')" by fastforce
  let ?v = "w\<lparr>chans := (chans w)(ch := new_Channel l sock), acceptors := (acceptors w)(a := \<lparr>ac_loop = l, ac_socket = sock,
      ac_channel = ch, ac_listening = False, ac_new_connection_callback = None\<rparr>), kern := ?k\<rparr>"
  have w1: "w1 = on_chan (SetReadCallback (AcceptorHandleRead a)) ch (BindAddress e addr sock ?v)"
    using built sock by (simp add: new_Acceptor_def CreateNonblocking_def Let_def SetReusePort_def SetReuseAddr_def split del: if_split)
  have v: "chans (BindAddress e addr sock ?v) = chans ?v" "pollers (BindAddress e addr sock ?v) = pollers w"
    "loops (BindAddress e addr sock ?v) = loops w" "conns (BindAddress e addr sock ?v) = conns w"
    "next_ptr (BindAddress e addr sock ?v) = next_ptr w" "servers (BindAddress e addr sock ?v) = servers w"
    "acceptors (BindAddress e addr sock ?v) = acceptors ?v" "kern (BindAddress e addr sock ?v) = k'"
    using bind by (cases r; simp add: BindAddress_def)+
  have opened: "quiet G (kern w) k" "opens G sock (kern w) k" using fresh_descriptorsD(3) [OF laws sock] by simp_all
  have "quiet G k k'" by (rule quiet_trans [OF quiet_trans [OF io_quietD(5) [OF laws] io_quietD(5) [OF laws]] io_quietD(10) [OF laws bind]])
  then have kern: "quiet G (kern w) k'" "opens G sock (kern w) k'"
    using opened by (auto simp: opens_def quiet_def)
  show ?thesis
    by (rule that [of l sock "?sv l", OF l]) (use kern in \<open>simp_all add: w' w1 v SetNewConnectionCallback_def on_chan_def on_acceptor_def\<close>)
qed

lemma good_new_server:
  assumes laws: "kernel_laws e G" and good: "good G L B w" and l: "l \<in> L" and ch: "\<not> managed ch w" "ch < next_ptr w"
    and new: "new_TcpServer e p (Some l) s a ch addr name option w = Inr w1" and w': "w' = on_server (configured n wc ti) s w1"
  shows "good G L B w'" and "acceptor_ready L w' (sv_acceptor (servers w' s))" and "server_ready L (servers w' s)"
    and "sv_started (servers w' s) = 0" and "tp_num_threads (sv_pool (servers w' s)) = n" and "next_ptr w' = next_ptr w"
    and "d \<noteq> ch \<Longrightarrow> managed d w' = managed d w"
proof -
  obtain sock sv where opened: "opens G sock (kern w) (kern w1)" "quiet G (kern w) (kern w1)"
    and w1: "chans w1 = (chans w)(ch := SetReadCallback (AcceptorHandleRead a) (new_Channel l sock))"
      "pollers w1 = pollers w" "loops w1 = loops w" "conns w1 = conns w" "next_ptr w1 = next_ptr w" "servers w1 = (servers w)(s := sv)"
    and sv: "sv_pool sv = new_EventLoopThreadPool l name" "sv_acceptor sv = a" "sv_connections sv = Map.empty" "sv_started sv = 0"
    and acc: "acceptors w1 = (acceptors w)(a := \<lparr>ac_loop = l, ac_socket = sock, ac_channel = ch, ac_listening = False,
           ac_new_connection_callback = Some s\<rparr>)"
    using new_TcpServer_makes [OF laws new] by (metis option.inject)
  let ?a = "SetReadCallback (AcceptorHandleRead a) (new_Channel l sock)"
  show ready: "server_ready L (servers w' s)"
    using l by (simp add: w' w1 sv server_ready_def Pool_SetThreadNum_def new_EventLoopThreadPool_def pool_ok_def GetAllLoops_def)
  have managed: "managed d w' \<longleftrightarrow> d = ch \<or> managed d w" for d by (simp add: managed_def w' w1 SetReadCallback_def)
  have ready_all: "server_ready L (servers w' t)" if "server_ready L (servers w t)" for t
    using that ready by (cases "t = s") (simp_all add: w' w1)
  have acc': "acceptors w' = acceptors w1" by (simp add: w')
  have accs: "acceptor_ready L w' b" if "b = a \<or> acceptor_ready L w b" for b
  proof (cases "b = a")
    case False
    then show ?thesis using that ready_all managed unfolding acceptor_ready_def acc' acc by auto
  qed (use ready managed in \<open>simp add: acceptor_ready_def acc' acc\<close>)
  have reg: "registrations_ok G L w'"
  proof (rule registrations_ok_new_channel [OF goodD(1) [OF good], of w' ch ?a])
    show "ch_fd ?a \<noteq> ch_fd (chans w d)" if "managed d w" for d
      using registrations_okD(6) [OF goodD(1) [OF good] that] opened(1) by (auto simp: opens_def SetReadCallback_def new_Channel_def)
  qed (use ch l opened in \<open>simp_all add: w' w1 SetReadCallback_def new_Channel_def kNew_def opens_def\<close>)
  show "good G L B w'"
  proof (rule good_new_channel [OF good reg subset_refl _ ch(1), of ?a])
    show "conn_callback cb = None \<and> callback_sound L w' cb" if "Some cb \<in> stored ?a" for cb
      using that accs [of a] by (auto simp: stored_def SetReadCallback_def new_Channel_def conn_callback_def callback_sound_def)
    show "sv_connections (servers w t) x = Some c" if "sv_connections (servers w' t) x = Some c" for t x c
      using that by (cases "t = s") (simp_all add: w' w1 sv)
  qed (use accs in \<open>simp_all add: w' w1 queue_def\<close>)
  show "acceptor_ready L w' (sv_acceptor (servers w' s))" using accs [of a] by (simp add: w' w1 sv)
  show "sv_started (servers w' s) = 0" "tp_num_threads (sv_pool (servers w' s)) = n" "next_ptr w' = next_ptr w"
    by (simp_all add: w' w1 sv Pool_SetThreadNum_def)
  show "managed d w' = managed d w" if "d \<noteq> ch" using managed that by simp
qed


text \<open>The threads of a pool. Each gets a new loop; what the application does in its init callback is safe.\<close>

definition new_threads :: "ptr set \<Rightarrow> (tid \<times> ptr \<times> ptr) list \<Rightarrow> ('k, 'm) server_world_scheme \<Rightarrow> bool" where
  "new_threads L news w \<longleftrightarrow> distinct (map (fst \<circ> snd) news) \<and> distinct (map (snd \<circ> snd) news)
     \<and> (\<forall>new \<in> set news. fst (snd new) \<notin> L \<and> \<not> managed (snd (snd new)) w \<and> snd (snd new) < next_ptr w)"

lemma good_thread_init:
  assumes laws: "kernel_laws e G" "application_laws e G" and good: "good G L B w" and run: "thread_init_callback e me l w = Inr w'"
  shows "good G L B w' \<and> persists L w w'" and "managed d w' = managed d w" and "next_ptr w' = next_ptr w" and "servers w' = servers w"
proof -
  obtain acts k where calls: "on_thread_init e l (kern w) = (acts, k)" by fastforce
  let ?v = "w\<lparr>kern := k, trace := trace w @ [ThreadInitCb l]\<rparr>"
  have "calls_ok G (kern w) (acts, k)" using laws(2) calls by (metis application_laws_def)
  then have "safe G L B w (foldE (perform e me None) acts ?v)" by (rule safe_performs [OF laws(1) good]) simp
  moreover have fold: "foldE (perform e me None) acts ?v = Inr w'" using run calls by (simp add: thread_init_callback_def)
  ultimately show "good G L B w' \<and> persists L w w'" by simp
  have "no_phantoms ?v" using goodD(4) [OF good] by (auto simp: no_phantoms_def live_def conn_chan_def)
  then have calm: "calm ?v w'" by (rule calm_performs [OF fold])
  show "managed d w' = managed d w" using managed_cbs [OF disp_cbs [OF calmD(3) [OF calm]], of d] by (simp add: managed_def)
  show "next_ptr w' = next_ptr w" "servers w' = servers w" using calm_ids(2,3) [OF calm] by simp_all
qed

lemma good_StartLoop:
  assumes laws: "kernel_laws e G" "application_laws e G" and good: "good G L B w"
    and new: "new_threads L (new # news) w" and start: "StartLoop e cb new w = Inr w'"
  shows "good G (insert (fst (snd new)) L) B w'" and "acceptor_ready L w a \<Longrightarrow> acceptor_ready (insert (fst (snd new)) L) w' a"
    and "new_threads (insert (fst (snd new)) L) news w'" and "servers w' = servers w" and "next_ptr w' = next_ptr w"
proof -
  obtain t l c where n: "new = (t, l, c)" by (metis prod_cases3)
  obtain v where v: "new_EventLoop e t l c w = Inr v" and w': "w' = v \<or> thread_init_callback e t l v = Inr w'"
    using start n by (auto simp: StartLoop_def andThen_eq_Inr split: if_splits)
  have fresh: "l \<notin> L" "\<not> managed c w" "c < next_ptr w" using new n by (simp_all add: new_threads_def)
  note loop = good_new_EventLoop [OF laws(1) good fresh v]
  have kept: "good G (insert l L) B w' \<and> persists (insert l L) v w'" "managed d w' = managed d v" "next_ptr w' = next_ptr v"
    "servers w' = servers v" for d
    using w' loop(1) good_thread_init [OF laws loop(1)] by auto
  show "good G (insert (fst (snd new)) L) B w'" using kept(1) n by simp
  show "acceptor_ready L w a \<Longrightarrow> acceptor_ready (insert (fst (snd new)) L) w' a" using loop(2) kept(1) n by (simp add: persists_def)
  show "servers w' = servers w" "next_ptr w' = next_ptr w" using kept(3,4) loop(4,5) by simp_all
  have "c \<notin> snd ` snd ` set news" "l \<notin> fst ` snd ` set news" using new n by (auto simp: new_threads_def image_comp)
  then have other: "snd (snd x) \<noteq> c \<and> fst (snd x) \<noteq> l" if "x \<in> set news" for x using that by blast
  show "new_threads (insert (fst (snd new)) L) news w'"
    using new n other loop(3,4) kept(2,3) by (simp add: new_threads_def)
qed

lemma good_start_threads:
  assumes "kernel_laws e G" and "application_laws e G" and "good G L B w" and "new_threads L news w"
    and "start_threads e cb i news pl w = Inr (pl', w')"
  shows "good G (L \<union> fst ` snd ` set news) B w' \<and> servers w' = servers w
    \<and> (\<forall>a. acceptor_ready L w a \<longrightarrow> acceptor_ready (L \<union> fst ` snd ` set news) w' a)"
  using assms(3-)
proof (induction news arbitrary: i pl w L)
  case (Cons new news)
  from Cons.prems(3) obtain v where v: "StartLoop e cb new w = Inr v"
    and "start_threads e cb (Suc i) news (pl\<lparr>tp_loops := tp_loops pl @ [fst (snd new)],
      tp_threads := tp_threads pl @ [thread_name (tp_name pl) i]\<rparr>) v = Inr (pl', w')"
    by (auto simp: andThen_eq_Inr)
  then have rest: "\<exists>i pl. start_threads e cb i news pl v = Inr (pl', w')" by blast
  note first = good_StartLoop [OF assms(1,2) Cons.prems(1,2) v]
  have "L \<union> fst ` snd ` set (new # news) = insert (fst (snd new)) L \<union> fst ` snd ` set news" by auto
  moreover have "good G (insert (fst (snd new)) L \<union> fst ` snd ` set news) B w' \<and> servers w' = servers v
      \<and> (\<forall>a. acceptor_ready (insert (fst (snd new)) L) v a \<longrightarrow> acceptor_ready (insert (fst (snd new)) L \<union> fst ` snd ` set news) w' a)"
    using rest Cons.IH [OF first(1,3)] by blast
  ultimately show ?case using first(2,4) by simp
qed simp

text \<open>\<open>Start\<close>: the loops that exist afterwards are those of the pool's threads too.\<close>

definition started_loops :: "int \<Rightarrow> (tid \<times> ptr \<times> ptr) list \<Rightarrow> ptr set" where
  "started_loops n news = fst ` snd ` set (take (nat n) news)"

lemma new_threads_take: "new_threads L news w \<Longrightarrow> new_threads L (take n news) w"
  unfolding new_threads_def by (auto simp: take_map [symmetric] distinct_take dest: in_set_takeD)

lemma good_Server_Start:
  assumes laws: "kernel_laws e G" "application_laws e G" and good: "good G L B w"
    and ready: "acceptor_ready L w (sv_acceptor (servers w s))" "server_ready L (servers w s)"
    and new: "new_threads L news w" and first: "sv_started (servers w s) = 0"
    and start: "Server_Start e me news s w = Inr w'"
  shows "good G (L \<union> started_loops (tp_num_threads (sv_pool (servers w s))) news) B w'"
proof -
  let ?w1 = "on_server (\<lambda>sv. sv\<lparr>sv_started := sv_started sv + 1\<rparr>) s w" and ?a = "sv_acceptor (servers w s)" and ?p = "sv_pool (servers w s)"
  let ?news = "take (nat (tp_num_threads ?p)) news" and ?M = "L \<union> started_loops (tp_num_threads ?p) news"
  have w1: "good G L B ?w1 \<and> persists L w ?w1"
    by (rule good_on_server [OF good]) (use goodD(5) [OF good] in \<open>auto simp: server_ready_def\<close>)
  obtain pool w2 where
    pool: "Pool_Start e (sv_thread_init_callback (servers ?w1 s)) me news ?p ?w1 = Inr (pool, w2)"
    and run: "RunInLoop e me (\<lambda>_. Listen e ?a) (sv_loop (servers w s)) (FListen ?a) (on_server (\<lambda>sv. sv\<lparr>sv_pool := pool\<rparr>) s w2) = Inr w'"
    using start first by (auto simp: Server_Start_def Let_def andThen_eq_Inr)
  obtain v where threads: "start_threads e (sv_thread_init_callback (servers ?w1 s)) 0 ?news (?p\<lparr>tp_started := True\<rparr>) ?w1 = Inr (pool, v)"
    and w2: "w2 = v \<or> thread_init_callback e me (tp_base_loop pool) v = Inr w2"
    using pool by (auto simp: Pool_Start_def andThen_eq_Inr split: if_splits)
  have "new_threads L ?news ?w1" using new_threads_take [OF new] by (simp add: new_threads_def managed_def)
  then have v: "good G ?M B v" "servers v = servers ?w1" "acceptor_ready L ?w1 b \<Longrightarrow> acceptor_ready ?M v b" for b
    using good_start_threads [OF laws conjunct1 [OF w1] _ threads] by (simp_all add: started_loops_def)
  then have g2: "good G ?M B w2 \<and> persists ?M v w2" and s2: "servers w2 = servers ?w1"
    using w2 good_thread_init [OF laws v(1)] by (blast, auto)
  have "acceptor_ready L ?w1 ?a" using ready(1) w1 by (simp add: persists_def)
  then have acc: "acceptor_ready ?M w2 ?a" using v(3) g2 by (simp add: persists_def)
  have "pool_ok ?p" "set (GetAllLoops ?p) \<subseteq> L" using ready(2) by (simp_all add: server_ready_def)
  then have "pool_ok pool" "set (GetAllLoops pool) \<subseteq> ?M"
    using Pool_Start_keeps(2) [OF pool] unfolding start_threads_pool [OF threads]
    by (auto simp: GetAllLoops_def started_loops_def image_comp split: if_splits)
  then have w3: "good G ?M B (on_server (\<lambda>sv. sv\<lparr>sv_pool := pool\<rparr>) s w2) \<and> persists ?M w2 (on_server (\<lambda>sv. sv\<lparr>sv_pool := pool\<rparr>) s w2)"
    using g2 by (intro good_on_server) (auto simp: server_ready_def dest: goodD(5))
  then have "acceptor_ready ?M (on_server (\<lambda>sv. sv\<lparr>sv_pool := pool\<rparr>) s w2) ?a" using acc by (simp add: persists_def)
  then have "safe G ?M B (on_server (\<lambda>sv. sv\<lparr>sv_pool := pool\<rparr>) s w2) (Inr w')"
    using w3 unfolding run [symmetric] by (intro safe_RunInLoop [OF laws(1)] safe_Listen [OF laws(1)]) (simp_all add: functor_sound_def)
  then show ?thesis by simp
qed


section \<open>The running program\<close>

text \<open>
  The life of a program from its start: the kernel moves on; a loop is constructed; a server is constructed,
  configured and started, with any number of threads; a loop enters \<open>Loop\<close>, polls, dispatches a channel, takes its pending functors, runs
  them one by one, ends the batch, leaves \<open>Loop\<close>; any thread calls the library; the destructor of a server gives up a
  connection. \<open>L\<close> are the loops that exist, \<open>B\<close> the batches that they have taken. New objects are allocated at
  \<open>next_ptr\<close> and above.
\<close>

definition new_addresses :: "ptr set \<Rightarrow> ptr list \<Rightarrow> (tid \<times> ptr \<times> ptr) list \<Rightarrow> ptr \<Rightarrow> ('k, 'm) server_world_scheme \<Rightarrow> bool" where
  "new_addresses L chs news n w \<longleftrightarrow> distinct (chs @ map (snd \<circ> snd) news) \<and> distinct (map (fst \<circ> snd) news)
     \<and> (\<forall>ch \<in> set chs. next_ptr w \<le> ch \<and> ch < n)
     \<and> (\<forall>new \<in> set news. fst (snd new) \<notin> L \<and> next_ptr w \<le> snd (snd new) \<and> snd (snd new) < n)"

inductive serving_step ::
  "'k env \<Rightarrow> 'k ghost \<Rightarrow> inet \<Rightarrow> InetAddress \<Rightarrow> (ptr \<Rightarrow> ('k, 'm) server_world_scheme \<Rightarrow> bool) \<Rightarrow>
   ptr set \<times> (ptr \<Rightarrow> Functor list) \<times> ('k, 'm) server_world_scheme \<Rightarrow>
   ptr set \<times> (ptr \<Rightarrow> Functor list) \<times> ('k, 'm) server_world_scheme \<Rightarrow> bool"
  for e :: "'k env" and G :: "'k ghost" and p :: inet and junk :: InetAddress and lock :: "ptr \<Rightarrow> ('k, 'm) server_world_scheme \<Rightarrow> bool" where
  kernel_acts: "quiet G (kern w) k \<Longrightarrow> serving_step e G p junk lock (L, B, w) (L, B, w\<lparr>kern := k\<rparr>)"
| loop_built: "l \<notin> L \<Longrightarrow> new_addresses L [c] [] n w \<Longrightarrow> new_EventLoop e me l c (w\<lparr>next_ptr := n\<rparr>) = Inr w' \<Longrightarrow>
    serving_step e G p junk lock (L, B, w) (insert l L, B, w')"
| server_set_up: "l \<in> L \<Longrightarrow> new_addresses L [ch] news n w \<Longrightarrow>
    new_TcpServer e p (Some l) s a ch addr name option (w\<lparr>next_ptr := n\<rparr>) = Inr w1 \<Longrightarrow>
    Server_Start e me news s (on_server (configured num_threads wc ti) s w1) = Inr w' \<Longrightarrow>
    serving_step e G p junk lock (L, B, w) (L \<union> started_loops num_threads news, B, w')"
| loop_entered: "serving_step e G p junk lock (L, B, w) (L, B, on_loop (\<lambda>lp. lp\<lparr>el_looping := True, el_quit := False\<rparr>) l w)"
| loop_polled: "Poll e l kPollTimeMs [] (on_loop (\<lambda>lp. lp\<lparr>el_active_channels := []\<rparr>) l w) = (now, chs, w1) \<Longrightarrow>
    serving_step e G p junk lock (L, B, w) (L, B, on_loop (\<lambda>lp. lp\<lparr>el_poll_return_time := now, el_active_channels := chs\<rparr>) l w1)"
| loop_dispatched: "HandleEvent (run_callback e p junk (el_thread_id (loops w l))) lock t ch w = Inr w' \<Longrightarrow>
    serving_step e G p junk lock (L, B, w) (L, B, w')"
| batch_taken: "B l = [] \<Longrightarrow> serving_step e G p junk lock (L, B, w) (L, B(l := el_pending_functors (loops w l)),
    on_loop (\<lambda>lp. lp\<lparr>el_calling_pending_functors := True, el_pending_functors := []\<rparr>) l w)"
| functor_ran: "B l = f # fs \<Longrightarrow> run_functor e (el_thread_id (loops w l)) f w = Inr w' \<Longrightarrow>
    serving_step e G p junk lock (L, B, w) (L, B(l := fs), w')"
| batch_ended: "B l = [] \<Longrightarrow>
    serving_step e G p junk lock (L, B, w) (L, B, on_loop (\<lambda>lp. lp\<lparr>el_calling_pending_functors := False\<rparr>) l w)"
| loop_left: "serving_step e G p junk lock (L, B, w) (L, B, on_loop (\<lambda>lp. lp\<lparr>el_looping := False\<rparr>) l w)"
| thread_called: "sendable a \<Longrightarrow> perform e me None a w = Inr w' \<Longrightarrow> serving_step e G p junk lock (L, B, w) (L, B, w')"
| connection_dropped: "drop_connection e me s name w = Inr w' \<Longrightarrow> serving_step e G p junk lock (L, B, w) (L, B, w')"

text \<open>Before \<open>main\<close> has constructed anything.\<close>

definition program_start :: "('k, 'm) server_world_scheme \<Rightarrow> bool" where
  "program_start w \<longleftrightarrow> (\<forall>ch. stored (chans w ch) = {None}) \<and> (\<forall>l. el_pending_functors (loops w l) = [])
     \<and> (\<forall>c. tc_state (conns w c) \<noteq> kConnected) \<and> (\<forall>s. sv_connections (servers w s) = Map.empty)"

lemma good_program_start:
  assumes "program_start w"
  shows "good G {} (\<lambda>_. []) w"
proof -
  have none: "stored (chans w ch) = {None}" for ch using assms by (simp add: program_start_def)
  then have managed: "\<not> managed ch w" for ch using none [of ch] by (auto simp: managed_def stored_def)
  have "\<not> live c w" for c using none stored_wired [of c "conn_chan w c"] by (auto simp: live_def conn_chan_def)
  then show ?thesis
    using assms none managed by (simp add: good_def registrations_ok_def objects_ok_def no_phantoms_def queue_def program_start_def)
qed

lemma not_managed_above: "good G L B w \<Longrightarrow> next_ptr w \<le> ch \<Longrightarrow> \<not> managed ch w"
  using registrations_okD(3) [OF goodD(1)] by (metis not_le)

lemma good_server_set_up:
  assumes laws: "kernel_laws e G" "application_laws e G" and good: "good G L B w" and "l \<in> L" and new: "new_addresses L [ch] news n w"
    and made: "new_TcpServer e p (Some l) s a ch addr name option (w\<lparr>next_ptr := n\<rparr>) = Inr w1"
    and start: "Server_Start e me news s (on_server (configured num_threads wc ti) s w1) = Inr w'"
  shows "good G (L \<union> started_loops num_threads news) B w'"
proof -
  let ?v = "w\<lparr>next_ptr := n\<rparr>" and ?w2 = "on_server (configured num_threads wc ti) s w1"
  have n: "next_ptr w \<le> n" using new by (simp add: new_addresses_def)
  have v: "good G L B ?v" by (rule good_alloc(1) [OF good n])
  have fresh: "\<not> managed c ?v" if "next_ptr w \<le> c" for c using not_managed_above [OF good that] by (simp add: managed_def)
  have ch: "\<not> managed ch ?v" "ch < next_ptr ?v" using new fresh [of ch] by (simp_all add: new_addresses_def)
  note server = good_new_server [OF laws(1) v assms(4) ch made refl, where n = num_threads and wc = wc and ti = ti]
  have other: "snd (snd x) \<noteq> ch" if "x \<in> set news" for x using new that by (force simp: new_addresses_def)
  have "new_threads L news ?w2"
    unfolding new_threads_def
  proof (intro conjI ballI)
    fix x assume x: "x \<in> set news"
    then have "next_ptr w \<le> snd (snd x)" using new by (simp add: new_addresses_def)
    then show "\<not> managed (snd (snd x)) ?w2" using server(7) [OF other [OF x]] fresh by simp
    show "fst (snd x) \<notin> L" "snd (snd x) < next_ptr ?w2" using new x server(6) by (simp_all add: new_addresses_def)
  qed (use new in \<open>simp_all add: new_addresses_def\<close>)
  from good_Server_Start [OF laws server(1-3) this server(4) start] show ?thesis by (simp only: server(5))
qed

lemma good_serving_step:
  assumes laws: "kernel_laws e G" "application_laws e G" and good: "good G L B w"
    and step: "serving_step e G p junk lock (L, B, w) (L', B', w')"
  shows "good G L' B' w'"
  using step
proof cases
  case (kernel_acts k)
  then show ?thesis using good_kern(1) [OF good] by blast
next
  case (loop_built l c n me)
  have "good G L B (w\<lparr>next_ptr := n\<rparr>)" using good_alloc(1) [OF good] loop_built(4) by (simp add: new_addresses_def)
  moreover have "\<not> managed c (w\<lparr>next_ptr := n\<rparr>)" using not_managed_above [OF good] loop_built(4) by (simp add: new_addresses_def managed_def)
  moreover have "c < next_ptr (w\<lparr>next_ptr := n\<rparr>)" using loop_built(4) by (simp add: new_addresses_def)
  ultimately show ?thesis using good_new_EventLoop(1) [OF laws(1) _ loop_built(3) _ _ loop_built(5)] loop_built(1,2) by simp
next
  case (server_set_up l ch news n s a addr name option w1 me num_threads wc ti)
  then show ?thesis using good_server_set_up [OF laws good] by blast
next
  case (loop_entered l)
  show ?thesis unfolding loop_entered by (rule conjunct1 [OF good_on_loop [OF good]]) (auto simp: queue_def)
next
  case (loop_polled l now chs w1)
  have "good G L B (on_loop (\<lambda>lp. lp\<lparr>el_active_channels := []\<rparr>) l w)"
    by (rule conjunct1 [OF good_on_loop [OF good]]) (auto simp: queue_def)
  then have "good G L B w1" using good_Poll [OF laws(1) _ loop_polled(4)] by blast
  then show ?thesis unfolding loop_polled(1-3) by (rule conjunct1 [OF good_on_loop]) (auto simp: queue_def)
next
  case (loop_dispatched l t ch)
  then show ?thesis using safe_HandleEvent [OF laws good] by (metis safe_Inr)
next
  case (batch_taken l)
  show ?thesis unfolding batch_taken(1-3) by (rule conjunct1 [OF good_on_loop [OF good]]) (use batch_taken in \<open>auto simp: queue_def\<close>)
next
  case (functor_ran l f fs)
  then show ?thesis using safe_run_functor [OF laws good_dequeue [OF good functor_ran(3)]] by (metis safe_Inr)
next
  case (batch_ended l)
  show ?thesis unfolding batch_ended(1-3) by (rule conjunct1 [OF good_on_loop [OF good]]) (auto simp: queue_def)
next
  case (loop_left l)
  show ?thesis unfolding loop_left by (rule conjunct1 [OF good_on_loop [OF good]]) (auto simp: queue_def)
next
  case (thread_called a me)
  then show ?thesis using safe_perform [OF laws(1) good] by (metis safe_Inr option.distinct(1))
next
  case (connection_dropped me s name)
  then show ?thesis using safe_drop_connection [OF laws good] by (metis safe_Inr)
qed

lemma good_serving_steps:
  assumes "kernel_laws e G" and "application_laws e G" and "program_start w0"
    and "(serving_step e G p junk lock)\<^sup>*\<^sup>* ({}, \<lambda>_. [], w0) (L, B, w)"
  shows "good G L B w"
proof -
  have "case s of (L, B, w) \<Rightarrow> good G L B w" if "(serving_step e G p junk lock)\<^sup>*\<^sup>* ({}, \<lambda>_. [], w0) s" for s
    using that
  proof (induction rule: rtranclp_induct)
    case (step s s')
    then show ?case using good_serving_step [OF assms(1,2)] by (cases s; cases s') blast
  qed (simp add: good_program_start [OF assms(3)])
  from this [OF assms(4)] show ?thesis by simp
qed

section \<open>A concrete server\<close>

text \<open>
  A kernel that keeps interest lists and hands out descriptors in order; descriptor 5, the listening socket of the run
  below, is always ready. The application echoes and its connections ask for nothing else.
\<close>

record serve_kernel =
  sk_ints :: "fd \<Rightarrow> fd \<Rightarrow> epoll_event option"
  sk_next :: fd

definition serve_env :: "serve_kernel env" where
  "serve_env =
    \<lparr>sys_readv = (\<lambda>f ls k. (SysOk (take (sum_list ls) [104, 105]), k)),
     sys_read = (\<lambda>f n k. (SysOk (replicate n 0), k)),
     sys_write = (\<lambda>f bs k. (SysOk (length bs), k)),
     sys_close = (\<lambda>f k. k),
     sys_eventfd = (\<lambda>k. (SysOk (sk_next k), k\<lparr>sk_next := sk_next k + 1\<rparr>)),
     sys_epoll_create1 = (\<lambda>k. (sk_next k, k\<lparr>sk_ints := (sk_ints k)(sk_next k := (\<lambda>_. None)), sk_next := sk_next k + 1\<rparr>)),
     sys_epoll_ctl = (\<lambda>ep op f ev k.
        if (sk_ints k ep f = None) = (op = EPOLL_CTL_ADD)
        then (SysOk (), k\<lparr>sk_ints := (sk_ints k)(ep := (sk_ints k ep)
               (f := (if op = EPOLL_CTL_DEL then None else Some ev)))\<rparr>)
        else (SysErr (if op = EPOLL_CTL_ADD then 17 else 2), k)),
     sys_epoll_wait = (\<lambda>ep n t k. (SysOk (take n (case sk_ints k ep 5 of None \<Rightarrow> []
         | Some r \<Rightarrow> [\<lparr>ev_events = EPOLLIN, ev_data = ev_data r\<rparr>])), k)),
     sys_socket = (\<lambda>k. (SysOk (sk_next k), k\<lparr>sk_next := sk_next k + 1\<rparr>)),
     sys_bind = (\<lambda>f a k. (SysOk (), k)),
     sys_listen = (\<lambda>f n k. (SysOk (), k)),
     sys_accept4 = (\<lambda>f k. (SysOk (sk_next k, \<lparr>sin_family = 2, sin_port = 80, sin_addr = 16777343\<rparr>), k\<lparr>sk_next := sk_next k + 1\<rparr>)),
     sys_shutdown = (\<lambda>f k. (SysOk (), k)),
     sys_setsockopt = (\<lambda>f opt v k. k),
     sys_getsockopt_error = (\<lambda>f k. (SysOk 0, k)),
     sys_getsockname = (\<lambda>f k. (SysOk \<lparr>sin_family = 2, sin_port = 80, sin_addr = 16777343\<rparr>, k)),
     sys_time = (\<lambda>k. (0, k)),
     on_connection = (\<lambda>c up k. ([], k)),
     on_message = (\<lambda>c bs t k. ([DoSendBuffer c], k)),
     on_write_complete = (\<lambda>c k. ([], k)),
     on_high_water_mark = (\<lambda>c n k. ([], k)),
     on_thread_init = (\<lambda>l k. ([], k)),
     on_functor = (\<lambda>n k. ([], k))\<rparr>"

lemma serve_calls:
  "sys_epoll_ctl serve_env ep op f ev k = (if (sk_ints k ep f = None) = (op = EPOLL_CTL_ADD)
     then (SysOk (), k\<lparr>sk_ints := (sk_ints k)(ep := (sk_ints k ep)(f := (if op = EPOLL_CTL_DEL then None else Some ev)))\<rparr>)
     else (SysErr (if op = EPOLL_CTL_ADD then 17 else 2), k))"
  "sys_epoll_wait serve_env ep n t k = (SysOk (take n (case sk_ints k ep 5 of None \<Rightarrow> []
     | Some r \<Rightarrow> [\<lparr>ev_events = EPOLLIN, ev_data = ev_data r\<rparr>])), k)"
  "sys_listen serve_env f i k = (SysOk (), k)" "sys_time serve_env k = (0, k)"
  by (simp_all add: serve_env_def)

definition serve_ghost :: "serve_kernel ghost" where
  "serve_ghost = \<lparr>g_ints = sk_ints, g_open = (\<lambda>k. {..<sk_next k})\<rparr>"

lemma serve_laws: "kernel_laws serve_env serve_ghost" "application_laws serve_env serve_ghost"
proof -
  have "epoll_ctl_ok serve_env sk_ints" "epoll_ctl_accepts serve_env sk_ints" "write_ok serve_env" "readv_ok serve_env"
    by (auto simp: serve_env_def epoll_ctl_ok_def epoll_ctl_accepts_def write_ok_def readv_ok_def split: if_splits)
  moreover have "epoll_wait_ok serve_env sk_ints"
    by (auto simp: serve_env_def epoll_wait_ok_def take_Cons' split: option.splits if_splits)
  moreover have "io_quiet serve_env serve_ghost" "fresh_descriptors serve_env serve_ghost" "epoll_keeps_open serve_env serve_ghost"
    by (auto simp: serve_env_def io_quiet_def fresh_descriptors_def epoll_keeps_open_def serve_ghost_def quiet_def opens_def)
  ultimately show "kernel_laws serve_env serve_ghost" by (simp add: kernel_laws_def) (simp add: serve_ghost_def)
  show "application_laws serve_env serve_ghost"
    by (auto simp: application_laws_def calls_ok_def sendable_def serve_env_def vector_max_size_def split: action.split)
qed

definition serve_world0 :: "serve_kernel server_world" where
  "serve_world0 =
     \<lparr>kern = \<lparr>sk_ints = (\<lambda>_ _. None), sk_next = 3\<rparr>, trace = [], chans = (\<lambda>_. new_Channel 0 0),
      pollers = (\<lambda>_. \<lparr>po_channels = Map.empty, po_epoll_fd = 0, po_events_size = 16\<rparr>),
      loops = (\<lambda>_. sample_loop), loop_in_this_thread = (\<lambda>_. None), conns = (\<lambda>_. sample_conn\<lparr>tc_state := kConnecting\<rparr>),
      acceptors = (\<lambda>_. \<lparr>ac_loop = 0, ac_socket = 0, ac_channel = 0, ac_listening = False, ac_new_connection_callback = None\<rparr>),
      servers = (\<lambda>_. sample_server), next_ptr = 10\<rparr>"

lemma serve_world0_starts: "program_start serve_world0"
  by (simp add: program_start_def serve_world0_def stored_def new_Channel_def sample_loop_def sample_conn_def sample_server_def)

lemma serve_loop:
  obtains w where "new_EventLoop serve_env 100 0 10 (serve_world0\<lparr>next_ptr := 11\<rparr>) = Inr w" and "next_ptr w = 11"
    and "el_thread_id (loops w 0) = 100" and "kern w = \<lparr>sk_ints = (\<lambda>_ _. None)(3 := [4 \<mapsto> \<lparr>ev_events = kReadEvent, ev_data = 10\<rparr>]), sk_next = 5\<rparr>"
    and "pollers w 0 = \<lparr>po_channels = [4 \<mapsto> 10], po_epoll_fd = 3, po_events_size = 16\<rparr>"
    and "el_pending_functors (loops w 0) = []"
  by (rule that [of "projr (new_EventLoop serve_env 100 0 10 (serve_world0\<lparr>next_ptr := 11\<rparr>))"])
     (simp_all add: new_EventLoop_def NewDefaultPoller_def new_EpollPoller_def CreateEventfd_def serve_env_def serve_world0_def Let_def
       EnableReading_new new_Channel_def kNew_def kInitEventListSize_def on_chan_def)

lemma serve_run:
  obtains w where "(serving_step serve_env serve_ghost dotted_inet no_addr (\<lambda>_ _. True))\<^sup>*\<^sup>* ({}, \<lambda>_. [], serve_world0) ({0}, \<lambda>_. [], w)"
    and "el_active_channels (loops w 0) = [11]" and "ch_revents (chans w 11) = EPOLLIN"
proof -
  let ?R = "serving_step serve_env serve_ghost dotted_inet no_addr (\<lambda>_ _. True)"
  obtain w where w: "new_EventLoop serve_env 100 0 10 (serve_world0\<lparr>next_ptr := 11\<rparr>) = Inr w" "next_ptr w = 11"
    "el_thread_id (loops w 0) = 100" "kern w = \<lparr>sk_ints = (\<lambda>_ _. None)(3 := [4 \<mapsto> \<lparr>ev_events = kReadEvent, ev_data = 10\<rparr>]), sk_next = 5\<rparr>"
    "pollers w 0 = \<lparr>po_channels = [4 \<mapsto> 10], po_epoll_fd = 3, po_events_size = 16\<rparr>"
    by (rule serve_loop)
  have "?R ({}, \<lambda>_. [], serve_world0) ({0}, \<lambda>_. [], w)"
    by (rule loop_built [OF _ _ w(1)]) (simp_all add: new_addresses_def serve_world0_def)
  let ?new = "new_TcpServer serve_env dotted_inet (Some 0) 8 9 11 no_addr ''echo'' kNoReusePort (w\<lparr>next_ptr := 12\<rparr>)"
  define w1 where "w1 = projr ?new"
  have w1: "?new = Inr w1"
    by (simp add: w1_def new_TcpServer_def Server_CheckLoopNotNull_def new_Acceptor_def CreateNonblocking_def serve_env_def Let_def)
  define v where "v = on_server (configured 0 False False) 8 w1"
  have v: "chans v 11 = SetReadCallback (AcceptorHandleRead 9) (new_Channel 0 5)" "pollers v = pollers w" "loops v = loops w"
    "kern v = (kern w)\<lparr>sk_next := 6\<rparr>" "ac_channel (acceptors v 9) = 11" "sv_loop (servers v 8) = 0" "sv_acceptor (servers v 8) = 9"
    "sv_started (servers v 8) = 0" "tp_num_threads (sv_pool (servers v 8)) = 0" "\<not> sv_thread_init_callback (servers v 8)"
    using w1 w by (auto simp: v_def new_TcpServer_def Server_CheckLoopNotNull_def new_Acceptor_def CreateNonblocking_def serve_env_def Let_def
        BindAddress_def SetReusePort_def SetReuseAddr_def SetNewConnectionCallback_def on_chan_def on_acceptor_def on_server_def
        configured_def Server_SetThreadNum_def SetThreadInitCallback_def Server_SetConnectionCallback_def Server_SetMessageCallback_def
        Server_SetWriteCompleteCallback_def Pool_SetThreadNum_def)
  define w2 where "w2 = projr (Server_Start serve_env 100 [] 8 v)"
  have w2: "Server_Start serve_env 100 [] 8 v = Inr w2" "sk_ints (kern w2) 3 5 = Some \<lparr>ev_events = kReadEvent, ev_data = 11\<rparr>"
    "po_epoll_fd (pollers w2 0) = 3" "po_events_size (pollers w2 0) = 16"
    by (simp_all add: w2_def Server_Start_def v Let_def Pool_Start_def RunInLoop_def IsInLoopThread_def w Listen_def Socket_Listen_def
        EnableReading_new serve_calls new_Channel_def SetReadCallback_def kNew_def)
  have "?R ({0}, \<lambda>_. [], w) ({0} \<union> started_loops 0 [], \<lambda>_. [], w2)"
    by (rule server_set_up [OF _ _ w1 w2(1) [unfolded v_def]]) (simp_all add: new_addresses_def w)
  with \<open>?R ({}, \<lambda>_. [], serve_world0) ({0}, \<lambda>_. [], w)\<close> have steps: "?R\<^sup>*\<^sup>* ({}, \<lambda>_. [], serve_world0) ({0}, \<lambda>_. [], w2)"
    by (simp add: started_loops_def)
  define w3 where "w3 = snd (snd (Poll serve_env 0 kPollTimeMs [] (on_loop (\<lambda>lp. lp\<lparr>el_active_channels := []\<rparr>) 0 w2)))"
  have w3: "Poll serve_env 0 kPollTimeMs [] (on_loop (\<lambda>lp. lp\<lparr>el_active_channels := []\<rparr>) 0 w2) = (0, [11], w3)"
    "ch_revents (chans w3 11) = EPOLLIN"
    by (simp_all add: w3_def Poll_def serve_calls w2 Let_def)
  let ?w4 = "on_loop (\<lambda>lp. lp\<lparr>el_poll_return_time := 0, el_active_channels := [11]\<rparr>) 0 w3"
  have "?R ({0}, \<lambda>_. [], w2) ({0}, \<lambda>_. [], ?w4)" by (rule loop_polled [OF w3(1)])
  with steps have "?R\<^sup>*\<^sup>* ({}, \<lambda>_. [], serve_world0) ({0}, \<lambda>_. [], ?w4)" by (rule rtranclp.rtrancl_into_rtrancl)
  then show ?thesis by (rule that) (simp_all add: w3(2))
qed

section \<open>Properties\<close>

definition faults :: "'a result \<Rightarrow> fault set" where
  "faults r = (case r of Inl x \<Rightarrow> {x} | Inr a \<Rightarrow> {})"

lemma faults_safe: "safe G L B w r \<Longrightarrow> faults r \<subseteq> {LengthError, IntOverflow}"
  by (simp add: safe_def faults_def split: sum.splits)



end
