(* ===== verification/Send_Equivalence.thy ===== *)
theory Send_Equivalence
  imports Tcp_Server
begin

text \<open>
  The two overloads of \<open>Send\<close> (src/tcp_connection.cpp, lines 160 to 184): sending never looks at an
  input buffer, so emptying one before or after a send is the same, and in the loop's thread
  sending a \<open>Buffer*\<close> is sending its content. From another thread the two differ.
\<close>

section \<open>Sending commutes with changes of an input buffer\<close>

named_theorems input_simps

definition on_input :: "(buffer \<Rightarrow> buffer) \<Rightarrow> ptr \<Rightarrow> ('k, 'm) tcp_world_scheme \<Rightarrow> ('k, 'm) tcp_world_scheme" where
  "on_input g d w = on_conn (\<lambda>conn. conn\<lparr>tc_input_buffer := g (tc_input_buffer conn)\<rparr>) d w"

lemma on_input_sel [simp]:
  "kern (on_input g d w) = kern w" "trace (on_input g d w) = trace w" "chans (on_input g d w) = chans w"
  "pollers (on_input g d w) = pollers w" "loops (on_input g d w) = loops w" "conn_chan (on_input g d w) c = conn_chan w c"
  by (simp_all add: on_input_def conn_chan_def)

lemma on_input_conns [simp]:
  "tc_state (conns (on_input g d w) c) = tc_state (conns w c)" "tc_loop (conns (on_input g d w) c) = tc_loop (conns w c)"
  "tc_channel (conns (on_input g d w) c) = tc_channel (conns w c)"
  "tc_output_buffer (conns (on_input g d w) c) = tc_output_buffer (conns w c)"
  "tc_high_water_mark (conns (on_input g d w) c) = tc_high_water_mark (conns w c)"
  "tc_high_water_mark_callback (conns (on_input g d w) c) = tc_high_water_mark_callback (conns w c)"
  "tc_write_complete_callback (conns (on_input g d w) c) = tc_write_complete_callback (conns w c)"
  by (simp_all add: on_input_def)

lemma on_input_updates [input_simps]:
  "(on_input g d w)\<lparr>kern := k\<rparr> = on_input g d (w\<lparr>kern := k\<rparr>)"
  "(on_input g d w)\<lparr>trace := tr\<rparr> = on_input g d (w\<lparr>trace := tr\<rparr>)"
  "(on_input g d w)\<lparr>chans := cs\<rparr> = on_input g d (w\<lparr>chans := cs\<rparr>)"
  "(on_input g d w)\<lparr>pollers := ps\<rparr> = on_input g d (w\<lparr>pollers := ps\<rparr>)"
  "(on_input g d w)\<lparr>loops := ls\<rparr> = on_input g d (w\<lparr>loops := ls\<rparr>)"
  by (simp_all add: on_input_def on_conn_def)

lemma on_input_on_chan [input_simps]: "on_chan f ch (on_input g d w) = on_input g d (on_chan f ch w)"
  by (simp add: on_chan_def input_simps)

lemma on_input_log_error [input_simps]: "log_error m (on_input g d w) = on_input g d (log_error m w)"
  by (simp add: log_error_def input_simps)

lemma on_input_output [input_simps]:
  "on_conn (\<lambda>conn. conn\<lparr>tc_output_buffer := b\<rparr>) c (on_input g d w) = on_input g d (on_conn (\<lambda>conn. conn\<lparr>tc_output_buffer := b\<rparr>) c w)"
  by (cases "conns w c") (simp add: on_input_def on_conn_def fun_upd_twist)

lemma on_input_QueueInLoop [input_simps]: "QueueInLoop e me l f (on_input g d w) = on_input g d (QueueInLoop e me l f w)"
  by (auto simp: QueueInLoop_def Let_def Wakeup_def on_loop_def IsInLoopThread_def input_simps split: prod.split)

lemma on_input_Update [input_simps]: "Update e l op c (on_input g d w) = map_sum id (on_input g d) (Update e l op c w)"
  by (auto simp: Update_def input_simps split: prod.split sysres.split)

lemma on_input_Channel_Update [input_simps]:
  "Channel_Update e c (on_input g d w) = map_sum id (on_input g d) (Channel_Update e c w)"
  by (auto simp: Channel_Update_def EventLoop_UpdateChannel_def UpdateChannel_def Let_def input_simps)


lemma on_input_send_now [input_simps]:
  "send_now e me c data (on_input g d w) = (case send_now e me c data w of (n, r, fault, w) \<Rightarrow> (n, r, fault, on_input g d w))"
  by (simp add: send_now_def Let_def input_simps split: prod.split sysres.split)

lemma on_input_EnableWriting [input_simps]:
  "EnableWriting (Channel_Update e) ch (on_input g d w) = map_sum id (on_input g d) (EnableWriting (Channel_Update e) ch w)"
  by (simp add: EnableWriting_def input_simps)

lemma map_sum_andThen: "map_sum id f (andThen m g) = andThen m (\<lambda>a. map_sum id f (g a))"
  by (cases m) simp_all

lemma on_input_send_rest [input_simps]:
  "send_rest e me c rest r (on_input g d w) = map_sum id (on_input g d) (send_rest e me c rest r w)"
proof -
  let ?q = "\<lambda>w. if ReadableBytes (tc_output_buffer (conns w c)) + r \<ge> tc_high_water_mark (conns w c)
      \<and> ReadableBytes (tc_output_buffer (conns w c)) < tc_high_water_mark (conns w c) \<and> tc_high_water_mark_callback (conns w c)
      then QueueInLoop e me (tc_loop (conns w c)) (FHighWaterMark c (ReadableBytes (tc_output_buffer (conns w c)) + r)) w else w"
  have q: "?q (on_input g d w) = on_input g d (?q w)" by (simp add: input_simps)
  show ?thesis
    unfolding send_rest_def Let_def q by (simp add: input_simps map_sum_andThen if_distrib [of "map_sum id (on_input g d)"] cong: if_cong)
qed

lemma on_input_SendInLoop [input_simps]:
  "SendInLoop e me c data (on_input g d w) = map_sum id (on_input g d) (SendInLoop e me c data w)"
  by (simp add: SendInLoop_def input_simps split: prod.split)

section \<open>Properties\<close>

text \<open>
  C33: two ways to send a buffer. In the loop's own thread \<open>Send(Buffer*)\<close> on a connected connection does exactly
  what taking the content out with \<open>RetrieveAll\<close> and sending it as a string does: the same bytes
  written and stored, the same functors queued, the same faults, and the same world afterwards.
\<close>

theorem sending_the_buffer_is_sending_its_content:
  assumes "tc_state (conns w c) = kConnected" and "IsInLoopThread me (tc_loop (conns w c)) w" and "wf_buffer (tc_input_buffer (conns w d))"
  shows "perform e me (Some d) (DoSendBuffer c) w
    = foldE (perform e me (Some d)) [DoRetrieveAll, DoSend c (content (tc_input_buffer (conns w d)))] w"
proof -
  let ?b = "tc_input_buffer (conns w d)"
  have data: "read_bytes (Peek ?b) (ReadableBytes ?b) ?b = Inr (content ?b)" by (rule read_bytes_all [OF assms(3)])
  have "perform e me (Some d) (DoSendBuffer c) w = map_sum id (on_input RetrieveAll d) (SendInLoop e me c (content ?b) w)"
    using assms data by (simp add: perform_def Send_Buffer_def send_buffer_body_def on_input_def andThen_def map_sum_def split: sum.split)
  also have "\<dots> = SendInLoop e me c (content ?b) (on_input RetrieveAll d w)" by (simp add: input_simps)
  also have "\<dots> = Send e me c (content ?b) (on_input RetrieveAll d w)"
    using assms by (simp add: Send_def IsInLoopThread_def)
  also have "\<dots> = foldE (perform e me (Some d)) [DoRetrieveAll, DoSend c (content ?b)] w"
    by (simp add: perform_def on_input_def)
  finally show ?thesis .
qed

theorem sending_the_buffer_is_sending_its_content_witness:
  "perform test_env 100 (Some 1) (DoSendBuffer 1) (on_conn (\<lambda>conn. conn\<lparr>tc_input_buffer := waiting_buffer\<rparr>) 1 sample_tcp_world)
    = foldE (perform test_env 100 (Some 1)) [DoRetrieveAll, DoSend 1 [5, 6]]
        (on_conn (\<lambda>conn. conn\<lparr>tc_input_buffer := waiting_buffer\<rparr>) 1 sample_tcp_world)"
  using sending_the_buffer_is_sending_its_content [of "on_conn (\<lambda>conn. conn\<lparr>tc_input_buffer := waiting_buffer\<rparr>) 1 sample_tcp_world" 1 100 1 test_env]
    waiting_buffer_ok
  by (simp add: sample_tcp_world_def sample_conn_def IsInLoopThread_def sample_loop_def)

text \<open>
  From another thread the pointer is queued, not the bytes: what is sent is what the buffer holds when
  the functor runs, while \<open>Send\<close> with a string sends what it was given.
\<close>

lemma queued_buffer_is_read_later:
  assumes "tc_state (conns w c) = kConnected" and "\<not> IsInLoopThread me (tc_loop (conns w c)) w"
  shows "Send_Buffer e me c d w = Inr (QueueInLoop e me (tc_loop (conns w c)) (FSendBuffer c d) w)"
    and "wf_buffer (tc_input_buffer (conns v d)) \<Longrightarrow> run_functor e t (FSendBuffer c d) v
      = map_sum id (on_input RetrieveAll d) (SendInLoop e t c (content (tc_input_buffer (conns v d))) v)"
  using assms
  by (simp_all add: Send_Buffer_def RunInLoop_def run_functor_def send_buffer_body_def read_bytes_all on_input_def andThen_def map_sum_def
      split: sum.split)

end
