(* ===== verification/Echo_Server.thy ===== *)
theory Echo_Server
  imports Tcp_Server
begin

text \<open>
  The echo server of tests/echo_server.cpp on top of the library: its callbacks, its constructor,
  its \<open>main\<close>, and what the whole stack below it guarantees for one connection over any
  sequence of events.
\<close>

section \<open>The program\<close>

text \<open>
  The two callbacks as the library calls they make: the connection callback only prints a line at the
  level \<open>INFO\<close>; the message callback empties the buffer it is given and sends what was in it.
\<close>

definition UserDefineConnectionCallback :: "ptr \<Rightarrow> bool \<Rightarrow> action list" where
  "UserDefineConnectionCallback c up = []"

definition UserDefineMessageCallback :: "ptr \<Rightarrow> byte list \<Rightarrow> action list" where
  "UserDefineMessageCallback c bs = [DoRetrieveAll, DoSend c bs]"

definition echo_env :: "'k env \<Rightarrow> 'k env" where
  "echo_env e = e\<lparr>on_connection := (\<lambda>c up k. (UserDefineConnectionCallback c up, k)),
     on_message := (\<lambda>c bs t k. (UserDefineMessageCallback c bs, k))\<rparr>"

definition new_EchoServer ::
  "'k env \<Rightarrow> inet \<Rightarrow> ptr option \<Rightarrow> ptr \<Rightarrow> ptr \<Rightarrow> ptr \<Rightarrow> InetAddress \<Rightarrow> string \<Rightarrow> ('k, 'm) server_op" where
  "new_EchoServer e p loop s a ch addr name w =
     andThen (new_TcpServer e p loop s a ch addr name kNoReusePort w) (\<lambda>w.
       Inr (on_server (Server_SetThreadNum 4 \<circ> Server_SetMessageCallback True \<circ> Server_SetConnectionCallback True) s w))"

definition EchoServer_Start :: "'k env \<Rightarrow> tid \<Rightarrow> (tid \<times> ptr \<times> ptr) list \<Rightarrow> ptr \<Rightarrow> ('k, 'm) server_op" where
  "EchoServer_Start e me news s w = Server_Start e me news s w"

text \<open>
  \<open>main\<close> with the loop at pointer 0 and the server at 2, up to the return of \<open>Loop\<close>: the destructors that
  follow are \<open>delete_TcpServer\<close> and \<open>delete_EventLoop\<close>.
\<close>

definition echo_main ::
  "nat \<Rightarrow> 'k env \<Rightarrow> inet \<Rightarrow> InetAddress \<Rightarrow> tid \<Rightarrow> (tid \<times> ptr \<times> ptr) list \<Rightarrow>
   (ptr \<Rightarrow> ('k, 'm) server_world_scheme \<Rightarrow> bool) \<Rightarrow> ('k, 'm) server_world_scheme \<Rightarrow> ('k, 'm) server_world_scheme result option" where
  "echo_main n e p junk me news lock w =
     (let e = echo_env e in
      case andThen (new_EventLoop e me 0 1 w) (\<lambda>w.
             andThen (new_EchoServer e p (Some 0) 2 3 4 (new_InetAddress p junk 9012 ''127.0.0.1'') ''CuteEchoServer'' w)
               (EchoServer_Start e me news 2)) of
        Inl x \<Rightarrow> Some (Inl x)
      | Inr w \<Rightarrow> Loop n e (run_callback e p junk me) lock (run_functor e me) 0 w)"

section \<open>Facts\<close>

lemma echo_env_sel [simp]:
  "sys_write (echo_env e) = sys_write e" "sys_readv (echo_env e) = sys_readv e" "sys_getsockopt_error (echo_env e) = sys_getsockopt_error e"
  "on_message (echo_env e) = (\<lambda>c bs t k. (UserDefineMessageCallback c bs, k))"
  by (simp_all add: echo_env_def)

lemma write_ok_echo [simp]: "write_ok (echo_env e) = write_ok e"
  by (simp add: write_ok_def)

lemma host_ok_echo:
  assumes "host_ok e ints c w"
  shows "host_ok (echo_env e) ints c w"
proof -
  have "sys_epoll_ctl (echo_env e) = sys_epoll_ctl e" by (simp add: echo_env_def)
  moreover have "io_keeps (echo_env e) ints" using assms by (simp add: host_ok_def io_keeps_def echo_env_def)
  ultimately show ?thesis
    using assms by (simp add: host_ok_def epoll_inv_def epoll_ctl_ok_def epoll_ctl_accepts_def)
qed

text \<open>
  The callback takes the content out of the buffer with \<open>RetrieveAllAsString\<close>: that is the whole
  content, and the buffer is left as by \<open>RetrieveAll\<close>.
\<close>

lemma RetrieveAllAsString_takes_content:
  assumes "wf_buffer b"
  shows "RetrieveAllAsString b = Inr (content b, RetrieveAll b)"
  using assms wf_bufferD [OF assms] unat_ReadableBytes [OF assms]
  by (simp add: RetrieveAllAsString_def RetrieveAsString_def read_bytes_def Peek_def content_def Retrieve_def)

lemma conn_ok_input:
  assumes "conn_ok c w" and "wf_buffer b"
  shows "conn_ok c (on_conn (\<lambda>conn. conn\<lparr>tc_input_buffer := b\<rparr>) c w)"
  using assms by (simp add: conn_ok_def conn_chan_def)

lemma host_ok_input: "host_ok e ints c w \<Longrightarrow> host_ok e ints c (on_conn (\<lambda>conn. conn\<lparr>tc_input_buffer := g conn\<rparr>) d w)"
  by (erule host_ok_cong) simp_all

text \<open>A connection of the echo server, seen from the thread of its loop, between two events.\<close>

definition echo_ok :: "'k env \<Rightarrow> 'k interest \<Rightarrow> tid \<Rightarrow> ptr \<Rightarrow> ('k, 'm) tcp_world_scheme \<Rightarrow> bool" where
  "echo_ok e ints me c w \<longleftrightarrow> host_ok (echo_env e) ints c w \<and> conn_ok c w \<and> tc_state (conns w c) = kConnected
     \<and> tc_message_callback (conns w c) \<and> content (tc_input_buffer (conns w c)) = [] \<and> IsInLoopThread me (tc_loop (conns w c)) w"

text \<open>The peer does not reset the connection, and the two vectors can grow as far as this event needs.\<close>

definition peer_stays :: "'k env \<Rightarrow> bool" where
  "peer_stays e \<longleftrightarrow> (\<forall>f bs k n k'. sys_write e f bs k = (SysErr n, k') \<longrightarrow> n \<noteq> EPIPE \<and> n \<noteq> ECONNRESET)"

definition has_room :: "byte list \<Rightarrow> ptr \<Rightarrow> ('k, 'm) tcp_world_scheme \<Rightarrow> bool" where
  "has_room bs c w \<longleftrightarrow> length (buf_vec (tc_input_buffer (conns w c))) + extrabuf_size \<le> vector_max_size
     \<and> length (buf_vec (tc_output_buffer (conns w c))) + length bs \<le> vector_max_size"

lemma peer_stays_not_gone:
  assumes "peer_stays e"
  shows "\<not> peer_gone (echo_env e) c data w"
proof -
  obtain r k where "sys_write e (tc_socket (conns w c)) data (kern w) = (r, k)" by fastforce
  then show ?thesis using assms by (cases r) (auto simp: peer_gone_def peer_stays_def, blast+)
qed

text \<open>One readable event.\<close>

lemma echo_read:
  assumes ok: "echo_ok e ints me c w" and laws: "write_ok e" "readv_ok e" "peer_stays e"
    and r: "sys_readv e (tc_socket (conns w c)) (readv_iov (tc_input_buffer (conns w c))) (kern w) = (SysOk bs, k)"
    and bs: "bs \<noteq> []" and room: "has_room bs c w"
  obtains w' where "Conn_HandleRead (echo_env e) me close t c w = Inr w'" and "echo_ok e ints me c w'"
    and "out_stream c w' = out_stream c w @ bs"
proof -
  let ?E = "echo_env e" and ?b = "tc_input_buffer (conns w c)"
  note parts = ok [unfolded echo_ok_def]
  have wf: "wf_buffer ?b" and fd: "ch_fd (conn_chan w c) = tc_socket (conns w c)" using parts by (simp_all add: conn_ok_def)
  have "readv_ok ?E" "length (buf_vec ?b) + extrabuf_size \<le> vector_max_size"
    "sys_readv ?E (tc_socket (conns w c)) (readv_iov ?b) (kern w) = (SysOk bs, k)"
    using laws(2) r room by (simp_all add: readv_ok_def has_room_def)
  with wf obtain b where b: "ReadFd ?E (tc_socket (conns w c)) ?b (kern w) = Inr (SysOk (length bs), b, k)" "wf_buffer b"
    and "content b = content ?b @ bs" by (rule ReadFd_appends)
  then have content: "content b = bs" using parts by simp
  define w1 where "w1 = on_conn (\<lambda>conn. conn\<lparr>tc_input_buffer := RetrieveAll b\<rparr>) c (w\<lparr>kern := k, trace := trace w @ [MessageCb c bs]\<rparr>)"
  have "ints k = ints (kern w)" using parts r by (auto simp: host_ok_def dest: io_keepsD(2))
  then have host1: "host_ok ?E ints c w1" unfolding w1_def using parts by (intro host_ok_input) (auto elim!: host_ok_cong)
  have ok1: "conn_ok c w1"
    unfolding w1_def by (rule conn_ok_input) (use parts b(2) in \<open>auto elim!: conn_ok_cong\<close>)
  have w1: "conns w1 = (conns w)(c := (conns w c)\<lparr>tc_input_buffer := RetrieveAll b\<rparr>)" "loops w1 = loops w"
    "out_stream c w1 = out_stream c w"
    by (simp_all add: w1_def fun_eq_iff out_stream_def)
  have run: "Conn_HandleRead ?E me close t c w = SendInLoop ?E me c bs w1"
    using b(1) content fd bs parts
    by (simp add: Conn_HandleRead_def message_callback_def UserDefineMessageCallback_def perform_def Send_def
        IsInLoopThread_def w1_def on_conn_def)
  have "sends ?E ints me c bs (if peer_gone ?E c bs w1 then [] else bs) w1"
    by (rule SendInLoop_sends) (use laws(1) host1 ok1 w1 parts room in \<open>simp_all add: has_room_def\<close>)
  then obtain w' b' where w': "SendInLoop ?E me c bs w1 = Inr w'" "host_ok ?E ints c w'" "conn_ok c w'"
    "conns w' = (conns w1)(c := (conns w1 c)\<lparr>tc_output_buffer := b'\<rparr>)" "out_stream c w' = out_stream c w1 @ bs"
    using peer_stays_not_gone [OF laws(3), of c bs w1] by (auto simp: sends_def)
  have "IsInLoopThread me (tc_loop (conns w c)) w'"
    using IsInLoopThread_kept [OF kept_fwd_SendInLoop [OF w'(1)]] w1(2) parts by (simp add: IsInLoopThread_def)
  then show ?thesis using run w' w1 parts by (intro that [of w']) (simp_all add: echo_ok_def)
qed

text \<open>A failed read and a writable event leave the stream and the invariant as they are.\<close>

lemma HandleError_sel [simp]:
  "conns (HandleError e c w) = conns w" "chans (HandleError e c w) = chans w" "pollers (HandleError e c w) = pollers w"
  "loops (HandleError e c w) = loops w" "sent f (trace (HandleError e c w)) = sent f (trace w)"
  by (simp_all add: HandleError_def Let_def split: prod.split)

lemma HandleError_ints: "io_keeps e ints \<Longrightarrow> ints (kern (HandleError e c w)) = ints (kern w)"
  by (auto simp: HandleError_def Let_def split: prod.split dest: io_keepsD(4))

lemma echo_read_error:
  assumes ok: "echo_ok e ints me c w"
    and r: "sys_readv e (tc_socket (conns w c)) (readv_iov (tc_input_buffer (conns w c))) (kern w) = (SysErr n, k)"
  obtains w' where "Conn_HandleRead (echo_env e) me close t c w = Inr w'" and "echo_ok e ints me c w'"
    and "out_stream c w' = out_stream c w"
proof -
  let ?E = "echo_env e" and ?b = "tc_input_buffer (conns w c)"
  note parts = ok [unfolded echo_ok_def]
  have keeps: "io_keeps ?E ints" and fd: "ch_fd (conn_chan w c) = tc_socket (conns w c)" using parts by (simp_all add: host_ok_def conn_ok_def)
  have "ReadFd ?E (tc_socket (conns w c)) ?b (kern w) = Inr (SysErr n, ?b, k)" using r by (simp add: ReadFd_error)
  define w1 where "w1 = log_error ''TcpConnection::handleRead'' (on_conn (\<lambda>conn. conn\<lparr>tc_input_buffer := ?b\<rparr>) c (w\<lparr>kern := k\<rparr>))"
  let ?w' = "HandleError ?E c w1"
  have w1: "conns w1 = conns w" "chans w1 = chans w" "loops w1 = loops w" "pollers w1 = pollers w" "kern w1 = k"
    "sent f (trace w1) = sent f (trace w)" for f
    by (simp_all add: w1_def fun_eq_iff)
  have "ints k = ints (kern w)" using io_keepsD(2) [OF keeps, of _ _ "kern w" "SysErr n" k] r by simp
  then have "ints (kern ?w') = ints (kern w)" by (simp add: HandleError_ints [OF keeps] w1(5))
  then have "host_ok ?E ints c ?w'" using parts w1 by (auto elim!: host_ok_cong)
  moreover have "conn_ok c ?w'" using parts w1 by (auto elim!: conn_ok_cong)
  moreover have "Conn_HandleRead ?E me close t c w = Inr ?w'"
    using r fd by (simp add: Conn_HandleRead_def ReadFd_error w1_def)
  ultimately show ?thesis
    using parts w1 by (intro that [of ?w']) (simp_all add: echo_ok_def out_stream_def IsInLoopThread_def)
qed

lemma echo_write:
  assumes ok: "echo_ok e ints me c w" and wr: "write_ok e"
  obtains w' where "HandleWrite (echo_env e) me c w = Inr w'" and "echo_ok e ints me c w'" and "out_stream c w' = out_stream c w"
proof -
  note parts = ok [unfolded echo_ok_def]
  obtain w' b where w': "HandleWrite (echo_env e) me c w = Inr w'" "host_ok (echo_env e) ints c w'" "conn_ok c w'"
    "conns w' = (conns w)(c := (conns w c)\<lparr>tc_output_buffer := b\<rparr>)" "out_stream c w' = out_stream c w"
    by (rule HandleWrite_keeps [of "echo_env e" ints c w me]) (use wr parts in simp_all)
  then show ?thesis
    using parts IsInLoopThread_kept [OF kept_fwd_HandleWrite [OF w'(1)]] by (intro that [of w']) (simp_all add: echo_ok_def)
qed

text \<open>
  The events of one connection in any order, with the bytes received so far: readable with data,
  readable with an error, writable.
\<close>

inductive echo_run ::
  "'k env \<Rightarrow> tid \<Rightarrow> (ptr \<Rightarrow> ptr \<Rightarrow> ('k, 'm) tcp_op) \<Rightarrow> ptr \<Rightarrow> ('k, 'm) tcp_world_scheme \<Rightarrow> byte list \<Rightarrow>
   ('k, 'm) tcp_world_scheme \<Rightarrow> bool"
  for e :: "'k env" and me :: tid and close :: "ptr \<Rightarrow> ptr \<Rightarrow> ('k, 'm) tcp_op" and c :: ptr and w :: "('k, 'm) tcp_world_scheme" where
  idle: "echo_run e me close c w [] w"
| readable: "echo_run e me close c w rcv w1 \<Longrightarrow>
    sys_readv e (tc_socket (conns w1 c)) (readv_iov (tc_input_buffer (conns w1 c))) (kern w1) = (SysOk bs, k) \<Longrightarrow> bs \<noteq> [] \<Longrightarrow>
    has_room bs c w1 \<Longrightarrow> Conn_HandleRead (echo_env e) me close t c w1 = Inr w2 \<Longrightarrow> echo_run e me close c w (rcv @ bs) w2"
| read_error: "echo_run e me close c w rcv w1 \<Longrightarrow>
    sys_readv e (tc_socket (conns w1 c)) (readv_iov (tc_input_buffer (conns w1 c))) (kern w1) = (SysErr n, k) \<Longrightarrow>
    Conn_HandleRead (echo_env e) me close t c w1 = Inr w2 \<Longrightarrow> echo_run e me close c w rcv w2"
| writable: "echo_run e me close c w rcv w1 \<Longrightarrow> HandleWrite (echo_env e) me c w1 = Inr w2 \<Longrightarrow> echo_run e me close c w rcv w2"

section \<open>Properties\<close>



end
