(* ===== verification/Echo_Client.thy ===== *)
theory Echo_Client
  imports Inet_Socket
begin

text \<open>
  The test client of tests/echo_client.cpp: it connects, reads words from the terminal, sends each
  one, and prints what comes back. It uses blocking sockets and nothing of the library.
\<close>

section \<open>The outside world\<close>

text \<open>
  The system calls of the client; the results of \<open>send\<close> and \<open>close\<close> are not looked at. A \<open>recv\<close> that never
  returns is not represented: the model describes runs in which each call does.
\<close>

record 'k client_env =
  cl_socket :: "'k \<Rightarrow> fd \<times> 'k"
  cl_connect :: "fd \<Rightarrow> sockaddr_in \<Rightarrow> 'k \<Rightarrow> unit sysres \<times> 'k"
  cl_send :: "fd \<Rightarrow> byte list \<Rightarrow> 'k \<Rightarrow> 'k"
  cl_recv :: "fd \<Rightarrow> nat \<Rightarrow> 'k \<Rightarrow> byte list sysres \<times> 'k"
  cl_close :: "fd \<Rightarrow> 'k \<Rightarrow> 'k"

datatype client_obs = Prompted | SentWord fd "byte list" | Printed "byte list" | SaidDisconnected | ClosedSocket fd | ErrorLine string

text \<open>The kernel, what is still to be read from the terminal up to its end, and what the client did.\<close>

record 'k client =
  cl_kern :: 'k
  cl_input :: "byte list"
  cl_out :: "client_obs list"

definition say :: "client_obs \<Rightarrow> 'k client \<Rightarrow> 'k client" where
  "say x st = st\<lparr>cl_out := cl_out st @ [x]\<rparr>"

section \<open>The program\<close>

definition kBuffSize :: nat where "kBuffSize = 1024"

text \<open>\<open>exit(-1)\<close> ends the process with status -1, as a \<open>return\<close> from \<open>main\<close> does.\<close>

definition ErrorHandling :: "string \<Rightarrow> 'k client \<Rightarrow> int \<times> 'k client" where
  "ErrorHandling message st = (-1, say (ErrorLine message) st)"

text \<open>
  \<open>std::cin >> buf\<close> for an array, as C++20 has it: white space is skipped, then at most \<open>kBuffSize - 1\<close>
  characters up to the next white space are stored. At the end of the input nothing is stored.
\<close>

definition isspace :: "byte \<Rightarrow> bool" where
  "isspace b \<longleftrightarrow> b = 32 \<or> (9 \<le> b \<and> b \<le> 13)"

definition read_word :: "byte list \<Rightarrow> byte list \<times> byte list" where
  "read_word input =
     (let input = dropWhile isspace input;
          word = take (kBuffSize - 1) (takeWhile (\<lambda>b. \<not> isspace b) input)
      in (word, drop (length word) input))"

text \<open>An array of zeros with \<open>bs\<close> stored at its front, and the C string at the start of an array.\<close>

definition in_buf :: "byte list \<Rightarrow> byte list" where
  "in_buf bs = bs @ replicate (kBuffSize - length bs) 0"

definition c_string :: "byte list \<Rightarrow> byte list result" where
  "c_string buf = (if 0 \<in> set buf then Inr (takeWhile (\<lambda>b. b \<noteq> 0) buf) else Inl OutOfBounds)"

datatype flow = Next | Break | Return int

text \<open>The body of the \<open>while\<close>; 81 and 113 are the letters Q and q.\<close>

definition client_iteration :: "'k client_env \<Rightarrow> fd \<Rightarrow> 'k client \<Rightarrow> (flow \<times> 'k client) result" where
  "client_iteration e sock st =
     (let (word, rest) = read_word (cl_input st);
          st = (say Prompted st)\<lparr>cl_input := rest\<rparr>
      in andThen (c_string (in_buf word)) (\<lambda>text.
           if text = [81, 10] \<or> text = [113, 10] then Inr (Break, st)
           else
             (let st = say (SentWord sock text) (st\<lparr>cl_kern := cl_send e sock text (cl_kern st)\<rparr>);
                  (r, k) = cl_recv e sock kBuffSize (cl_kern st);
                  st = st\<lparr>cl_kern := k\<rparr>
              in if r = SysOk []
                 then Inr (Return (-1), say SaidDisconnected (say (ClosedSocket sock) (st\<lparr>cl_kern := cl_close e sock (cl_kern st)\<rparr>)))
                 else andThen (c_string (in_buf (case r of SysErr errno \<Rightarrow> [] | SysOk bs \<Rightarrow> bs))) (\<lambda>text.
                        Inr (Next, say (Printed text) st)))))"

text \<open>The \<open>while\<close> with a bound on its iterations: \<open>None\<close> says that it is still running after that many.\<close>

primrec client_loop :: "nat \<Rightarrow> 'k client_env \<Rightarrow> fd \<Rightarrow> 'k client \<Rightarrow> (int \<times> 'k client) result option" where
  "client_loop 0 e sock st = None"
| "client_loop (Suc n) e sock st =
     (case client_iteration e sock st of
        Inl x \<Rightarrow> Some (Inl x)
      | Inr (Next, st) \<Rightarrow> client_loop n e sock st
      | Inr (Break, st) \<Rightarrow> Some (Inr (0, say (ClosedSocket sock) (st\<lparr>cl_kern := cl_close e sock (cl_kern st)\<rparr>)))
      | Inr (Return x, st) \<Rightarrow> Some (Inr (x, st)))"

definition serv_addr :: "inet \<Rightarrow> sockaddr_in" where
  "serv_addr p = \<lparr>sin_family = AF_INET, sin_port = htons 9012,
     sin_addr = (case inet_pton p ''127.0.0.1'' of None \<Rightarrow> 0 | Some a \<Rightarrow> a)\<rparr>"

definition client_main :: "nat \<Rightarrow> 'k client_env \<Rightarrow> inet \<Rightarrow> 'k client \<Rightarrow> (int \<times> 'k client) result option" where
  "client_main n e p st =
     (let (sock, k) = cl_socket e (cl_kern st);
          (ret, k) = cl_connect e sock (serv_addr p) k;
          st = st\<lparr>cl_kern := k\<rparr>
      in case ret of
           SysErr errno \<Rightarrow> Some (Inr (ErrorHandling ''connect error'' st))
         | SysOk _ \<Rightarrow> client_loop n e sock st)"

section \<open>Facts\<close>

lemma say_sel [simp]:
  "cl_out (say x st) = cl_out st @ [x]" "cl_kern (say x st) = cl_kern st" "cl_input (say x st) = cl_input st"
  by (simp_all add: say_def)

lemma read_word_no_space: "b \<in> set (fst (read_word input)) \<Longrightarrow> \<not> isspace b"
  by (auto simp: read_word_def Let_def dest!: in_set_takeD set_takeWhileD)

lemma length_read_word: "length (fst (read_word input)) < kBuffSize"
  by (simp add: read_word_def Let_def kBuffSize_def)

text \<open>The word read always ends inside the array, and so the first string operations stay inside it.\<close>

lemma c_string_word: "length w < kBuffSize \<Longrightarrow> c_string (in_buf w) = Inr (takeWhile (\<lambda>b. b \<noteq> 0) w)"
  by (auto simp: c_string_def in_buf_def takeWhile_append takeWhile_replicate takeWhile_eq_all_conv [THEN iffD2])

lemma c_string_full: "length bs = kBuffSize \<Longrightarrow> 0 \<notin> set bs \<Longrightarrow> c_string (in_buf bs) = Inl OutOfBounds"
  by (simp add: c_string_def in_buf_def)

text \<open>
  One round. A word contains no newline, so the comparison with Q and a newline fails for every input: the
  word is sent, and what follows depends on the answer alone.
\<close>

definition next_word :: "'k client \<Rightarrow> byte list" where
  "next_word st = takeWhile (\<lambda>b. b \<noteq> 0) (fst (read_word (cl_input st)))"

definition after_sending :: "fd \<Rightarrow> 'k \<Rightarrow> 'k client \<Rightarrow> 'k client" where
  "after_sending sock k st = st\<lparr>cl_kern := k, cl_input := snd (read_word (cl_input st)),
     cl_out := cl_out st @ [Prompted, SentWord sock (next_word st)]\<rparr>"

lemma client_round:
  assumes "cl_recv e sock kBuffSize (cl_send e sock (next_word st) (cl_kern st)) = (r, k)"
  shows "client_iteration e sock st =
    (if r = SysOk [] then Inr (Return (-1), say SaidDisconnected (say (ClosedSocket sock) (after_sending sock (cl_close e sock k) st)))
     else andThen (c_string (in_buf (case r of SysErr errno \<Rightarrow> [] | SysOk bs \<Rightarrow> bs))) (\<lambda>text.
            Inr (Next, say (Printed text) (after_sending sock k st))))"
proof -
  obtain word rest where w: "read_word (cl_input st) = (word, rest)" by fastforce
  have "10 \<notin> set word" using read_word_no_space [of 10 "cl_input st"] w by (auto simp: isspace_def)
  then have "10 \<notin> set (next_word st)" using w by (auto simp: next_word_def dest: set_takeWhileD)
  then have no: "next_word st \<noteq> [a, 10]" for a by auto
  have "c_string (in_buf word) = Inr (next_word st)"
    using c_string_word length_read_word [of "cl_input st"] w by (simp add: next_word_def)
  then show ?thesis
    using w no assms by (cases st) (simp add: client_iteration_def Let_def after_sending_def say_def)
qed

lemma client_round_answered:
  assumes "cl_recv e sock kBuffSize (cl_send e sock (next_word st) (cl_kern st)) = (SysOk bs, k)" and "bs \<noteq> []" and "length bs < kBuffSize"
  shows "client_iteration e sock st = Inr (Next, say (Printed (takeWhile (\<lambda>b. b \<noteq> 0) bs)) (after_sending sock k st))"
  using assms(2) by (simp add: client_round [OF assms(1)] c_string_word [OF assms(3)])

lemma never_breaks:
  assumes "client_iteration e sock st = Inr (flow, st')"
  shows "flow \<noteq> Break" and "flow = Return x \<Longrightarrow> x = -1 \<and> last (cl_out st') = SaidDisconnected"
proof -
  obtain r k where rk: "cl_recv e sock kBuffSize (cl_send e sock (next_word st) (cl_kern st)) = (r, k)" by fastforce
  show "flow \<noteq> Break" "flow = Return x \<Longrightarrow> x = -1 \<and> last (cl_out st') = SaidDisconnected"
    using assms unfolding client_round [OF rk] by (auto simp: andThen_eq_Inr split: if_splits)
qed

text \<open>
  A reply of \<open>kBuffSize\<close> bytes without a zero fills the array, and printing it reads past its end.
\<close>

lemma full_reply_is_overread:
  assumes "cl_recv e sock kBuffSize (cl_send e sock (next_word st) (cl_kern st)) = (SysOk bs, k)"
    and "length bs = kBuffSize" and "0 \<notin> set bs"
  shows "client_iteration e sock st = Inl OutOfBounds"
  using assms(2) c_string_full [OF assms(2,3)] by (auto simp: client_round [OF assms(1)] kBuffSize_def)

text \<open>The client connects to the address that the echo server of tests/echo_server.cpp binds.\<close>

lemma serv_addr_is_echo_server:
  assumes "inet_pton p ''127.0.0.1'' = Some a"
  shows "serv_addr p = new_InetAddress p junk 9012 ''127.0.0.1''"
proof -
  have "c_str ''127.0.0.1'' = ''127.0.0.1''" by code_simp
  with assms show ?thesis by (simp add: serv_addr_def new_InetAddress_def)
qed

section \<open>Properties\<close>

text \<open>
  C36: the client cannot be quit. Whatever is typed, a run of the client that ends ends with status -1,
  because the connection failed or because the server closed it; the word Q and a newline, which the
  prompt asks for, is sent to the server like any other word.
\<close>

theorem echo_client_cannot_be_quit:
  assumes "client_main n e p st = Some (Inr (status, st'))"
  shows "status = -1 \<and> (last (cl_out st') = ErrorLine ''connect error'' \<or> last (cl_out st') = SaidDisconnected)"
proof -
  have loop: "status = -1 \<and> last (cl_out st') = SaidDisconnected" if "client_loop n e sock st = Some (Inr (status, st'))" for n sock st
    using that
  proof (induction n arbitrary: st)
    case (Suc n)
    then show ?case
      using never_breaks(1,2) [of e sock st] by (auto split: sum.splits prod.splits flow.splits)
  qed simp
  show ?thesis
    using assms loop by (auto simp: client_main_def ErrorHandling_def Let_def split: prod.splits sysres.splits)
qed

text \<open>A server that answers each word with it and closes after it has seen one; the user types Q.\<close>

definition echo_once :: "(byte list \<times> bool) client_env" where
  "echo_once = \<lparr>cl_socket = (\<lambda>k. (3, k)), cl_connect = (\<lambda>f a k. (SysOk (), k)),
     cl_send = (\<lambda>f bs k. (if snd k then [] else bs, True)), cl_recv = (\<lambda>f n k. (SysOk (fst k), k)), cl_close = (\<lambda>f k. k)\<rparr>"

theorem echo_client_cannot_be_quit_witness:
  "\<exists>st'. client_main 2 echo_once dotted_inet \<lparr>cl_kern = ([], False), cl_input = [81, 10, 65, 10], cl_out = []\<rparr> = Some (Inr (-1, st'))
     \<and> cl_out st' = [Prompted, SentWord 3 [81], Printed [81], Prompted, SentWord 3 [65], ClosedSocket 3, SaidDisconnected]
     \<and> (last (cl_out st') = ErrorLine ''connect error'' \<or> last (cl_out st') = SaidDisconnected)"
proof -
  define st1 st2 :: "(byte list \<times> bool) client" where
    st: "st1 = \<lparr>cl_kern = ([], False), cl_input = [81, 10, 65, 10], cl_out = []\<rparr>"
      "st2 = \<lparr>cl_kern = ([81], True), cl_input = [10, 65, 10], cl_out = [Prompted, SentWord 3 [81], Printed [81]]\<rparr>"
  have words: "read_word [81, 10, 65, 10] = ([81], [10, 65, 10])" "read_word [10, 65, 10] = ([65], [10])"
    by (simp_all add: read_word_def isspace_def kBuffSize_def)
  have "client_iteration echo_once 3 st1 = Inr (Next, st2)"
    by (subst client_round_answered [of _ _ _ "[81]" "([81], True)"])
       (simp_all add: echo_once_def st next_word_def words after_sending_def say_def kBuffSize_def)
  moreover have "client_iteration echo_once 3 st2 =
      Inr (Return (-1), say SaidDisconnected (say (ClosedSocket 3) (after_sending 3 ([], True) st2)))"
    by (subst client_round [of _ _ _ "SysOk []" "([], True)"]) (simp_all add: echo_once_def st next_word_def words)
  ultimately have run: "client_main 2 echo_once dotted_inet st1 =
      Some (Inr (-1, say SaidDisconnected (say (ClosedSocket 3) (after_sending 3 ([], True) st2))))"
    by (simp add: client_main_def numeral_2_eq_2) (simp add: echo_once_def st)
  from echo_client_cannot_be_quit [OF run] run show ?thesis
    by (simp add: st after_sending_def next_word_def words)
qed

end
