(* ===== verification/Logging.thy ===== *)
theory Logging
  imports Printing
begin

text \<open>
  \<open>Timestamp\<close> (src/timestamp.cpp) and \<open>Logger\<close> (src/logger.cpp, include/cutemuduo/logger.hpp) with its
  macros. The clock value and \<open>localtime\<close> are arguments. The logger is one object for all threads and its
  macros set the level and print in two separate accesses, so the theory ends with the
  interleavings of several threads that log.
\<close>

section \<open>Timestamp\<close>

type_synonym int64 = "64 word"

record timestamp =
  micro_seconds_since_epoch :: int64

record tm =
  tm_year :: int
  tm_mon :: int
  tm_mday :: int
  tm_hour :: int
  tm_min :: int
  tm_sec :: int

definition default_Timestamp :: timestamp where
  "default_Timestamp = \<lparr>micro_seconds_since_epoch = 0\<rparr>"

definition new_Timestamp :: "int64 \<Rightarrow> timestamp" where
  "new_Timestamp microSecondsSinceEpoch = \<lparr>micro_seconds_since_epoch = microSecondsSinceEpoch\<rparr>"

text \<open>\<open>time(NULL)\<close> is in seconds.\<close>

definition Now :: "int64 \<Rightarrow> timestamp" where
  "Now time = new_Timestamp time"

text \<open>\<open>%4d\<close> fills with blanks, \<open>%02d\<close> with zeros after the sign.\<close>

definition pad4 :: "int \<Rightarrow> string" where
  "pad4 i = replicate (4 - length (show_int i)) (CHR '' '') @ show_int i"

definition pad02 :: "int \<Rightarrow> string" where
  "pad02 i = (if i < 0 then show_int i else replicate (2 - length (show_int i)) (CHR ''0'') @ show_int i)"

text \<open>\<open>localtime\<close> returns a null pointer when the year does not fit; the code does not check it.\<close>

definition Timestamp_ToString :: "(int64 \<Rightarrow> tm option) \<Rightarrow> timestamp \<Rightarrow> string result" where
  "Timestamp_ToString localtime ts =
     (case localtime (micro_seconds_since_epoch ts) of
        None \<Rightarrow> Inl NullPointer
      | Some tm_time \<Rightarrow> Inr (snprintf 128
          (pad4 (tm_year tm_time + 1900) @ CHR ''/'' # pad02 (tm_mon tm_time + 1) @ CHR ''/'' # pad02 (tm_mday tm_time)
           @ CHR '' '' # pad02 (tm_hour tm_time) @ CHR '':'' # pad02 (tm_min tm_time) @ CHR '':'' # pad02 (tm_sec tm_time))))"

section \<open>Logger\<close>

datatype LogLevel = INFO | WARNING | ERROR | FATAL | DEBUG

text \<open>The singleton: its level and the lines it has written to the standard output.\<close>

record logger =
  log_level :: LogLevel
  log_lines :: "string list"

text \<open>The static object of \<open>GetInstance\<close> starts zero-initialised, which is the level \<open>INFO\<close>.\<close>

definition GetInstance :: logger where
  "GetInstance = \<lparr>log_level = INFO, log_lines = []\<rparr>"

definition SetLogLevel :: "LogLevel \<Rightarrow> logger \<Rightarrow> logger" where
  "SetLogLevel level lg = lg\<lparr>log_level := level\<rparr>"

definition log_prefix :: "LogLevel \<Rightarrow> string" where
  "log_prefix level = (case level of INFO \<Rightarrow> ''[INFO]'' | WARNING \<Rightarrow> ''[WARNING]'' | ERROR \<Rightarrow> ''[ERROR]''
     | FATAL \<Rightarrow> ''[FATAL]'' | DEBUG \<Rightarrow> ''[DEBUG]'')"

definition Log :: "(int64 \<Rightarrow> tm option) \<Rightarrow> int64 \<Rightarrow> string \<Rightarrow> logger \<Rightarrow> logger result" where
  "Log localtime time msg lg =
     andThen (Timestamp_ToString localtime (Now time)) (\<lambda>now.
       Inr (lg\<lparr>log_lines := log_lines lg @ [log_prefix (log_level lg) @ now @ '' : '' @ msg]\<rparr>))"

text \<open>The macros; \<open>text\<close> is the formatted message, of which the buffer keeps 1023 characters.\<close>

definition log_at :: "LogLevel \<Rightarrow> (int64 \<Rightarrow> tm option) \<Rightarrow> int64 \<Rightarrow> string \<Rightarrow> logger \<Rightarrow> logger result" where
  "log_at level localtime time text lg = Log localtime time (snprintf 1024 text) (SetLogLevel level lg)"

definition LOG_INFO :: "(int64 \<Rightarrow> tm option) \<Rightarrow> int64 \<Rightarrow> string \<Rightarrow> logger \<Rightarrow> logger result" where
  "LOG_INFO = log_at INFO"

definition LOG_WARNING :: "(int64 \<Rightarrow> tm option) \<Rightarrow> int64 \<Rightarrow> string \<Rightarrow> logger \<Rightarrow> logger result" where
  "LOG_WARNING = log_at WARNING"

definition LOG_ERROR :: "(int64 \<Rightarrow> tm option) \<Rightarrow> int64 \<Rightarrow> string \<Rightarrow> logger \<Rightarrow> logger result" where
  "LOG_ERROR = log_at ERROR"

definition LOG_FATAL :: "(int64 \<Rightarrow> tm option) \<Rightarrow> int64 \<Rightarrow> string \<Rightarrow> logger \<Rightarrow> logger result" where
  "LOG_FATAL localtime time text lg = andThen (log_at FATAL localtime time text lg) (\<lambda>_. Inl LogFatal)"

text \<open>\<open>mudebug\<close> says whether the macro \<open>MUDEBUG\<close> is defined.\<close>

definition LOG_DEBUG :: "bool \<Rightarrow> (int64 \<Rightarrow> tm option) \<Rightarrow> int64 \<Rightarrow> string \<Rightarrow> logger \<Rightarrow> logger result" where
  "LOG_DEBUG mudebug localtime time text lg = (if mudebug then log_at DEBUG localtime time text lg else Inr lg)"

section \<open>Facts\<close>

lemma log_prefix_inj: "log_prefix a = log_prefix b \<longleftrightarrow> a = b"
  by (cases a; cases b) (simp_all add: log_prefix_def)

lemma pad02_two_digits: "0 \<le> i \<Longrightarrow> i < 100 \<Longrightarrow> length (pad02 i) = 2"
proof -
  assume i: "0 \<le> i" "i < 100"
  then have "length (show_int i) \<le> 2" by (auto simp: show_int_def intro!: length_show_nat)
  then show ?thesis using i by (simp add: pad02_def)
qed

lemma pad4_four_digits: "0 \<le> i \<Longrightarrow> i < 10000 \<Longrightarrow> length (pad4 i) = 4"
proof -
  assume i: "0 \<le> i" "i < 10000"
  then have "length (show_int i) \<le> 4" by (auto simp: show_int_def intro!: length_show_nat)
  then show ?thesis by (simp add: pad4_def)
qed

text \<open>Every date \<open>localtime\<close> gives for the years 0 to 9999 prints as nineteen characters.\<close>

definition tm_ok :: "tm \<Rightarrow> bool" where
  "tm_ok t \<longleftrightarrow> -1900 \<le> tm_year t \<and> tm_year t < 8100 \<and> 0 \<le> tm_mon t \<and> tm_mon t < 12 \<and> 1 \<le> tm_mday t \<and> tm_mday t \<le> 31
     \<and> 0 \<le> tm_hour t \<and> tm_hour t < 24 \<and> 0 \<le> tm_min t \<and> tm_min t < 60 \<and> 0 \<le> tm_sec t \<and> tm_sec t \<le> 60"

lemma ToString_has_fixed_width:
  assumes "localtime (micro_seconds_since_epoch ts) = Some t" and "tm_ok t"
  obtains s where "Timestamp_ToString localtime ts = Inr s" and "length s = 19"
  using assms pad4_four_digits [of "tm_year t + 1900"] pad02_two_digits [of "tm_mon t + 1"] pad02_two_digits [of "tm_mday t"]
    pad02_two_digits [of "tm_hour t"] pad02_two_digits [of "tm_min t"] pad02_two_digits [of "tm_sec t"]
  by (auto simp: Timestamp_ToString_def tm_ok_def)

text \<open>A macro that no other thread interrupts prints one line, under its own level.\<close>

lemma log_at_prints_own_level:
  assumes "localtime time = Some t"
  obtains now lg' where "log_at level localtime time text lg = Inr lg'"
    and "log_lines lg' = log_lines lg @ [log_prefix level @ now @ '' : '' @ snprintf 1024 text]"
  using assms by (simp add: log_at_def Log_def SetLogLevel_def Timestamp_ToString_def Now_def new_Timestamp_def)

section \<open>Several threads\<close>

text \<open>The two accesses of a macro to the shared logger, by any number of threads.\<close>

record log_state =
  shared_logger :: logger
  pending_log :: "nat \<Rightarrow> (LogLevel \<times> string) option"

inductive log_step :: "(int64 \<Rightarrow> tm option) \<Rightarrow> int64 \<Rightarrow> log_state \<Rightarrow> log_state \<Rightarrow> bool"
  for localtime :: "int64 \<Rightarrow> tm option" and time :: int64 where
  sets_level: "pending_log s i = None \<Longrightarrow>
    log_step localtime time s (s\<lparr>shared_logger := SetLogLevel level (shared_logger s), pending_log := (pending_log s)(i \<mapsto> (level, text))\<rparr>)"
| prints: "pending_log s i = Some (level, text) \<Longrightarrow> Log localtime time (snprintf 1024 text) (shared_logger s) = Inr lg \<Longrightarrow>
    log_step localtime time s (s\<lparr>shared_logger := lg, pending_log := (pending_log s)(i := None)\<rparr>)"

definition log_init :: log_state where
  "log_init = \<lparr>shared_logger = GetInstance, pending_log = (\<lambda>_. None)\<rparr>"

text \<open>Two threads can make an error message come out under the level of the other's message.\<close>

lemma log_level_race:
  assumes "Timestamp_ToString localtime (Now time) = Inr now" and "length m < 1024"
  shows "\<exists>s1 s2 s3. log_step localtime time log_init s1 \<and> pending_log s1 1 = Some (ERROR, m)
    \<and> log_step localtime time s1 s2 \<and> log_step localtime time s2 s3
    \<and> pending_log s3 1 = None \<and> log_lines (shared_logger s3) = [log_prefix INFO @ now @ '' : '' @ m]"
proof -
  let ?s1 = "log_init\<lparr>shared_logger := SetLogLevel ERROR (shared_logger log_init), pending_log := (pending_log log_init)(1 \<mapsto> (ERROR, m))\<rparr>"
  let ?s2 = "?s1\<lparr>shared_logger := SetLogLevel INFO (shared_logger ?s1), pending_log := (pending_log ?s1)(2 \<mapsto> (INFO, []))\<rparr>"
  let ?lg = "(shared_logger ?s2)\<lparr>log_lines := [log_prefix INFO @ now @ '' : '' @ m]\<rparr>"
  let ?s3 = "?s2\<lparr>shared_logger := ?lg, pending_log := (pending_log ?s2)(1 := None)\<rparr>"
  have "log_step localtime time log_init ?s1" by (rule sets_level) (simp add: log_init_def)
  moreover have "log_step localtime time ?s1 ?s2" by (rule sets_level) (simp add: log_init_def)
  moreover have "log_step localtime time ?s2 ?s3"
    by (rule prints [of _ _ ERROR m]) (use assms in \<open>simp_all add: Log_def SetLogLevel_def log_init_def GetInstance_def\<close>)
  ultimately show ?thesis by (intro exI [of _ ?s1] exI [of _ ?s2] exI [of _ ?s3]) simp
qed

end
