(* ===== verification/Spec2Isabelle.thy ===== *)
theory Spec2Isabelle
  imports Loop_Protocol Server_Safety Send_Equivalence Echo_Server Echo_Client Logging
begin

text \<open>
  A verification development of CuteMuduo, a C++ network library in the style of muduo: one event
  loop per thread over epoll, non-blocking TCP connections with user-space buffers, a pool of
  loops, and a server on top. Paths below are relative to src/CuteMuduo unless they start with
  tests/.

  \<^bold>\<open>The parts and how they interact.\<close> An \<open>EventLoop\<close> owns a \<open>Poller\<close> and runs, in its thread,
  the callbacks of the \<open>Channel\<close>s that became ready and then the functors other threads queued.
  A \<open>Channel\<close> connects a descriptor to callbacks. A \<open>TcpConnection\<close> owns a \<open>Socket\<close>, a \<open>Channel\<close> and
  two \<open>Buffer\<close>s. An \<open>Acceptor\<close> in the main loop accepts descriptors and hands them to the
  \<open>TcpServer\<close>, which creates a connection in the next loop of its \<open>EventLoopThreadPool\<close>, keeps it in a
  map and removes it when it closes.

  \<^bold>\<open>State.\<close> The objects live in stores, functions from pointers to records, collected in one
  world record that grows with the components (\<open>chan_world\<close>, \<open>poll_world\<close>, \<open>loop_world\<close>,
  \<open>tcp_world\<close>, \<open>server_world\<close>); each component's operations work on every extension of its
  own world. The state of the kernel is a field of any type. System calls and the application's
  callbacks are functions of the record \<open>env\<close>; what a theorem relies on of them is a named
  hypothesis in the words of the manual page (\<open>write_ok\<close>, \<open>readv_ok\<close>, \<open>epoll_ctl_ok\<close> and so on),
  which the concrete \<open>test_env\<close> satisfies. An application callback returns the library calls it makes.
  Closures stored in channels and queues are values of the datatypes \<open>callback\<close> and \<open>Functor\<close>;
  \<open>run_callback\<close> and \<open>run_functor\<close> say what each does. A fault (exit through \<open>LOG_FATAL\<close>, an exception, a
  read outside a vector, a null dereference, an overflow of a signed counter) is the left value of
  the result type.

  \<^bold>\<open>The theories.\<close>
  \<^item> \<open>Prelude\<close>: results and their sequencing, lists and words, the named collections of simp rules.
  \<^item> \<open>Environment\<close>: system calls, callbacks, the laws, the observations, \<open>test_env\<close>.
  \<^item> \<open>Byte_Buffer\<close> (src/buffer.cpp): all operations with \<open>size_t\<close> at 64 bits. Every sequence of
    operations refines a plain byte queue; room, reading, writing, searching; what goes wrong
    near \<open>SIZE_MAX\<close> and beyond the readable bytes.
  \<^item> \<open>Channel\<close> (src/channel.cpp): interest, dispatch order, the tie. The locale \<open>channel_host\<close> is what a
    channel needs of its loop; \<open>Event_Loop\<close> interprets it.
  \<^item> \<open>Epoll_Poller\<close> (src/epoll_poller.cpp, src/default_poller.cpp): the poller's table, the channels' indices and
    the kernel's interest list agree, and every operation keeps it so.
  \<^item> \<open>Event_Loop\<close> (src/event_loop.cpp): one call at a time. The locale \<open>loop_client\<close> says what closures
    may do to loops and proves what an iteration then guarantees; \<open>Tcp_Server\<close> interprets it
    with all closures of the library.
  \<^item> \<open>Loop_Protocol\<close> (src/event_loop.cpp): \<open>Loop\<close>, \<open>QueueInLoop\<close> and \<open>Quit\<close> at the granularity of
    accesses to shared data, with any number of threads: functors run once and in order, no wakeup is lost,
    everything queued is run; the calls of \<open>Event_Loop\<close> refine the steps.
  \<^item> \<open>Printing\<close>, \<open>Inet_Socket\<close> (src/inet_address.cpp, src/socket.cpp): decimal printing, addresses
    and their round trip, socket calls. \<open>inet_pton\<close> and \<open>inet_ntop\<close> are parameters.
  \<^item> \<open>Tcp_Connection\<close> (src/tcp_connection.cpp): sending, draining, reading, closing. The stream of
    accepted and waiting bytes, the invariant of a connection, and what every operation keeps.
  \<^item> \<open>Thread_Pool\<close> (src/current_thread.cpp, src/thread.cpp, src/event_loop_thread.cpp,
    src/event_loop_thread_pool.cpp): the start handshake and the destructor as interleavings, the
    pool and its round robin.
  \<^item> \<open>Tcp_Server\<close> (src/acceptor.cpp, src/tcp_server.cpp): all operations, the closures, the steps of the
    whole program. \<open>Server_Lifecycle\<close>: the invariant of the server over all reachable states,
    creation, removal, states and lifetime of connections.
  \<^item> \<open>Connection_Life\<close>, \<open>Life_Invariant\<close> and \<open>Callback_Order\<close> (src/tcp_connection.cpp, src/tcp_server.cpp,
    src/acceptor.cpp, src/event_loop.cpp): which operations leave the callback history of connections alone; the
    invariant of histories, callbacks and queues, and that all closures and destructors keep it; the steps of a
    running server with any number of threads (poller reports, dispatch of channels, batches of functors,
    calls of the application, the destructors of the server, its acceptor and its loops), and the protocol of callbacks over all
    reachable states: up, messages, down. The runs start from any state without connections, in particular from
    every state that \<open>new_TcpServer\<close> and \<open>Server_Start\<close> reach (\<open>no_connections_new_TcpServer\<close>,
    \<open>no_connections_Server_Start\<close>). An iteration of \<open>Loop\<close> and the loop of the server's destructor are sequences of these steps.
  \<^item> \<open>Registrations\<close>, \<open>Safe_Operations\<close> and \<open>Server_Safety\<close> (all of src/ but logger.cpp and timestamp.cpp): the whole program
    from its start. The first theory gathers what is relied on (\<open>kernel_laws\<close>: the documented laws of epoll, \<open>read\<close> and \<open>write\<close>, and
    new descriptors differ from open ones; \<open>application_laws\<close>: callbacks make library calls with messages a vector
    can hold) and keeps the registrations of all loops in step with the kernel; the second has the invariant \<open>good\<close>
    and proves every operation safe under it; the third has the steps (\<open>serving_step\<close>) in which loops and servers
    are constructed, started and run in any interleaving, the invariant from \<open>program_start\<close>, and the property that no
    call of such a program faults, apart from the exhaustion of a vector or of the connection ids.
  \<^item> \<open>Send_Equivalence\<close> (src/tcp_connection.cpp): the two overloads of \<open>Send\<close> compared.
  \<^item> \<open>Echo_Server\<close> (tests/echo_server.cpp): the program, and the end-to-end property that it echoes.
  \<^item> \<open>Echo_Client\<close> (tests/echo_client.cpp): the interactive client on blocking sockets, which cannot be quit.
  \<^item> \<open>Logging\<close> (src/logger.cpp, src/timestamp.cpp): levels, lines, dates, and the race on the level.

  \<^bold>\<open>Bounds and fuel.\<close> Only \<open>Loop\<close> and the client's \<open>client_loop\<close> may run for ever; they take the number of
  iterations allowed and return \<open>None\<close> when they are still running after them. For the client's loop no bound is enough in
  general, because it cannot be quit; its theorem holds for every number of iterations. \<open>Loop_ends_after_queued_Quit\<close> proves that one
  iteration is enough once a functor that quits is queued. Hypotheses of the form
  \<open>length ... \<le> vector_max_size\<close> say that a vector may grow as far as needed; beyond that the code
  throws \<open>std::length_error\<close>, which the model has as a fault.

  \<^bold>\<open>Not modelled.\<close> The bytes of log lines below \<open>ERROR\<close> in the network components; \<open>SIGPIPE\<close> (a write
  to a reset peer returns an error here, while the process that does not ignore the signal ends);
  the memory model below the level of single accesses to shared variables, except where
  \<open>Loop_Protocol\<close>, \<open>Thread_Pool\<close> and \<open>Logging\<close> interleave them; the class \<open>NonCopyable\<close>, which has no run-time behaviour; a blocking call of the test
  client that never returns; and, in the steps of \<open>Callback_Order\<close>, the construction of further servers and loops
  once connections exist: the runs there begin when all servers have been constructed and started. The steps of
  \<open>Server_Safety\<close> construct loops and servers at any time; they do not destroy loops, acceptors and whole servers (a server's destructor is
  represented by its effect on each connection), which \<open>Callback_Order\<close> does.
\<close>

end
